(* ===== verification/Prelude.thy ===== *)
theory Prelude
  imports "HOL-Library.Word" "HOL-Library.Mapping" "HOL-Library.AList_Mapping" "HOL-Library.Multiset"
begin

text \<open>
  Shared vocabulary of the development: machine integer types, the state-and-exception monad
  in which the stateful C++ methods are written, byte memory with \<open>memcpy\<close>, and the generic
  lemmas on lists, maps and words that the component theories use.
\<close>

unbundle bit_operations_syntax

section \<open>Machine integers\<close>

type_synonym u8 = "8 word"
type_synonym u16 = "16 word"
type_synonym u32 = "32 word"
type_synonym u64 = "64 word"
type_synonym i32 = "32 word"

text \<open>The masks the program writes as literals.\<close>

lemma mask32_u64: "(0xFFFFFFFF :: u64) = mask 32"
  by (simp add: mask_eq_exp_minus_1)

lemma mask_high48_u64: "(0xFFFFFFFFFFFF0000 :: u64) = NOT (mask 16)"
  by (simp add: mask_eq_exp_minus_1)

lemma mask_high32_u64: "(0xFFFFFFFF00000000 :: u64) = NOT (mask 32)"
  by (simp add: mask_eq_exp_minus_1)

lemma unat_exp64: "k < 64 \<Longrightarrow> unat (2 ^ k :: u64) = 2 ^ k"
proof -
  assume k: "k < 64"
  have "unat (word_of_nat (2 ^ k) :: u64) = 2 ^ k"
    unfolding unsigned_of_nat using k by (simp add: take_bit_nat_eq_self)
  then show ?thesis by simp
qed

named_theorems monad_simps \<open>unfolding the state-and-exception monad\<close>
named_theorems wire_simps \<open>lengths and round trips of byte encodings\<close>
named_theorems frame_simps \<open>fields that an operation leaves unchanged\<close>

section \<open>Results\<close>

text \<open>
  A C++ exception does not undo what the method wrote before it was thrown, so a stateful
  operation returns the state it leaves behind on both outcomes.
\<close>

type_synonym ('e, 's, 'a) res = "('e + 'a) \<times> 's"

definition ret :: "'a \<Rightarrow> 's \<Rightarrow> ('e, 's, 'a) res" where
  "ret a s = (Inr a, s)"

definition throw :: "'e \<Rightarrow> 's \<Rightarrow> ('e, 's, 'a) res" where
  "throw e s = (Inl e, s)"

definition andThen :: "('s \<Rightarrow> ('e, 's, 'a) res) \<Rightarrow> ('a \<Rightarrow> 's \<Rightarrow> ('e, 's, 'b) res) \<Rightarrow> 's \<Rightarrow> ('e, 's, 'b) res" where
  "andThen m f s = (case m s of (Inl e, s') \<Rightarrow> (Inl e, s') | (Inr a, s') \<Rightarrow> f a s')"

definition modify :: "('s \<Rightarrow> 's) \<Rightarrow> 's \<Rightarrow> ('e, 's, unit) res" where
  "modify f s = (Inr (), f s)"

text \<open>A loop over a list that stops at the first exception.\<close>

fun forEach :: "'x list \<Rightarrow> ('x \<Rightarrow> 's \<Rightarrow> ('e, 's, unit) res) \<Rightarrow> 's \<Rightarrow> ('e, 's, unit) res" where
  "forEach [] f s = (Inr (), s)"
| "forEach (x # xs) f s = (case f x s of (Inl e, s') \<Rightarrow> (Inl e, s') | (Inr _, s') \<Rightarrow> forEach xs f s')"

declare ret_def [monad_simps] throw_def [monad_simps] andThen_def [monad_simps] modify_def [monad_simps]

lemma forEach_append:
  "forEach (xs @ ys) f s = andThen (forEach xs f) (\<lambda>_. forEach ys f) s"
  by (induction xs arbitrary: s) (auto simp: andThen_def split: prod.split sum.split)

text \<open>A loop whose body keeps a property keeps it, whether or not it is cut short.\<close>

lemma forEach_invariant:
  assumes "P s" and "\<And>x s. x \<in> set xs \<Longrightarrow> P s \<Longrightarrow> P (snd (f x s))"
  shows "P (snd (forEach xs f s))"
  using assms
proof (induction xs arbitrary: s)
  case Nil
  then show ?case by simp
next
  case (Cons x xs)
  obtain r s' where fx: "f x s = (r, s')" by (cases "f x s")
  then have "P s'" using Cons.prems(1) Cons.prems(2) [of x s] by simp
  then have "P (snd (forEach xs f s'))" using Cons.prems(2) by (intro Cons.IH) auto
  with fx \<open>P s'\<close> show ?case by (cases r) auto
qed

text \<open>
  An operation preserves a predicate when the state it leaves, also on an exception, satisfies it
  again. Preservation is closed under the control structures of the monad.
\<close>

definition preserves :: "('s \<Rightarrow> bool) \<Rightarrow> ('s \<Rightarrow> ('e, 's, 'a) res) \<Rightarrow> bool" where
  "preserves P m \<longleftrightarrow> (\<forall>s. P s \<longrightarrow> P (snd (m s)))"

named_theorems preserve_intros \<open>preservation rules of the monad and of the operations\<close>

lemma preservesD: "preserves P m \<Longrightarrow> P s \<Longrightarrow> P (snd (m s))"
  by (simp add: preserves_def)

lemma preserves_ret [preserve_intros]: "preserves P (ret a)"
  by (simp add: preserves_def ret_def)

lemma preserves_throw [preserve_intros]: "preserves P (throw e)"
  by (simp add: preserves_def throw_def)

lemma preserves_andThen [preserve_intros]:
  "preserves P m \<Longrightarrow> (\<And>a. preserves P (f a)) \<Longrightarrow> preserves P (andThen m f)"
  by (fastforce simp: preserves_def andThen_def split: prod.split sum.split)

lemma preserves_modify: "(\<And>s. P s \<Longrightarrow> P (g s)) \<Longrightarrow> preserves P (modify g)"
  by (simp add: preserves_def modify_def)

lemma preserves_if [preserve_intros]:
  "preserves P m \<Longrightarrow> preserves P m' \<Longrightarrow> preserves P (if b then m else m')"
  by simp

lemma preserves_state_if [preserve_intros]:
  "preserves P m \<Longrightarrow> preserves P m' \<Longrightarrow> preserves P (\<lambda>s. if b s then m s else m' s)"
  by (simp add: preserves_def)

lemma preserves_forEach [preserve_intros]:
  "(\<And>x. x \<in> set xs \<Longrightarrow> preserves P (f x)) \<Longrightarrow> preserves P (forEach xs f)"
  unfolding preserves_def by (blast intro: forEach_invariant)

section \<open>Byte buffers\<close>

text \<open>\<open>memcpy(buf + off, bs, length bs)\<close> on a buffer of known size.\<close>

definition overwrite :: "'a list \<Rightarrow> nat \<Rightarrow> 'a list \<Rightarrow> 'a list" where
  "overwrite buf off bs = take off buf @ bs @ drop (off + length bs) buf"

definition slice :: "nat \<Rightarrow> nat \<Rightarrow> 'a list \<Rightarrow> 'a list" where
  "slice off n xs = take n (drop off xs)"

lemma replicate_numeral: "replicate (numeral k) x = x # replicate (pred_numeral k) x"
  by (simp add: numeral_eq_Suc)

lemma length_overwrite [simp]:
  "off + length bs \<le> length buf \<Longrightarrow> length (overwrite buf off bs) = length buf"
  by (simp add: overwrite_def)

lemma length_slice: "off + n \<le> length xs \<Longrightarrow> length (slice off n xs) = n"
  by (simp add: slice_def)

lemma nth_slice: "off + n \<le> length xs \<Longrightarrow> j < n \<Longrightarrow> slice off n xs ! j = xs ! (off + j)"
  by (simp add: slice_def)

lemma slice_append_right: "slice (length xs + off) n (xs @ ys) = slice off n ys"
  by (simp add: slice_def)

lemma slice_overwrite_same:
  "off + length bs \<le> length buf \<Longrightarrow> slice off (length bs) (overwrite buf off bs) = bs"
  by (simp add: slice_def overwrite_def)

lemma nth_overwrite:
  "off + length bs \<le> length buf \<Longrightarrow> i < length buf \<Longrightarrow>
   overwrite buf off bs ! i = (if off \<le> i \<and> i < off + length bs then bs ! (i - off) else buf ! i)"
  by (auto simp: overwrite_def nth_append)

lemma slice_overwrite_disjoint:
  assumes "off + length bs \<le> length buf" and "o2 + n \<le> length buf"
    and "o2 + n \<le> off \<or> off + length bs \<le> o2"
  shows "slice o2 n (overwrite buf off bs) = slice o2 n buf"
  using assms by (auto intro!: nth_equalityI simp: slice_def nth_overwrite)

section \<open>Hash tables\<close>

text \<open>
  The interface of a keyed table, as the catalog, the coherence directory and the page cache offer
  it to their clients: what a lookup returns after an insertion and after a removal.
\<close>

locale kv_table =
  fixes look :: "'t \<Rightarrow> 'k \<Rightarrow> 'v option"
    and put :: "'k \<Rightarrow> 'v \<Rightarrow> 't \<Rightarrow> 't"
    and del :: "'k \<Rightarrow> 't \<Rightarrow> 't"
  assumes look_put: "look (put k v t) k' = (if k' = k then Some v else look t k')"
    and look_del: "look (del k t) k' = (if k' = k then None else look t k')"
begin

lemma look_put_same: "look (put k v t) k = Some v"
  by (simp add: look_put)

lemma look_del_put: "look (del k (put k v t)) k' = look (del k t) k'"
  by (simp add: look_put look_del)

text \<open>A batch of insertions: the last one of each key wins, other keys keep their entry.\<close>

lemma look_puts:
  "look (fold (\<lambda>(k, v). put k v) kvs t) k =
     (case map_of (rev kvs) k of Some v \<Rightarrow> Some v | None \<Rightarrow> look t k)"
  by (induction kvs arbitrary: t) (auto simp: look_put map_add_def split: option.splits)

lemma look_puts_indexed:
  assumes "inj_on key (set is)" and "distinct is"
  shows "look (fold (\<lambda>i. put (key i) (val i)) is t) k =
     (if k \<in> key ` set is then Some (val (the_inv_into (set is) key k)) else look t k)"
  using assms
proof (induction "is" arbitrary: t rule: rev_induct)
  case (snoc i xs)
  have inj: "inj_on key (set xs)" using snoc.prems(1) by (simp add: inj_on_def)
  have "the_inv_into (set (xs @ [i])) key (key j) = j" if "j \<in> set (xs @ [i])" for j
    using snoc.prems(1) that by (rule the_inv_into_f_f)
  moreover have "the_inv_into (set xs) key (key j) = j" if "j \<in> set xs" for j
    using inj that by (rule the_inv_into_f_f)
  ultimately show ?case
    using snoc.IH [OF inj, of t] snoc.prems(2) by (auto simp: look_put)
qed simp

end

lemma lookup_delete_if: "Mapping.lookup (Mapping.delete k m) k' = (if k' = k then None else Mapping.lookup m k')"
  by (cases "k' = k") simp_all

interpretation mapping: kv_table Mapping.lookup Mapping.update Mapping.delete
  by unfold_locales (auto simp: lookup_update' lookup_delete_if)

text \<open>
  The sequence in which a range-for loop visits an \<open>unordered_map\<close> is any enumeration of its
  entries without repetition.
\<close>

definition enumerates :: "('k \<times> 'v) list \<Rightarrow> ('k, 'v) mapping \<Rightarrow> bool" where
  "enumerates es m \<longleftrightarrow> distinct (map fst es) \<and> m = Mapping.of_alist es"

lemma enumerates_lookup: "enumerates es m \<Longrightarrow> Mapping.lookup m k = map_of es k"
  by (simp add: enumerates_def lookup_of_alist)

lemma enumerates_distinct: "enumerates es m \<Longrightarrow> distinct (map fst es)"
  by (simp add: enumerates_def)

lemma enumerates_keys: "enumerates es m \<Longrightarrow> fst ` set es = Mapping.keys m"
  by (auto simp: enumerates_def keys_of_alist)

section \<open>Multisets of list elements\<close>

lemma distinct_submset:
  assumes "mset ys \<subseteq># mset xs" and "distinct xs"
  shows "distinct ys"
proof (rule ccontr)
  assume "\<not> distinct ys"
  then obtain as bs cs y where "ys = as @ [y] @ bs @ [y] @ cs" using not_distinct_decomp by blast
  then have "2 \<le> count (mset ys) y" by simp
  also have "\<dots> \<le> count (mset xs) y" using assms(1) by (simp add: mset_subset_eq_count)
  also have "\<dots> \<le> 1" using assms(2) by (simp add: distinct_count_atmost_1)
  finally show False by simp
qed

section \<open>Fallible steps without state\<close>

text \<open>A loop over a list that stops at the first error.\<close>

fun map_res :: "('a \<Rightarrow> 'e + 'b) \<Rightarrow> 'a list \<Rightarrow> 'e + 'b list" where
  "map_res f [] = Inr []"
| "map_res f (x # xs) =
     (case f x of Inl e \<Rightarrow> Inl e | Inr y \<Rightarrow> (case map_res f xs of Inl e \<Rightarrow> Inl e | Inr ys \<Rightarrow> Inr (y # ys)))"

lemma map_res_ok: "(\<And>x. x \<in> set xs \<Longrightarrow> f x = Inr (g x)) \<Longrightarrow> map_res f xs = Inr (map g xs)"
  by (induction xs) auto

section \<open>Slices of equal size\<close>

lemma div_eq_iff_interval:
  fixes i d c :: nat
  assumes "0 < d"
  shows "i div d = c \<longleftrightarrow> c * d \<le> i \<and> i < c * d + d"
proof -
  have "c \<le> i div d \<longleftrightarrow> c * d \<le> i" and "i div d < Suc c \<longleftrightarrow> i < Suc c * d"
    using assms by (simp_all only: less_eq_div_iff_mult_less_eq div_less_iff_less_mult)
  then show ?thesis by auto
qed

lemma length_concat_equal: "(\<And>p. p < w \<Longrightarrow> length (xs p) = c) \<Longrightarrow> length (concat (map xs [0..<w])) = c * w"
  by (induction w) auto

lemma nth_concat_equal:
  "(\<And>p. p < w \<Longrightarrow> length (xs p) = c) \<Longrightarrow> i < c * w \<Longrightarrow>
   concat (map xs [0..<w]) ! i = xs (i div c) ! (i mod c)"
proof (induction w)
  case (Suc w)
  then have c: "0 < c" by (cases c) auto
  have len: "length (concat (map xs [0..<w])) = c * w"
    using Suc.prems(1) by (intro length_concat_equal) simp
  show ?case
  proof (cases "i < c * w")
    case True
    then show ?thesis using Suc len by (simp add: nth_append)
  next
    case False
    then have "i div c = w" using Suc.prems(2) c by (simp add: div_eq_iff_interval mult.commute)
    then have "i - c * w = i mod c" by (metis minus_mult_div_eq_mod)
    then show ?thesis using False len \<open>i div c = w\<close> by (simp add: nth_append)
  qed
qed simp

section \<open>Decimal numbers as text\<close>

text \<open>\<open>std::to_string\<close> and the digit loop of \<open>strtoull\<close> and \<open>atoi\<close>.\<close>

definition is_digit :: "char \<Rightarrow> bool" where
  "is_digit c \<longleftrightarrow> 48 \<le> (of_char c :: nat) \<and> (of_char c :: nat) \<le> 57"

definition is_space :: "char \<Rightarrow> bool" where
  "is_space c \<longleftrightarrow> (of_char c :: nat) = 32 \<or> 9 \<le> (of_char c :: nat) \<and> (of_char c :: nat) \<le> 13"

definition dec_value :: "string \<Rightarrow> nat" where
  "dec_value cs = foldl (\<lambda>v c. 10 * v + (of_char c - 48)) 0 cs"

fun to_string :: "nat \<Rightarrow> string" where
  "to_string n = (if n < 10 then [char_of (48 + n)] else to_string (n div 10) @ [char_of (48 + n mod 10)])"

declare to_string.simps [simp del]

lemma of_char_digit: "d < 10 \<Longrightarrow> of_char (char_of (48 + d) :: char) = (48 + d :: nat)"
  by (simp add: of_char_of)

lemma dec_value_to_string [simp]: "dec_value (to_string n) = n"
proof (induction n rule: to_string.induct)
  case (1 n)
  show ?case
  proof (cases "n < 10")
    case True
    then show ?thesis by (simp add: to_string.simps dec_value_def of_char_digit)
  next
    case False
    then have "dec_value (to_string n) = 10 * dec_value (to_string (n div 10)) + n mod 10"
      by (subst to_string.simps) (simp add: dec_value_def of_char_digit)
    with 1 False show ?thesis by simp
  qed
qed

lemma to_string_digits: "\<forall>c \<in> set (to_string n). is_digit c"
proof (induction n rule: to_string.induct)
  case (1 n)
  then show ?case by (subst to_string.simps) (auto simp: is_digit_def of_char_digit)
qed

lemma to_string_not_empty [simp]: "to_string n \<noteq> []"
  by (subst to_string.simps) simp

lemma to_string_0: "to_string 0 = ''0''"
  by (simp add: to_string.simps char_of_eq_iff)

lemma to_string_inject [simp]: "to_string m = to_string n \<longleftrightarrow> m = n"
  by (metis dec_value_to_string)

lemma not_digit_in_to_string: "\<not> is_digit c \<Longrightarrow> c \<notin> set (to_string n)"
  using to_string_digits by blast

lemma takeWhile_to_string: "rest = [] \<or> \<not> is_digit (hd rest) \<Longrightarrow> takeWhile is_digit (to_string n @ rest) = to_string n"
  using to_string_digits [of n] by (cases rest) (auto simp: takeWhile_append2 takeWhile_tail)

text \<open>A loop whose body may throw: what the iterations before the first exception produced, and the exception.\<close>

lemma digit_facts: "\<not> is_digit CHR '':''" "is_digit c \<Longrightarrow> \<not> is_space c"
  "is_digit c \<Longrightarrow> c \<noteq> CHR ''-''" "is_digit c \<Longrightarrow> c \<noteq> CHR ''+''"
  by (auto simp: is_digit_def is_space_def)

lemma to_string_scan:
  "dropWhile is_space (to_string n) = to_string n" "takeWhile is_digit (to_string n) = to_string n"
  "hd (to_string n) \<noteq> CHR ''-''" "hd (to_string n) \<noteq> CHR ''+''"
proof -
  have hd: "is_digit (hd (to_string n))" using to_string_digits [of n] by (simp add: list.set_sel(1))
  then show "dropWhile is_space (to_string n) = to_string n" using digit_facts(2) [OF hd] by (simp add: dropWhile_eq_self_iff)
  show "takeWhile is_digit (to_string n) = to_string n" using takeWhile_to_string [of "[]" n] by simp
  show "hd (to_string n) \<noteq> CHR ''-''" "hd (to_string n) \<noteq> CHR ''+''" using digit_facts(3,4) [OF hd] by blast+
qed

fun until_error :: "('a \<Rightarrow> 'e + 'b) \<Rightarrow> 'a list \<Rightarrow> 'b list \<times> 'e option" where
  "until_error f [] = ([], None)"
| "until_error f (x # xs) =
     (case f x of Inl e \<Rightarrow> ([], Some e)
      | Inr b \<Rightarrow> (case until_error f xs of (bs, e) \<Rightarrow> (b # bs, e)))"

lemma until_error_ok: "\<forall>x \<in> set xs. f x = Inr (g x) \<Longrightarrow> until_error f xs = (map g xs, None)"
  by (induction xs) simp_all

lemma until_error_map: "until_error f (map g xs) = until_error (\<lambda>x. f (g x)) xs"
  by (induction xs) (auto split: sum.split)

end
