(* ===== verification/Errors.thy ===== *)
theory Errors
  imports Prelude
begin

text \<open>
  The exception classes of \<open>csrc/common/Errors.hpp\<close>, the \<open>DISTRO_CHECK\<close> macros, and the tensor
  argument checks of \<open>csrc/common/TensorChecks.hpp\<close>. The message of a failed check starts, in the
  code, with the stringified condition and the file position; the model keeps the explanatory
  text that follows.
\<close>

section \<open>Exceptions\<close>

datatype mccl_error =
    MCCLError string
  | TransportError string
  | MetalError string
  | TensorError string
  | TimeoutError string
  | ProtocolError string

fun what :: "mccl_error \<Rightarrow> string" where
  "what (MCCLError m) = ''[MCCL] '' @ m"
| "what (TransportError m) = ''[MCCL] '' @ ''Transport: '' @ m"
| "what (MetalError m) = ''[MCCL] '' @ ''Metal: '' @ m"
| "what (TensorError m) = ''[MCCL] '' @ ''Tensor: '' @ m"
| "what (TimeoutError m) = ''[MCCL] '' @ ''Timeout: '' @ m"
| "what (ProtocolError m) = ''[MCCL] '' @ ''Protocol: '' @ m"

text \<open>
  How a call can fail to return normally: a thrown exception, a self-deadlock on a non-recursive
  mutex, or an access the language leaves undefined.
\<close>

datatype failure = Thrown mccl_error | Deadlock | Undefined

definition distro_check :: "bool \<Rightarrow> string \<Rightarrow> 's \<Rightarrow> (failure, 's, unit) res" where
  "distro_check cond extra s = (if cond then (Inr (), s) else (Inl (Thrown (MCCLError extra)), s))"

definition distro_check_tensor :: "bool \<Rightarrow> string \<Rightarrow> mccl_error + unit" where
  "distro_check_tensor cond extra = (if cond then Inr () else Inl (TensorError extra))"

declare distro_check_def [monad_simps]

section \<open>Tensor argument checks\<close>

datatype device = MPS | CPU | OtherDevice string

datatype scalar_type =
    kFloat | kHalf | kBFloat16 | kDouble | kLong | kInt | kShort | kChar | kByte | kBool
  | OtherDtype string

text \<open>What the checks read of an \<open>at::Tensor\<close>.\<close>

record tensor_meta =
  device :: device
  is_contiguous :: bool
  dtype :: scalar_type
  sizes :: "nat list"
  element_size :: nat

definition tensor_numel :: "tensor_meta \<Rightarrow> nat" where
  "tensor_numel t = prod_list (sizes t)"

definition supported_dtype :: "scalar_type \<Rightarrow> bool" where
  "supported_dtype d \<longleftrightarrow> d \<in> {kFloat, kHalf, kBFloat16, kDouble, kLong, kInt, kShort, kChar, kByte, kBool}"

definition check_single_tensor :: "tensor_meta \<Rightarrow> mccl_error + unit" where
  "check_single_tensor t =
     (case distro_check_tensor (device t = MPS \<or> device t = CPU) ''MCCL requires MPS or CPU tensors'' of
        Inl e \<Rightarrow> Inl e | Inr _ \<Rightarrow>
     (case distro_check_tensor (is_contiguous t) ''MCCL v1 requires contiguous tensors.'' of
        Inl e \<Rightarrow> Inl e | Inr _ \<Rightarrow>
     (case distro_check_tensor (supported_dtype (dtype t)) ''MCCL: unsupported dtype'' of
        Inl e \<Rightarrow> Inl e | Inr _ \<Rightarrow>
      distro_check_tensor (tensor_numel t > 0) ''MCCL does not accept empty tensors'')))"

definition check_tensor_list :: "tensor_meta list \<Rightarrow> mccl_error + unit" where
  "check_tensor_list ts =
     (case ts of
        [t] \<Rightarrow> check_single_tensor t
      | _ \<Rightarrow> Inl (TensorError ''MCCL collectives expect exactly one tensor per rank per call''))"

definition check_same_shape_dtype :: "tensor_meta \<Rightarrow> tensor_meta \<Rightarrow> mccl_error + unit" where
  "check_same_shape_dtype a b =
     (case distro_check_tensor (sizes a = sizes b) ''Shape mismatch in collective'' of
        Inl e \<Rightarrow> Inl e | Inr _ \<Rightarrow>
      distro_check_tensor (dtype a = dtype b) ''Dtype mismatch in collective'')"

definition tensor_nbytes :: "tensor_meta \<Rightarrow> nat" where
  "tensor_nbytes t = tensor_numel t * element_size t"

lemma check_single_tensor_ok:
  "check_single_tensor t = Inr () \<longleftrightarrow>
     (device t = MPS \<or> device t = CPU) \<and> is_contiguous t \<and> supported_dtype (dtype t) \<and> 0 < tensor_numel t"
  by (auto simp: check_single_tensor_def distro_check_tensor_def split: if_splits)

lemma check_same_shape_dtype_ok:
  "check_same_shape_dtype a b = Inr () \<longleftrightarrow> sizes a = sizes b \<and> dtype a = dtype b"
  by (auto simp: check_same_shape_dtype_def distro_check_tensor_def split: if_splits)

text \<open>Tensors that pass the pairwise check and have equal element widths occupy equally many bytes.\<close>

lemma same_shape_same_nbytes:
  "check_same_shape_dtype a b = Inr () \<Longrightarrow> element_size a = element_size b \<Longrightarrow>
   tensor_nbytes a = tensor_nbytes b"
  by (simp add: check_same_shape_dtype_ok tensor_nbytes_def tensor_numel_def)

end
