(* ===== verification/Rounds.thy ===== *)
theory Rounds
  imports Errors
begin

text \<open>
  Message-passing programs of the collectives. A rank's collective is a list of rounds. In a round
  the rank hands slices of its tensor to the mesh (\<open>PeerMesh::send\<close>, on helper threads) and
  receives one message from each of some peers (\<open>PeerMesh::recv\<close>), which it then reduces into, or
  stores into, its tensor; the helper threads are joined before the tensor is changed or the next
  round begins. Buffers are sequences of elements: a byte offset of the code is an element
  offset times the element size.

  Two semantics are given. \<open>sync\<close> computes what each rank holds after each round. The step relation
  \<open>mesh_step\<close> is the distributed execution: ranks proceed independently, and what a rank has sent
  waits in one stream per ordered pair of ranks (a TCP connection), without message boundaries: a
  receive takes as many elements as it asks for, and none at all when it asks for none. A send completes by itself; \<open>Bounded_Mesh\<close> has
  the execution over sockets of bounded size. The locale \<open>round_protocol\<close> shows, for
  every program whose sends and receives match, that the distributed execution never deadlocks,
  ends after a fixed number of steps and computes \<open>sync\<close>, whatever the interleaving.
\<close>

datatype recv_act = ReduceInto nat nat | StoreAt nat nat

fun act_len :: "recv_act \<Rightarrow> nat" where
  "act_len (ReduceInto off len) = len"
| "act_len (StoreAt off len) = len"

fun act_off :: "recv_act \<Rightarrow> nat" where
  "act_off (ReduceInto off len) = off"
| "act_off (StoreAt off len) = off"

text \<open>A send is a destination with the offset and length of a tensor slice.\<close>

record round =
  sends :: "(nat \<times> nat \<times> nat) list"
  recvs :: "(nat \<times> recv_act) list"

definition idle :: round where
  "idle = \<lparr>sends = [], recvs = []\<rparr>"

text \<open>The Metal reduce kernel combines \<open>len\<close> elements in place; a store overwrites them.\<close>

fun apply_recv :: "('a \<Rightarrow> 'a \<Rightarrow> 'a) \<Rightarrow> recv_act \<Rightarrow> 'a list \<Rightarrow> 'a list \<Rightarrow> 'a list" where
  "apply_recv f (ReduceInto off len) msg t = overwrite t off (map2 f (slice off len t) msg)"
| "apply_recv f (StoreAt off len) msg t = overwrite t off msg"

definition message :: "round \<Rightarrow> nat \<Rightarrow> 'a list \<Rightarrow> 'a list" where
  "message rd dst t = (case map_of (sends rd) dst of Some (off, len) \<Rightarrow> slice off len t | None \<Rightarrow> [])"

fun sync :: "('a \<Rightarrow> 'a \<Rightarrow> 'a) \<Rightarrow> (nat \<Rightarrow> round list) \<Rightarrow> (nat \<Rightarrow> 'a list) \<Rightarrow> nat \<Rightarrow> nat \<Rightarrow> 'a list" where
  "sync f P init 0 r = init r"
| "sync f P init (Suc k) r =
     fold (\<lambda>(src, act). apply_recv f act (message (P src ! k) r (sync f P init k src)))
       (recvs (P r ! k)) (sync f P init k r)"

section \<open>Distributed execution\<close>

record 'a conf =
  pc :: "nat \<Rightarrow> nat"
  sent :: "nat \<Rightarrow> bool"
  buf :: "nat \<Rightarrow> 'a list"
  chan :: "nat \<Rightarrow> nat \<Rightarrow> 'a list"

definition init_conf :: "(nat \<Rightarrow> 'a list) \<Rightarrow> 'a conf" where
  "init_conf init = \<lparr>pc = (\<lambda>_. 0), sent = (\<lambda>_. False), buf = init, chan = (\<lambda>_ _. [])\<rparr>"

text \<open>How many elements a round sends to, or receives from, a rank.\<close>

definition send_len :: "round \<Rightarrow> nat \<Rightarrow> nat" where
  "send_len rd q = (case map_of (sends rd) q of Some (off, len) \<Rightarrow> len | None \<Rightarrow> 0)"

definition recv_len :: "round \<Rightarrow> nat \<Rightarrow> nat" where
  "recv_len rd q = (case map_of (recvs rd) q of Some act \<Rightarrow> act_len act | None \<Rightarrow> 0)"

definition after_send :: "round \<Rightarrow> nat \<Rightarrow> 'a conf \<Rightarrow> 'a conf" where
  "after_send rd r c =
     c\<lparr>sent := (sent c)(r := True),
       chan := (chan c)(r := (\<lambda>b. chan c r b @ message rd b (buf c r)))\<rparr>"

definition after_recv :: "('a \<Rightarrow> 'a \<Rightarrow> 'a) \<Rightarrow> round \<Rightarrow> nat \<Rightarrow> 'a conf \<Rightarrow> 'a conf" where
  "after_recv f rd r c =
     c\<lparr>pc := (pc c)(r := Suc (pc c r)), sent := (sent c)(r := False),
       buf := (buf c)(r := fold (\<lambda>(src, act). apply_recv f act (take (act_len act) (chan c src r)))
                             (recvs rd) (buf c r)),
       chan := (\<lambda>a b. if b = r then drop (recv_len rd a) (chan c a r) else chan c a b)\<rparr>"

inductive mesh_step :: "('a \<Rightarrow> 'a \<Rightarrow> 'a) \<Rightarrow> (nat \<Rightarrow> round list) \<Rightarrow> nat \<Rightarrow> 'a conf \<Rightarrow> 'a conf \<Rightarrow> bool"
  for f P world where
  send_step:
    "r < world \<Longrightarrow> pc c r < length (P r) \<Longrightarrow> \<not> sent c r \<Longrightarrow>
     mesh_step f P world c (after_send (P r ! pc c r) r c)"
| recv_step:
    "r < world \<Longrightarrow> pc c r < length (P r) \<Longrightarrow> sent c r \<Longrightarrow>
     (\<forall>(src, act) \<in> set (recvs (P r ! pc c r)). act_len act \<le> length (chan c src r)) \<Longrightarrow>
     mesh_step f P world c (after_recv f (P r ! pc c r) r c)"

inductive mesh_run :: "('a \<Rightarrow> 'a \<Rightarrow> 'a) \<Rightarrow> (nat \<Rightarrow> round list) \<Rightarrow> nat \<Rightarrow> nat \<Rightarrow> 'a conf \<Rightarrow> 'a conf \<Rightarrow> bool"
  for f P world where
  run_refl: "mesh_run f P world 0 c c"
| run_step: "mesh_run f P world n c c' \<Longrightarrow> mesh_step f P world c' c'' \<Longrightarrow> mesh_run f P world (Suc n) c c''"

section \<open>Matching sends and receives\<close>

definition wf_round :: "nat \<Rightarrow> nat \<Rightarrow> round \<Rightarrow> bool" where
  "wf_round world n rd \<longleftrightarrow>
     distinct (map fst (recvs rd)) \<and>
     (\<forall>(d, off, len) \<in> set (sends rd). off + len \<le> n) \<and>
     (\<forall>(s, act) \<in> set (recvs rd). s < world \<and> act_off act + act_len act \<le> n)"

text \<open>Within a round, a send from \<open>r\<close> to \<open>q\<close> faces a receive of \<open>q\<close> from \<open>r\<close> of the same length.\<close>

definition matched :: "nat \<Rightarrow> nat \<Rightarrow> (nat \<Rightarrow> nat) \<Rightarrow> (nat \<Rightarrow> round list) \<Rightarrow> bool" where
  "matched world N n P \<longleftrightarrow>
     (\<forall>r < world. length (P r) = N) \<and>
     (\<forall>k < N. \<forall>r < world. wf_round world (n r) (P r ! k) \<and>
        (\<forall>q < world. send_len (P r ! k) q = recv_len (P q ! k) r))"

lemma length_apply_recv:
  "act_off act + act_len act \<le> length t \<Longrightarrow> length msg = act_len act \<Longrightarrow>
   length (apply_recv f act msg t) = length t"
  by (cases act) (auto simp: length_slice)

lemma length_fold_apply_recv:
  assumes "\<And>src act. (src, act) \<in> set xs \<Longrightarrow> act_off act + act_len act \<le> length t \<and> length (m src) = act_len act"
  shows "length (fold (\<lambda>(src, act). apply_recv f act (m src)) xs t) = length t"
  using assms
proof (induction xs arbitrary: t)
  case (Cons x xs)
  obtain s a where x: "x = (s, a)" by (cases x)
  have "length (apply_recv f a (m s) t) = length t"
    using Cons.prems [of s a] x by (intro length_apply_recv) auto
  then show ?case using Cons.IH [of "apply_recv f a (m s) t"] Cons.prems x by auto
qed simp

lemma length_message:
  assumes "wf_round world n rd" and "length t = n"
  shows "length (message rd q t) = send_len rd q"
proof (cases "map_of (sends rd) q")
  case (Some ol)
  obtain off len where ol: "ol = (off, len)" by (cases ol)
  with Some have "(q, off, len) \<in> set (sends rd)" by (simp add: map_of_SomeD)
  with assms have "off + len \<le> length t" by (auto simp: wf_round_def)
  with Some ol show ?thesis by (simp add: message_def send_len_def length_slice)
qed (simp add: message_def send_len_def)

lemma recv_len_entry:
  "wf_round world n rd \<Longrightarrow> (s, act) \<in> set (recvs rd) \<Longrightarrow> recv_len rd s = act_len act"
  by (simp add: wf_round_def recv_len_def)

section \<open>The invariant of the distributed execution\<close>

definition sent_count :: "'a conf \<Rightarrow> nat \<Rightarrow> nat" where
  "sent_count c r = pc c r + (if sent c r then 1 else 0)"

text \<open>
  Rank \<open>r\<close> holds the synchronous state of the round it is in, and the stream from \<open>r\<close> to \<open>q\<close>
  holds, in order, the messages of the rounds that \<open>r\<close> has sent and \<open>q\<close> has not yet completed. A
  receiver is ahead of a sender only over rounds in which nothing is exchanged between them.
\<close>

definition msg_at :: "('a \<Rightarrow> 'a \<Rightarrow> 'a) \<Rightarrow> (nat \<Rightarrow> round list) \<Rightarrow> (nat \<Rightarrow> 'a list) \<Rightarrow> nat \<Rightarrow> nat \<Rightarrow> nat \<Rightarrow> 'a list" where
  "msg_at f P init r q k = message (P r ! k) q (sync f P init k r)"

definition rank_inv :: "('a \<Rightarrow> 'a \<Rightarrow> 'a) \<Rightarrow> (nat \<Rightarrow> round list) \<Rightarrow> (nat \<Rightarrow> 'a list) \<Rightarrow> nat \<Rightarrow> 'a conf \<Rightarrow> nat \<Rightarrow> bool" where
  "rank_inv f P init N c r \<longleftrightarrow> sent_count c r \<le> N \<and> buf c r = sync f P init (pc c r) r"

definition chan_inv :: "('a \<Rightarrow> 'a \<Rightarrow> 'a) \<Rightarrow> (nat \<Rightarrow> round list) \<Rightarrow> (nat \<Rightarrow> 'a list) \<Rightarrow> 'a conf \<Rightarrow> nat \<Rightarrow> nat \<Rightarrow> bool" where
  "chan_inv f P init c r q \<longleftrightarrow>
     (\<forall>k \<in> {sent_count c r..<pc c q}. msg_at f P init r q k = []) \<and>
     chan c r q = concat (map (msg_at f P init r q) [pc c q..<sent_count c r])"

definition mesh_inv :: "('a \<Rightarrow> 'a \<Rightarrow> 'a) \<Rightarrow> (nat \<Rightarrow> round list) \<Rightarrow> (nat \<Rightarrow> 'a list) \<Rightarrow> nat \<Rightarrow> nat \<Rightarrow> 'a conf \<Rightarrow> bool" where
  "mesh_inv f P init world N c \<longleftrightarrow>
     (\<forall>r < world. rank_inv f P init N c r) \<and> (\<forall>r < world. \<forall>q < world. chan_inv f P init c r q)"

lemma mesh_inv_init: "mesh_inv f P init world N (init_conf init)"
  by (simp add: mesh_inv_def rank_inv_def chan_inv_def init_conf_def sent_count_def)

lemma chan_inv_send:
  assumes "chan_inv f P init c r q"
  shows "chan c r q @ msg_at f P init r q (sent_count c r) =
         concat (map (msg_at f P init r q) [pc c q..<Suc (sent_count c r)])"
  using assms by (cases "pc c q \<le> sent_count c r") (auto simp: chan_inv_def)

text \<open>When enough elements have arrived, they start with the message of the current round.\<close>

lemma chan_inv_recv:
  assumes "chan_inv f P init c a r" and "length (msg_at f P init a r (pc c r)) \<le> length (chan c a r)"
  shows "\<exists>rest. chan c a r = msg_at f P init a r (pc c r) @ rest \<and>
           rest = concat (map (msg_at f P init a r) [Suc (pc c r)..<sent_count c a])"
  using assms by (cases "pc c r < sent_count c a") (auto simp: chan_inv_def upt_conv_Cons)

text \<open>The number of half-rounds (send, receive) that have been done.\<close>

definition work_done :: "nat \<Rightarrow> 'a conf \<Rightarrow> nat" where
  "work_done world c = (\<Sum>r < world. 2 * pc c r + (if sent c r then 1 else 0))"

lemma sum_update_one:
  assumes "r < (world :: nat)" and "g' r = Suc (g r)" and "\<And>a. a \<noteq> r \<Longrightarrow> g' a = g a"
  shows "(\<Sum>a < world. g' a) = Suc (\<Sum>a < world. g a :: nat)"
proof -
  have "(\<Sum>a < world. h a) = h r + (\<Sum>a \<in> {..<world} - {r}. h a)" for h :: "nat \<Rightarrow> nat"
    using assms(1) by (simp add: sum.remove)
  moreover have "(\<Sum>a \<in> {..<world} - {r}. g' a) = (\<Sum>a \<in> {..<world} - {r}. g a)"
    using assms(3) by (intro sum.cong) auto
  ultimately show ?thesis using assms(2) by simp
qed

lemma step_work: "mesh_step f P world c c' \<Longrightarrow> work_done world c' = Suc (work_done world c)"
  unfolding work_done_def
  by (cases rule: mesh_step.cases, assumption)
    (auto intro!: sum_update_one simp: after_send_def after_recv_def)

lemma run_work: "mesh_run f P world m c c' \<Longrightarrow> work_done world c' = work_done world c + m"
  by (induction rule: mesh_run.induct) (simp_all add: step_work)

lemma work_done_init: "work_done world (init_conf init) = 0"
  by (simp add: work_done_def init_conf_def)

text \<open>
  What it means for the ranks together to compute \<open>result\<close>: whatever the scheduler does, a run is
  never longer than \<open>world * (2 * N)\<close> steps, a shorter run can be continued, and after that many
  steps every rank has finished, with its result in its buffer.
\<close>

definition mesh_computes ::
  "('a \<Rightarrow> 'a \<Rightarrow> 'a) \<Rightarrow> (nat \<Rightarrow> round list) \<Rightarrow> nat \<Rightarrow> nat \<Rightarrow> (nat \<Rightarrow> 'a list) \<Rightarrow> (nat \<Rightarrow> 'a list) \<Rightarrow> bool" where
  "mesh_computes f P world N init result \<longleftrightarrow>
     (\<forall>m c. mesh_run f P world m (init_conf init) c \<longrightarrow>
        m \<le> world * (2 * N) \<and>
        (m < world * (2 * N) \<longrightarrow> (\<exists>c'. mesh_step f P world c c')) \<and>
        (m = world * (2 * N) \<longrightarrow> (\<forall>r < world. pc c r = N \<and> buf c r = result r)))"

locale round_protocol =
  fixes P :: "nat \<Rightarrow> round list" and world N :: nat and n :: "nat \<Rightarrow> nat"
  assumes matched: "matched world N n P"
begin

lemma length_P: "r < world \<Longrightarrow> length (P r) = N"
  using matched by (simp add: matched_def)

lemma wf: "k < N \<Longrightarrow> r < world \<Longrightarrow> wf_round world (n r) (P r ! k)"
  using matched by (simp add: matched_def)

lemma send_len_recv_len:
  "k < N \<Longrightarrow> r < world \<Longrightarrow> q < world \<Longrightarrow> send_len (P r ! k) q = recv_len (P q ! k) r"
  using matched by (simp add: matched_def)

lemma source_bound: "k < N \<Longrightarrow> q < world \<Longrightarrow> (s, act) \<in> set (recvs (P q ! k)) \<Longrightarrow>
   s < world \<and> act_off act + act_len act \<le> n q"
  using wf [of k q] by (auto simp: wf_round_def)

lemma message_length:
  assumes "k < N" and "r < world" and "q < world" and "(r, act) \<in> set (recvs (P q ! k))" and "length t = n r"
  shows "length (message (P r ! k) q t) = act_len act"
  using length_message [OF wf [OF assms(1,2)] assms(5), of q] recv_len_entry [OF wf [OF assms(1,3)] assms(4)]
    send_len_recv_len [OF assms(1-3)] by simp

lemma length_sync:
  assumes init: "\<forall>r < world. length (init r) = n r"
  shows "k \<le> N \<Longrightarrow> r < world \<Longrightarrow> length (sync f P init k r) = n r"
proof (induction k arbitrary: r)
  case 0
  then show ?case using init by simp
next
  case (Suc k)
  have "length (fold (\<lambda>(src, act). apply_recv f act (message (P src ! k) r (sync f P init k src)))
          (recvs (P r ! k)) (sync f P init k r)) = length (sync f P init k r)"
  proof (rule length_fold_apply_recv)
    fix src act assume recv: "(src, act) \<in> set (recvs (P r ! k))"
    then have "src < world" "act_off act + act_len act \<le> n r"
      using source_bound [of k r] Suc.prems by auto
    then show "act_off act + act_len act \<le> length (sync f P init k r) \<and>
        length (message (P src ! k) r (sync f P init k src)) = act_len act"
      using Suc.prems Suc.IH [of r] Suc.IH [of src]
        message_length [OF _ _ _ recv, of "sync f P init k src"] by simp
  qed
  then show ?case using Suc by simp
qed

lemma length_msg_at:
  assumes "\<forall>r < world. length (init r) = n r" and "k < N" and "a < world" and "r < world"
  shows "length (msg_at f P init a r k) = recv_len (P r ! k) a"
  using length_message [OF wf [OF assms(2,3)] length_sync [OF assms(1), of k a], of r f] assms
    send_len_recv_len [OF assms(2-4)]
  by (simp add: msg_at_def)

lemma inv_send:
  assumes inv: "mesh_inv f P init world N c" and r: "r < world"
    and pc: "pc c r < N" and ns: "\<not> sent c r"
  shows "mesh_inv f P init world N (after_send (P r ! pc c r) r c)" (is "mesh_inv f P init world N ?c'")
proof -
  have cnt: "sent_count ?c' a = (if a = r then Suc (sent_count c a) else sent_count c a)" for a
    using ns by (simp add: after_send_def sent_count_def)
  have sc: "sent_count c r = pc c r" using ns by (simp add: sent_count_def)
  have buf: "buf c r = sync f P init (pc c r) r" using inv r by (simp add: mesh_inv_def rank_inv_def)
  have "rank_inv f P init N ?c' a" if "a < world" for a
    using inv that pc sc by (auto simp: mesh_inv_def rank_inv_def cnt) (simp_all add: after_send_def)
  moreover have "chan_inv f P init ?c' a b" if a: "a < world" and b: "b < world" for a b
  proof -
    have ab: "chan_inv f P init c a b" using inv a b by (simp add: mesh_inv_def)
    have pcs: "pc ?c' = pc c" by (simp add: after_send_def)
    show ?thesis
    proof (cases "a = r")
      case True
      then have "chan ?c' a b = chan c r b @ msg_at f P init r b (sent_count c r)"
        by (simp add: after_send_def msg_at_def buf sc)
      with True ab show ?thesis
        using chan_inv_send [of f P init c r b] by (auto simp: chan_inv_def cnt pcs)
    next
      case False
      with ab show ?thesis by (simp add: chan_inv_def cnt pcs) (simp add: after_send_def)
    qed
  qed
  ultimately show ?thesis by (simp add: mesh_inv_def)
qed

lemma recv_heads:
  assumes inv: "mesh_inv f P init world N c" and lens: "\<forall>r < world. length (init r) = n r"
    and r: "r < world" and pc: "pc c r < N" and a: "a < world"
    and ready: "recv_len (P r ! pc c r) a \<le> length (chan c a r)"
  shows "take (recv_len (P r ! pc c r) a) (chan c a r) = msg_at f P init a r (pc c r)"
    and "drop (recv_len (P r ! pc c r) a) (chan c a r) =
         concat (map (msg_at f P init a r) [Suc (pc c r)..<sent_count c a])"
proof -
  have "chan_inv f P init c a r" using inv a r by (simp add: mesh_inv_def)
  moreover have len: "length (msg_at f P init a r (pc c r)) = recv_len (P r ! pc c r) a"
    by (rule length_msg_at [OF lens pc a r])
  ultimately obtain rest where "chan c a r = msg_at f P init a r (pc c r) @ rest"
      "rest = concat (map (msg_at f P init a r) [Suc (pc c r)..<sent_count c a])"
    using chan_inv_recv [of f P init c a r] ready by auto
  then show "take (recv_len (P r ! pc c r) a) (chan c a r) = msg_at f P init a r (pc c r)"
    "drop (recv_len (P r ! pc c r) a) (chan c a r) =
     concat (map (msg_at f P init a r) [Suc (pc c r)..<sent_count c a])"
    using len by simp_all
qed

lemma ready_all:
  assumes r: "r < world" and pc: "pc c r < N"
    and ready: "\<forall>(src, act) \<in> set (recvs (P r ! pc c r)). act_len act \<le> length (chan c src r)"
  shows "recv_len (P r ! pc c r) a \<le> length (chan c a r)"
  using ready by (auto simp: recv_len_def split: option.split dest: map_of_SomeD)

lemma inv_recv:
  assumes inv: "mesh_inv f P init world N c" and lens: "\<forall>r < world. length (init r) = n r"
    and r: "r < world" and pc: "pc c r < N" and sent: "sent c r"
    and ready: "\<forall>(src, act) \<in> set (recvs (P r ! pc c r)). act_len act \<le> length (chan c src r)"
  shows "mesh_inv f P init world N (after_recv f (P r ! pc c r) r c)" (is "mesh_inv f P init world N ?c'")
proof -
  note heads = recv_heads [OF inv lens r pc _ ready_all [OF r pc ready]]
  have cnt: "sent_count ?c' a = sent_count c a" for a
    using sent by (simp add: after_recv_def sent_count_def)
  have "fold (\<lambda>(src, act). apply_recv f act (take (act_len act) (chan c src r))) (recvs (P r ! pc c r)) (buf c r) =
        sync f P init (Suc (pc c r)) r"
  proof -
    have "take (act_len act) (chan c src r) = message (P src ! pc c r) r (sync f P init (pc c r) src)"
      if "(src, act) \<in> set (recvs (P r ! pc c r))" for src act
      using heads(1) [of src] source_bound [OF pc r that] recv_len_entry [OF wf [OF pc r] that]
      by (simp add: msg_at_def)
    moreover have "buf c r = sync f P init (pc c r) r"
      using inv r by (simp add: mesh_inv_def rank_inv_def)
    ultimately show ?thesis unfolding sync.simps by (auto intro!: fold_cong)
  qed
  then have buf': "buf ?c' r = sync f P init (Suc (pc c r)) r" by (simp add: after_recv_def)
  have "rank_inv f P init N ?c' a" if "a < world" for a
    using inv that buf'
    by (cases "a = r") (auto simp: mesh_inv_def rank_inv_def cnt, auto simp: after_recv_def)
  moreover have "chan_inv f P init ?c' a b" if a: "a < world" and b: "b < world" for a b
  proof (cases "b = r")
    case True
    have "msg_at f P init a r (pc c r) = []" if "sent_count c a \<le> pc c r"
    proof -
      have "chan c a r = []" using inv a r that by (simp add: mesh_inv_def chan_inv_def)
      with heads(1) [OF a] show ?thesis by simp
    qed
    moreover have "chan_inv f P init c a r" using inv a r by (simp add: mesh_inv_def)
    ultimately show ?thesis
      using True heads(2) [OF a]
      by (auto simp: chan_inv_def cnt less_Suc_eq) (auto simp: after_recv_def less_Suc_eq)
  next
    case False
    have "chan_inv f P init c a b" using inv a b by (simp add: mesh_inv_def)
    with False show ?thesis by (simp add: chan_inv_def cnt) (simp add: after_recv_def)
  qed
  ultimately show ?thesis by (simp add: mesh_inv_def)
qed

lemma step_inv:
  "mesh_step f P world c c' \<Longrightarrow> \<forall>r < world. length (init r) = n r \<Longrightarrow>
   mesh_inv f P init world N c \<Longrightarrow> mesh_inv f P init world N c'"
  by (cases rule: mesh_step.cases, assumption) (auto simp: length_P intro!: inv_send inv_recv)

lemma run_inv:
  "mesh_run f P world m c c' \<Longrightarrow> \<forall>r < world. length (init r) = n r \<Longrightarrow>
   mesh_inv f P init world N c \<Longrightarrow> mesh_inv f P init world N c'"
  by (induction rule: mesh_run.induct) (auto intro: step_inv)

lemma inv_work_rank:
  "mesh_inv f P init world N c \<Longrightarrow> r < world \<Longrightarrow> 2 * pc c r + (if sent c r then 1 else 0) \<le> 2 * N"
  by (auto simp: mesh_inv_def rank_inv_def sent_count_def split: if_splits)

lemma inv_work_bound: "mesh_inv f P init world N c \<Longrightarrow> work_done world c \<le> world * (2 * N)"
  using sum_bounded_above [of "{..<world}" "\<lambda>r. 2 * pc c r + (if sent c r then 1 else 0)" "2 * N"]
  by (simp add: work_done_def inv_work_rank)

lemma channel_ready:
  assumes inv: "mesh_inv f P init world N c" and lens: "\<forall>r < world. length (init r) = n r"
    and r: "r < world" and pc: "pc c r < N" and recv: "(q, act) \<in> set (recvs (P r ! pc c r))"
    and sent: "pc c r < sent_count c q"
  shows "act_len act \<le> length (chan c q r)"
proof -
  have q: "q < world" using source_bound [OF pc r recv] by simp
  have "chan_inv f P init c q r" using inv q r by (simp add: mesh_inv_def)
  then have "length (msg_at f P init q r (pc c r)) \<le> length (chan c q r)"
    using sent by (simp add: chan_inv_def upt_conv_Cons)
  then show ?thesis
    using length_msg_at [OF lens pc q r] recv_len_entry [OF wf [OF pc r] recv] by simp
qed

text \<open>No deadlock: a rank that is furthest behind, or a peer it waits for, can move.\<close>

lemma progress:
  assumes inv: "mesh_inv f P init world N c" and lens: "\<forall>r < world. length (init r) = n r"
    and unfinished: "work_done world c < world * (2 * N)"
  shows "\<exists>c'. mesh_step f P world c c'"
proof -
  have "\<exists>a < world. pc c a < N"
  proof (rule ccontr)
    assume "\<not> ?thesis"
    then have "\<forall>a < world. 2 * N \<le> 2 * pc c a + (if sent c a then 1 else 0)" by auto
    then have "(\<Sum>a < world. 2 * N) \<le> work_done world c"
      unfolding work_done_def by (intro sum_mono) auto
    with unfinished show False by simp
  qed
  then obtain a where a: "a < world" "pc c a < N" by blast
  then obtain r where r: "r < world" and least: "\<forall>q < world. pc c r \<le> pc c q"
    using ex_has_least_nat [of "\<lambda>r. r < world" a "pc c"] by auto
  have pc: "pc c r < N" using least a by fastforce
  have can_send: "\<exists>c'. mesh_step f P world c c'" if "q < world" "pc c q < N" "\<not> sent c q" for q
    using mesh_step.send_step [of q world c P f] that by (auto simp: length_P)
  show ?thesis
  proof (cases "\<forall>(q, act) \<in> set (recvs (P r ! pc c r)). pc c r < sent_count c q")
    case True
    then have "\<forall>(q, act) \<in> set (recvs (P r ! pc c r)). act_len act \<le> length (chan c q r)"
      using channel_ready [OF inv lens r pc] by blast
    then have "sent c r \<Longrightarrow> \<exists>c'. mesh_step f P world c c'"
      using mesh_step.recv_step [of r world c P f] r pc by (auto simp: length_P)
    with can_send r pc show ?thesis by blast
  next
    case False
    then obtain q act where q: "(q, act) \<in> set (recvs (P r ! pc c r))" "sent_count c q \<le> pc c r" by force
    then have "q < world" using source_bound [OF pc r] by blast
    moreover have "pc c q = pc c r" "\<not> sent c q"
      using q(2) least calculation by (auto simp: sent_count_def split: if_splits)
    ultimately show ?thesis using can_send pc by simp
  qed
qed

text \<open>
  Total correctness of the distributed execution, for every scheduler: a run has at most
  \<open>world * (2 * N)\<close> steps, a shorter run can be continued, and after that many steps every rank has
  finished with the synchronous result.
\<close>

lemma mesh_total:
  assumes lens: "\<forall>r < world. length (init r) = n r"
    and run: "mesh_run f P world m (init_conf init) c"
  shows "m \<le> world * (2 * N) \<and>
     (m < world * (2 * N) \<longrightarrow> (\<exists>c'. mesh_step f P world c c')) \<and>
     (m = world * (2 * N) \<longrightarrow> (\<forall>r < world. pc c r = N \<and> buf c r = sync f P init N r))"
proof -
  have inv: "mesh_inv f P init world N c" by (rule run_inv [OF run lens mesh_inv_init])
  have work: "work_done world c = m" using run_work [OF run] by (simp add: work_done_init)
  have "pc c r = N" if m: "m = world * (2 * N)" and r: "r < world" for r
  proof (rule ccontr)
    assume "pc c r \<noteq> N"
    then have less: "2 * pc c r + (if sent c r then 1 else 0) < 2 * N"
      using inv r by (auto simp: mesh_inv_def rank_inv_def sent_count_def split: if_splits)
    have "work_done world c < (\<Sum>r < world. 2 * N)"
      unfolding work_done_def using inv_work_rank [OF inv] r less
      by (intro sum_strict_mono_ex1) (auto intro!: bexI [of _ r])
    with work m show False by simp
  qed
  then show ?thesis
    using inv inv_work_bound [OF inv] work progress [OF inv lens]
    by (auto simp: mesh_inv_def rank_inv_def)
qed

text \<open>The result of a computation is unique: some run reaches the end.\<close>

lemma computes_unique:
  assumes lens: "\<forall>r < world. length (init r) = n r" and comp: "mesh_computes f P world N init result" and r: "r < world"
  shows "sync f P init N r = result r"
proof -
  have "\<exists>c. mesh_run f P world m (init_conf init) c" if "m \<le> world * (2 * N)" for m
    using that
  proof (induction m)
    case (Suc m)
    then obtain c where c: "mesh_run f P world m (init_conf init) c" by auto
    with Suc.prems comp obtain d where "mesh_step f P world c d" unfolding mesh_computes_def by (metis Suc_le_lessD)
    with c show ?case by (blast intro: run_step)
  qed (blast intro: run_refl)
  then obtain c where c: "mesh_run f P world (world * (2 * N)) (init_conf init) c" by blast
  then have "buf c r = result r" using comp r unfolding mesh_computes_def by blast
  with mesh_total [OF lens c] r show ?thesis by simp
qed

lemma computes_sync:
  assumes "\<forall>r < world. length (init r) = n r" and "\<And>r. r < world \<Longrightarrow> sync f P init N r = result r"
  shows "mesh_computes f P world N init result"
  unfolding mesh_computes_def using mesh_total [OF assms(1)] assms(2) by metis

end

section \<open>Aligned programs\<close>

text \<open>
  In the collectives a message is always applied at the offset it was taken from. Then each element
  index evolves on its own: the buffers can be followed one element at a time.
\<close>

fun act_val :: "('a \<Rightarrow> 'a \<Rightarrow> 'a) \<Rightarrow> recv_act \<Rightarrow> nat \<Rightarrow> 'a \<Rightarrow> 'a \<Rightarrow> 'a" where
  "act_val f (ReduceInto off len) i x y = (if off \<le> i \<and> i < off + len then f x y else x)"
| "act_val f (StoreAt off len) i x y = (if off \<le> i \<and> i < off + len then y else x)"

lemma apply_recv_nth:
  assumes "act_off act + act_len act \<le> length t" and "length u = length t" and "i < length t"
  shows "apply_recv f act (slice (act_off act) (act_len act) u) t ! i = act_val f act i (t ! i) (u ! i)"
  using assms by (cases act) (auto simp: nth_overwrite length_slice, auto simp: slice_def)

definition aligned :: "nat \<Rightarrow> nat \<Rightarrow> (nat \<Rightarrow> round list) \<Rightarrow> bool" where
  "aligned world N P \<longleftrightarrow>
     (\<forall>k < N. \<forall>r < world. \<forall>(s, act) \<in> set (recvs (P r ! k)).
        map_of (sends (P s ! k)) r = Some (act_off act, act_len act))"

locale aligned_protocol = round_protocol P world N "\<lambda>_. n" for P :: "nat \<Rightarrow> round list" and world N n :: nat +
  assumes aligned: "aligned world N P"
begin

lemma recv_source:
  "k < N \<Longrightarrow> r < world \<Longrightarrow> (s, act) \<in> set (recvs (P r ! k)) \<Longrightarrow>
   map_of (sends (P s ! k)) r = Some (act_off act, act_len act)"
  using aligned by (fastforce simp: aligned_def)

lemma fold_apply_recv_nth:
  assumes "\<And>s act. (s, act) \<in> set xs \<Longrightarrow>
      act_off act + act_len act \<le> n \<and> length (u s) = n \<and> m s = slice (act_off act) (act_len act) (u s)"
    and "length t = n" and "i < n"
  shows "fold (\<lambda>(s, act). apply_recv f act (m s)) xs t ! i =
         fold (\<lambda>(s, act) x. act_val f act i x (u s ! i)) xs (t ! i)"
  using assms
proof (induction xs arbitrary: t)
  case (Cons sa xs)
  obtain s act where sa: "sa = (s, act)" by (cases sa)
  with Cons.prems(1) [of s act] have h: "act_off act + act_len act \<le> n" "length (u s) = n"
    "m s = slice (act_off act) (act_len act) (u s)" by auto
  then have "length (apply_recv f act (m s) t) = n"
    using Cons.prems(2) by (subst length_apply_recv) (auto simp: length_slice)
  moreover have "apply_recv f act (m s) t ! i = act_val f act i (t ! i) (u s ! i)"
    using h Cons.prems(2,3) by (simp add: apply_recv_nth)
  ultimately show ?case using Cons.IH [of "apply_recv f act (m s) t"] Cons.prems(1,3) sa by auto
qed simp

lemma sync_nth:
  assumes init: "\<forall>r < world. length (init r) = n" and k: "k < N" and r: "r < world" and i: "i < n"
  shows "sync f P init (Suc k) r ! i =
         fold (\<lambda>(s, act) x. act_val f act i x (sync f P init k s ! i)) (recvs (P r ! k)) (sync f P init k r ! i)"
proof -
  note len = length_sync [OF init less_imp_le_nat [OF k]]
  have "act_off act + act_len act \<le> n \<and> length (sync f P init k s) = n \<and>
      message (P s ! k) r (sync f P init k s) = slice (act_off act) (act_len act) (sync f P init k s)"
    if "(s, act) \<in> set (recvs (P r ! k))" for s act
    using source_bound [OF k r that] len [of s] recv_source [OF k r that] by (simp add: message_def)
  from fold_apply_recv_nth [OF this len [OF r] i] show ?thesis by simp
qed

text \<open>Element-wise computation of the result.\<close>

lemma computes_nth:
  assumes "\<forall>r < world. length (init r) = n"
    and "\<And>r i. r < world \<Longrightarrow> i < n \<Longrightarrow> sync f P init N r ! i = g i"
  shows "mesh_computes f P world N init (\<lambda>_. map g [0..<n])"
  using assms by (intro computes_sync) (auto intro!: nth_equalityI simp: length_sync)

end

text \<open>How the programs of the collectives are shown to be of this form, round by round.\<close>

definition exchange_ok :: "nat \<Rightarrow> nat \<Rightarrow> (nat \<Rightarrow> round) \<Rightarrow> bool" where
  "exchange_ok world n R \<longleftrightarrow>
     (\<forall>r < world. wf_round world n (R r) \<and>
       (\<forall>q < world. map_of (sends (R r)) q =
          map_option (\<lambda>act. (act_off act, act_len act)) (map_of (recvs (R q)) r)))"

lemma aligned_protocolI:
  assumes len: "\<And>r. r < world \<Longrightarrow> length (P r) = N"
    and ok: "\<And>k. k < N \<Longrightarrow> exchange_ok world n (\<lambda>r. P r ! k)"
  shows "aligned_protocol P world N n"
proof
  have "send_len (P r ! k) q = recv_len (P q ! k) r" if "k < N" "r < world" "q < world" for k r q
    using ok [OF that(1)] that(2,3)
    by (auto simp: exchange_ok_def send_len_def recv_len_def split: option.split)
  then show "matched world N (\<lambda>_. n) P" using len ok by (simp add: matched_def exchange_ok_def)
  have "map_of (sends (P s ! k)) r = Some (act_off act, act_len act)"
    if k: "k < N" and r: "r < world" and recv: "(s, act) \<in> set (recvs (P r ! k))" for k r s act
  proof -
    have wf: "wf_round world n (P r ! k)" using ok [OF k] r by (simp add: exchange_ok_def)
    with recv have "s < world" "map_of (recvs (P r ! k)) s = Some act" by (auto simp: wf_round_def)
    then show ?thesis using ok [OF k] r by (simp add: exchange_ok_def)
  qed
  then show "aligned world N P" by (fastforce simp: aligned_def)
qed

lemma exchange_idle: "exchange_ok world n (\<lambda>_. idle)"
  by (simp add: exchange_ok_def idle_def wf_round_def)

declare sync.simps(2) [simp del]

end
