(* ===== verification/Bounded_Mesh.thy ===== *)
theory Bounded_Mesh
  imports Rounds "HOL-Library.Sublist"
begin

text \<open>
  The round programs of \<open>Rounds\<close> over sockets of bounded size. A stream between two ranks holds at most \<open>cap\<close> elements, and each write and each read moves any positive number of elements that fits.
  In a round, every send and every receive of a rank has a thread of its own (the helper threads of the ring and the butterfly, the root's threads of a broadcast; a round of the tree is a single
  call), or there is one thread per peer that sends before it receives (allgather, reduce-scatter and all-to-all): \<open>sq k\<close> says which for round \<open>k\<close>. The rank joins its threads and applies what it
  received. The locale \<open>round_protocol\<close> gets further theorems: for every matched program, no run blocks, every run is bounded, and it ends with what \<open>sync\<close> computes, for every capacity with
  parallel threads, and with one thread per peer when one direction of each pair fits; when both directions do not fit, every run blocks.
\<close>

section \<open>Execution over bounded streams\<close>

text \<open>\<open>outq r q\<close> is what \<open>r\<close> has still to write to \<open>q\<close> in its current round, \<open>bchan r q\<close> the content of the stream, \<open>inq r q\<close> what \<open>q\<close> has read from \<open>r\<close> in its current round.\<close>

record 'a bconf =
  bpc :: "nat \<Rightarrow> nat"
  bbuf :: "nat \<Rightarrow> 'a list"
  outq :: "nat \<Rightarrow> nat \<Rightarrow> 'a list"
  bchan :: "nat \<Rightarrow> nat \<Rightarrow> 'a list"
  inq :: "nat \<Rightarrow> nat \<Rightarrow> 'a list"

definition begin_round :: "(nat \<Rightarrow> round list) \<Rightarrow> nat \<Rightarrow> nat \<Rightarrow> 'a list \<Rightarrow> nat \<Rightarrow> 'a list" where
  "begin_round P r k t q = (if k < length (P r) then message (P r ! k) q t else [])"

definition binit :: "(nat \<Rightarrow> round list) \<Rightarrow> (nat \<Rightarrow> 'a list) \<Rightarrow> 'a bconf" where
  "binit P init = \<lparr>bpc = (\<lambda>_. 0), bbuf = init, outq = (\<lambda>r. begin_round P r 0 (init r)), bchan = (\<lambda>_ _. []), inq = (\<lambda>_ _. [])\<rparr>"

definition upd2 :: "(nat \<Rightarrow> nat \<Rightarrow> 'b) \<Rightarrow> nat \<Rightarrow> nat \<Rightarrow> 'b \<Rightarrow> nat \<Rightarrow> nat \<Rightarrow> 'b" where
  "upd2 h a b v = h(a := (h a)(b := v))"

lemma upd2_apply [simp]: "upd2 h a b v x y = (if x = a \<and> y = b then v else h x y)"
  by (simp add: upd2_def)

definition after_round :: "('a \<Rightarrow> 'a \<Rightarrow> 'a) \<Rightarrow> (nat \<Rightarrow> round list) \<Rightarrow> nat \<Rightarrow> 'a bconf \<Rightarrow> 'a bconf" where
  "after_round f P r c =
     (let t = fold (\<lambda>(src, act). apply_recv f act (inq c src r)) (recvs (P r ! bpc c r)) (bbuf c r) in
      c\<lparr>bpc := (bpc c)(r := Suc (bpc c r)), bbuf := (bbuf c)(r := t), outq := (outq c)(r := begin_round P r (Suc (bpc c r)) t),
        inq := (\<lambda>a b. if b = r then [] else inq c a b)\<rparr>)"

inductive bounded_step :: "(nat \<Rightarrow> bool) \<Rightarrow> nat \<Rightarrow> ('a \<Rightarrow> 'a \<Rightarrow> 'a) \<Rightarrow> (nat \<Rightarrow> round list) \<Rightarrow> nat \<Rightarrow> 'a bconf \<Rightarrow> 'a bconf \<Rightarrow> bool"
  for sq cap f P world where
  write_some: "\<lbrakk>r < world; q < world; 0 < k; k \<le> length (outq c r q); length (bchan c r q) + k \<le> cap\<rbrakk> \<Longrightarrow>
     bounded_step sq cap f P world c
       (c\<lparr>outq := upd2 (outq c) r q (drop k (outq c r q)), bchan := upd2 (bchan c) r q (bchan c r q @ take k (outq c r q))\<rparr>)"
| read_some: "\<lbrakk>r < world; q < world; bpc c r < length (P r); sq (bpc c r) \<longrightarrow> outq c r q = []; 0 < k; k \<le> length (bchan c q r); length (inq c q r) + k \<le> recv_len (P r ! bpc c r) q\<rbrakk> \<Longrightarrow>
     bounded_step sq cap f P world c
       (c\<lparr>bchan := upd2 (bchan c) q r (drop k (bchan c q r)), inq := upd2 (inq c) q r (inq c q r @ take k (bchan c q r))\<rparr>)"
| join_round: "\<lbrakk>r < world; bpc c r < length (P r); \<forall>q < world. outq c r q = []; \<forall>q < world. length (inq c q r) = recv_len (P r ! bpc c r) q\<rbrakk> \<Longrightarrow>
     bounded_step sq cap f P world c (after_round f P r c)"

text \<open>How many elements go from \<open>a\<close> to \<open>b\<close> in the first \<open>j\<close> rounds, and the number of steps of a run.\<close>

definition sent_upto :: "(nat \<Rightarrow> round list) \<Rightarrow> nat \<Rightarrow> nat \<Rightarrow> nat \<Rightarrow> nat" where
  "sent_upto P a b j = (\<Sum>k < j. send_len (P a ! k) b)"

definition bounded_steps :: "(nat \<Rightarrow> round list) \<Rightarrow> nat \<Rightarrow> nat \<Rightarrow> nat" where
  "bounded_steps P world N = world * N + (\<Sum>(a, b) \<in> {..<world} \<times> {..<world}. 2 * sent_upto P a b N)"

text \<open>Whatever the scheduler does, a run is not longer than that, and unless it can be continued, every rank has finished with its result.\<close>

definition bounded_computes ::
  "(nat \<Rightarrow> bool) \<Rightarrow> nat \<Rightarrow> ('a \<Rightarrow> 'a \<Rightarrow> 'a) \<Rightarrow> (nat \<Rightarrow> round list) \<Rightarrow> nat \<Rightarrow> nat \<Rightarrow> (nat \<Rightarrow> 'a list) \<Rightarrow> (nat \<Rightarrow> 'a list) \<Rightarrow> bool" where
  "bounded_computes sq cap f P world N init result \<longleftrightarrow>
     (\<forall>m c. (bounded_step sq cap f P world ^^ m) (binit P init) c \<longrightarrow>
        m \<le> bounded_steps P world N \<and>
        ((\<exists>c'. bounded_step sq cap f P world c c') \<or> (\<forall>r < world. bpc c r = N \<and> bbuf c r = result r)))"

text \<open>When a round exchanges on one thread per peer, one direction of each pair has to fit into the socket buffers.\<close>

definition send_room :: "(nat \<Rightarrow> bool) \<Rightarrow> nat \<Rightarrow> (nat \<Rightarrow> round list) \<Rightarrow> nat \<Rightarrow> nat \<Rightarrow> bool" where
  "send_room sq cap P world N \<longleftrightarrow>
     (\<forall>k < N. sq k \<longrightarrow> (\<forall>a < world. \<forall>b < world. send_len (P a ! k) b \<le> cap \<or> send_len (P b ! k) a \<le> cap))"

text \<open>The semantics together: with sends that complete by themselves, and over sockets; with parallel threads of every size, with one thread per peer from a given size on.\<close>

definition computes_over_sockets ::
  "('a \<Rightarrow> 'a \<Rightarrow> 'a) \<Rightarrow> (nat \<Rightarrow> round list) \<Rightarrow> nat \<Rightarrow> nat \<Rightarrow> (nat \<Rightarrow> 'a list) \<Rightarrow> (nat \<Rightarrow> 'a list) \<Rightarrow> bool" where
  "computes_over_sockets f P world N init result \<longleftrightarrow>
     mesh_computes f P world N init result \<and> (\<forall>cap > 0. bounded_computes (\<lambda>_. False) cap f P world N init result)"

definition computes_send_first ::
  "nat \<Rightarrow> ('a \<Rightarrow> 'a \<Rightarrow> 'a) \<Rightarrow> (nat \<Rightarrow> round list) \<Rightarrow> nat \<Rightarrow> nat \<Rightarrow> (nat \<Rightarrow> 'a list) \<Rightarrow> (nat \<Rightarrow> 'a list) \<Rightarrow> bool" where
  "computes_send_first bound f P world N init result \<longleftrightarrow>
     mesh_computes f P world N init result \<and> (\<forall>cap > 0. bound \<le> cap \<longrightarrow> bounded_computes (\<lambda>_. True) cap f P world N init result)"

section \<open>The invariant\<close>

lemma take_drop_append: "take k xs @ drop k xs @ ys = xs @ ys"
  by (metis append.assoc append_take_drop_id)

text \<open>The messages from \<open>a\<close> to \<open>b\<close> of the first \<open>j\<close> rounds.\<close>

definition msgs_upto :: "('a \<Rightarrow> 'a \<Rightarrow> 'a) \<Rightarrow> (nat \<Rightarrow> round list) \<Rightarrow> (nat \<Rightarrow> 'a list) \<Rightarrow> nat \<Rightarrow> nat \<Rightarrow> nat \<Rightarrow> 'a list" where
  "msgs_upto f P init a b j = concat (map (msg_at f P init a b) [0..<j])"

lemma msgs_upto_simps [simp]:
  "msgs_upto f P init a b 0 = []"
  "msgs_upto f P init a b (Suc j) = msgs_upto f P init a b j @ msg_at f P init a b j"
  by (simp_all add: msgs_upto_def)

lemma msgs_upto_prefix: "j \<le> k \<Longrightarrow> prefix (msgs_upto f P init a b j) (msgs_upto f P init a b k)"
  by (induction k rule: dec_induct) (auto intro: prefix_order.trans)

definition awaited :: "(nat \<Rightarrow> round list) \<Rightarrow> nat \<Rightarrow> nat \<Rightarrow> nat \<Rightarrow> nat \<Rightarrow> nat" where
  "awaited P N k a b = (if k < N then recv_len (P b ! k) a else 0)"

text \<open>The stream carries the messages in order: those that \<open>b\<close> has completed, the part of the current one that it has read, what is under way and what \<open>a\<close> has still to write.\<close>

definition pair_inv :: "nat \<Rightarrow> ('a \<Rightarrow> 'a \<Rightarrow> 'a) \<Rightarrow> (nat \<Rightarrow> round list) \<Rightarrow> (nat \<Rightarrow> 'a list) \<Rightarrow> nat \<Rightarrow> 'a bconf \<Rightarrow> nat \<Rightarrow> nat \<Rightarrow> bool" where
  "pair_inv cap f P init N c a b \<longleftrightarrow>
     msgs_upto f P init a b (bpc c b) @ inq c a b @ bchan c a b @ outq c a b = msgs_upto f P init a b (min N (Suc (bpc c a))) \<and>
     length (bchan c a b) \<le> cap \<and> length (inq c a b) \<le> awaited P N (bpc c b) a b"

definition bounded_inv :: "nat \<Rightarrow> ('a \<Rightarrow> 'a \<Rightarrow> 'a) \<Rightarrow> (nat \<Rightarrow> round list) \<Rightarrow> (nat \<Rightarrow> 'a list) \<Rightarrow> nat \<Rightarrow> nat \<Rightarrow> 'a bconf \<Rightarrow> bool" where
  "bounded_inv cap f P init world N c \<longleftrightarrow>
     (\<forall>r < world. bpc c r \<le> N \<and> bbuf c r = sync f P init (bpc c r) r) \<and> (\<forall>a < world. \<forall>b < world. pair_inv cap f P init N c a b)"

lemma bounded_invD:
  assumes "bounded_inv cap f P init world N c"
  shows "r < world \<Longrightarrow> bpc c r \<le> N" "r < world \<Longrightarrow> bbuf c r = sync f P init (bpc c r) r"
    "a < world \<Longrightarrow> b < world \<Longrightarrow> pair_inv cap f P init N c a b"
  using assms by (auto simp: bounded_inv_def)

definition bwork :: "(nat \<Rightarrow> round list) \<Rightarrow> nat \<Rightarrow> 'a bconf \<Rightarrow> nat" where
  "bwork P world c = (\<Sum>r < world. bpc c r) +
     (\<Sum>(a, b) \<in> {..<world} \<times> {..<world}. 2 * (sent_upto P a b (bpc c b) + length (inq c a b)) + length (bchan c a b))"

text \<open>Two ranks that send each other more than the buffers hold before they receive: neither gets past that.\<close>

definition facing :: "'a bconf \<Rightarrow> nat \<Rightarrow> nat \<Rightarrow> nat \<Rightarrow> bool" where
  "facing c len a b \<longleftrightarrow> bpc c a = 0 \<and> inq c a b = [] \<and> length (bchan c a b) + length (outq c a b) = len"

lemma facing_step:
  assumes "bounded_step sq cap f P world c c'" and "sq 0" and "facing c la a b" and "facing c lb b a" and "a < world" and "b < world"
    and "length (bchan c a b) \<le> cap" and "length (bchan c b a) \<le> cap" and "cap < la" and "cap < lb"
  shows "facing c' la a b"
  using assms
proof (induction rule: bounded_step.induct)
  case (read_some r q c k)
  then have "\<not> (r = b \<and> q = a)" "\<not> (r = a \<and> q = b)" by (auto simp: facing_def)
  with read_some show ?case by (auto simp: facing_def)
next
  case (join_round r c)
  then have "r \<noteq> a" "r \<noteq> b" by (auto simp: facing_def)
  with join_round show ?case by (auto simp: facing_def after_round_def Let_def)
qed (auto simp: facing_def)

context round_protocol
begin

lemma binit_inv: "bounded_inv cap f P init world N (binit P init)"
  by (cases N) (auto simp: bounded_inv_def pair_inv_def binit_def begin_round_def length_P msg_at_def)

text \<open>A message that has been read to its length is the message of the round.\<close>

lemma complete_message:
  assumes inv: "bounded_inv cap f P init world N c" and lens: "\<forall>r < world. length (init r) = n r" and ab: "a < world" "b < world"
    and k: "bpc c b < N" and len: "length (inq c a b) = recv_len (P b ! bpc c b) a"
  shows "inq c a b = msg_at f P init a b (bpc c b)"
proof -
  let ?M = "msgs_upto f P init a b" and ?k = "bpc c b"
  have "prefix (?M (min N (Suc (bpc c a)))) (?M N)" by (rule msgs_upto_prefix) simp
  then obtain z where z: "?M N = ?M ?k @ inq c a b @ bchan c a b @ outq c a b @ z"
    using bounded_invD(3) [OF inv ab] unfolding pair_inv_def prefix_def by (metis append.assoc)
  have "prefix (?M (Suc ?k)) (?M N)" using k by (intro msgs_upto_prefix) simp
  then obtain w where "?M N = ?M ?k @ msg_at f P init a b ?k @ w" by (auto simp: prefix_def)
  with z have "inq c a b @ bchan c a b @ outq c a b @ z = msg_at f P init a b ?k @ w" by simp
  moreover have "length (inq c a b) = length (msg_at f P init a b ?k)" using length_msg_at [OF lens k ab] len by simp
  ultimately show ?thesis using append_eq_append_conv by blast
qed

lemma after_round_inv:
  assumes inv: "bounded_inv cap f P init world N c" and lens: "\<forall>r < world. length (init r) = n r" and r: "r < world" and k: "bpc c r < N"
    and out: "\<forall>q < world. outq c r q = []" and got: "\<forall>q < world. length (inq c q r) = recv_len (P r ! bpc c r) q"
  shows "bounded_inv cap f P init world N (after_round f P r c)"
proof -
  let ?k = "bpc c r" and ?c = "after_round f P r c"
  have msg: "inq c a r = msg_at f P init a r ?k" if "a < world" for a
    using complete_message [OF inv lens that r k] got that by simp
  have "fold (\<lambda>(src, act). apply_recv f act (inq c src r)) (recvs (P r ! ?k)) (bbuf c r) = sync f P init (Suc ?k) r"
    unfolding sync.simps bounded_invD(2) [OF inv r]
    using msg source_bound [OF k r] by (intro fold_cong) (auto simp: msg_at_def)
  then have c: "?c = c\<lparr>bpc := (bpc c)(r := Suc ?k), bbuf := (bbuf c)(r := sync f P init (Suc ?k) r),
      outq := (outq c)(r := begin_round P r (Suc ?k) (sync f P init (Suc ?k) r)), inq := (\<lambda>a b. if b = r then [] else inq c a b)\<rparr>"
    by (simp add: after_round_def Let_def)
  have "pair_inv cap f P init N ?c a b" if ab: "a < world" "b < world" for a b
  proof -
    let ?M = "msgs_upto f P init a b"
    have left: "?M (bpc ?c b) @ inq ?c a b = ?M (bpc c b) @ inq c a b" using msg ab by (simp add: c)
    have right: "?M (min N (Suc (bpc ?c a))) = ?M (min N (Suc (bpc c a))) @ (if a = r then outq ?c r b else [])"
    proof (cases "a = r")
      case True
      show ?thesis
      proof (cases "Suc ?k < N")
        case True
        then show ?thesis using \<open>a = r\<close> length_P [OF r] by (simp add: c begin_round_def msg_at_def min_absorb2)
      next
        case False
        then have "Suc ?k = N" using k by simp
        then show ?thesis using \<open>a = r\<close> length_P [OF r] by (simp add: c begin_round_def)
      qed
    qed (simp add: c)
    have "outq ?c a b = (if a = r then outq ?c r b else outq c a b)" "bchan ?c = bchan c" by (simp_all add: c)
    note new = this
    have old: "?M (bpc c b) @ inq c a b @ bchan c a b @ outq c a b = ?M (min N (Suc (bpc c a)))" "length (bchan c a b) \<le> cap"
      "length (inq c a b) \<le> awaited P N (bpc c b) a b"
      using bounded_invD(3) [OF inv ab] by (auto simp: pair_inv_def)
    have "?M (bpc ?c b) @ inq ?c a b @ bchan ?c a b @ outq ?c a b = ?M (bpc c b) @ inq c a b @ bchan c a b @ outq ?c a b"
      using arg_cong [OF left, of "\<lambda>x. x @ bchan c a b @ outq ?c a b"] new(2) by simp
    also have "\<dots> = ?M (min N (Suc (bpc ?c a)))" unfolding right old(1) [symmetric] using out ab new(1) by simp
    finally have "?M (bpc ?c b) @ inq ?c a b @ bchan ?c a b @ outq ?c a b = ?M (min N (Suc (bpc ?c a)))" .
    moreover have "length (inq ?c a b) \<le> awaited P N (bpc ?c b) a b" using old(3) by (simp add: c)
    ultimately show ?thesis using old(2) new(2) by (simp add: pair_inv_def)
  qed
  moreover have "bpc ?c a \<le> N \<and> bbuf ?c a = sync f P init (bpc ?c a) a" if "a < world" for a
    using bounded_invD(1, 2) [OF inv that] k by (simp add: c)
  ultimately show ?thesis by (simp add: bounded_inv_def)
qed

lemma bounded_step_inv:
  assumes "bounded_step sq cap f P world c c'" and lens: "\<forall>r < world. length (init r) = n r" and "bounded_inv cap f P init world N c"
  shows "bounded_inv cap f P init world N c'"
  using assms(1, 3)
proof (induction rule: bounded_step.induct)
  case (write_some r q k c)
  then show ?case by (auto simp: bounded_inv_def pair_inv_def)
next
  case (read_some r q c k)
  then have "length (inq c q r) + k \<le> awaited P N (bpc c r) q r" by (simp add: awaited_def length_P)
  with read_some show ?case by (auto simp: bounded_inv_def pair_inv_def take_drop_append intro: le_trans [OF diff_le_self])
next
  case (join_round r c)
  then show ?case using after_round_inv [OF join_round.prems lens] by (simp add: length_P)
qed

lemma bounded_run_inv:
  "(bounded_step sq cap f P world ^^ m) c c' \<Longrightarrow> \<forall>r < world. length (init r) = n r \<Longrightarrow> bounded_inv cap f P init world N c \<Longrightarrow>
   bounded_inv cap f P init world N c'"
  by (induction m arbitrary: c') (auto intro: bounded_step_inv)

lemma length_msgs_upto:
  assumes "\<forall>r < world. length (init r) = n r" and "a < world" and "b < world" and "j \<le> N"
  shows "length (msgs_upto f P init a b j) = sent_upto P a b j"
  using assms(4)
proof (induction j)
  case (Suc j)
  then show ?case
    using length_msg_at [OF assms(1) _ assms(2, 3), of j f] send_len_recv_len [of j a b] assms(2, 3) by (simp add: sent_upto_def)
qed (simp add: sent_upto_def)

lemma pair_lengths:
  assumes "bounded_inv cap f P init world N c" and "\<forall>r < world. length (init r) = n r" and "a < world" and "b < world"
  shows "sent_upto P a b (bpc c b) + length (inq c a b) + length (bchan c a b) + length (outq c a b) = sent_upto P a b (min N (Suc (bpc c a)))"
  using arg_cong [OF conjunct1 [OF bounded_invD(3) [OF assms(1, 3, 4), unfolded pair_inv_def]], of length]
    length_msgs_upto [OF assms(2-4)] bounded_invD(1) [OF assms(1)] assms(3, 4) by simp

lemma sent_upto_mono: "j \<le> k \<Longrightarrow> sent_upto P a b j \<le> sent_upto P a b k"
  unfolding sent_upto_def by (intro sum_mono2) auto

text \<open>No deadlock: a rank that is furthest behind can write, read or join its round, or its peer can.\<close>

lemma bounded_progress:
  assumes inv: "bounded_inv cap f P init world N c" and lens: "\<forall>r < world. length (init r) = n r" and cap: "0 < cap" and room: "send_room sq cap P world N"
    and unfinished: "a < world" "bpc c a < N"
  shows "\<exists>c'. bounded_step sq cap f P world c c'"
proof -
  obtain r where r: "r < world" and least: "\<forall>q < world. bpc c r \<le> bpc c q"
    using ex_has_least_nat [of "\<lambda>r. r < world" a "bpc c"] unfinished(1) by auto
  let ?k = "bpc c r"
  have k: "?k < N" using least unfinished by fastforce
  note lengths = pair_lengths [OF inv lens]
  have suc: "sent_upto P x y (Suc ?k) = sent_upto P x y ?k + recv_len (P y ! ?k) x" if "x < world" "y < world" for x y
    using send_len_recv_len [OF k that] by (simp add: sent_upto_def)
  have can_write: "\<exists>c'. bounded_step sq cap f P world c c'" if "x < world" "y < world" "outq c x y \<noteq> []" "length (bchan c x y) < cap" for x y
    using bounded_step.write_some [of x world y 1 c cap sq f P] that by (cases "outq c x y") auto
  have can_read: "\<exists>c'. bounded_step sq cap f P world c c'"
    if "x < world" "y < world" "bpc c y < N" "sq (bpc c y) \<longrightarrow> outq c y x = []" "bchan c x y \<noteq> []" "length (inq c x y) < recv_len (P y ! bpc c y) x" for x y
    using bounded_step.read_some [of y world x c P sq 1 cap f] that by (cases "bchan c x y") (auto simp: length_P)
  show ?thesis
  proof (cases "\<exists>q < world. outq c r q \<noteq> []")
    case True
    then obtain q where q: "q < world" "outq c r q \<noteq> []" by blast
    have "bpc c q = ?k" if full: "\<not> length (bchan c r q) < cap"
    proof (rule ccontr)
      assume "bpc c q \<noteq> ?k"
      then have "sent_upto P r q (Suc ?k) \<le> sent_upto P r q (bpc c q)" using least q(1) by (intro sent_upto_mono) (simp add: le_neq_implies_less Suc_le_eq)
      moreover have "min N (Suc ?k) = Suc ?k" using k by simp
      note lengths [OF r q(1), unfolded this]
      ultimately have "length (outq c r q) = 0" by linarith
      with q(2) show False by simp
    qed
    note full = this
    show ?thesis
    proof (cases "length (bchan c r q) < cap")
      case True
      then show ?thesis by (rule can_write [OF r q])
    next
      case False
      have pq: "bpc c q = ?k" by (rule full [OF False])
      have sum: "length (inq c r q) + length (bchan c r q) + length (outq c r q) = recv_len (P q ! ?k) r"
        using lengths [OF r q(1)] suc [OF r q(1)] pq k by (simp add: min_absorb2)
      show ?thesis
      proof (cases "sq ?k \<and> outq c q r \<noteq> []")
        case True
        have "length (inq c q r) + length (bchan c q r) + length (outq c q r) = recv_len (P r ! ?k) q"
          using lengths [OF q(1) r] suc [OF q(1) r] pq k by (simp add: min_absorb2)
        moreover have "0 < length (outq c q r)" "0 < length (outq c r q)" using True q(2) by simp_all
        moreover have "recv_len (P q ! ?k) r \<le> cap \<or> recv_len (P r ! ?k) q \<le> cap"
          using room k True r q(1) send_len_recv_len [OF k r q(1)] send_len_recv_len [OF k q(1) r] by (fastforce simp: send_room_def)
        ultimately have "length (bchan c q r) < cap" using sum False by linarith
        then show ?thesis using can_write [OF q(1) r] True by blast
      next
        case quiet: False
        have "0 < length (outq c r q)" using q(2) by simp
        moreover have "0 < length (bchan c r q)" using False cap by linarith
        ultimately have "0 < length (bchan c r q)" "length (inq c r q) < recv_len (P q ! ?k) r" using sum by linarith+
        then show ?thesis using can_read [OF r q(1)] pq quiet k by simp
      qed
    qed
  next
    case False
    show ?thesis
    proof (cases "\<forall>q < world. length (inq c q r) = recv_len (P r ! ?k) q")
      case True
      with False r k show ?thesis using bounded_step.join_round [of r world c P sq cap f] by (auto simp: length_P)
    next
      case short: False
      then obtain q where q: "q < world" "length (inq c q r) \<noteq> recv_len (P r ! ?k) q" by blast
      have "length (inq c q r) < recv_len (P r ! ?k) q" using bounded_invD(3) [OF inv q(1) r] q(2) k by (simp add: pair_inv_def awaited_def)
      moreover have "sent_upto P q r (Suc ?k) \<le> sent_upto P q r (min N (Suc (bpc c q)))" using least q(1) k by (intro sent_upto_mono) simp
      ultimately have "bchan c q r \<noteq> [] \<or> outq c q r \<noteq> []" "length (inq c q r) < recv_len (P r ! ?k) q"
        using lengths [OF q(1) r] suc [OF q(1) r] by auto
      then show ?thesis using can_read [OF q(1) r k] q(1) False can_write [OF q(1) r] cap by (cases "bchan c q r = []") auto
    qed
  qed
qed

text \<open>Each step adds to what has been written, read and joined.\<close>

lemma bwork_step:
  assumes "bounded_step sq cap f P world c c'"
  shows "bwork P world c < bwork P world c'"
  using assms
proof (induction rule: bounded_step.induct)
  case (write_some r q k c)
  then show ?case unfolding bwork_def
    by (intro add_le_less_mono sum_strict_mono_ex1) (auto intro!: bexI [of _ "(r, q)"])
next
  case (read_some r q c k)
  then show ?case unfolding bwork_def
    by (intro add_le_less_mono sum_strict_mono_ex1) (auto intro!: bexI [of _ "(q, r)"])
next
  case (join_round r c)
  have step: "bpc (after_round f P r c) = (bpc c)(r := Suc (bpc c r))" "bchan (after_round f P r c) = bchan c"
      "inq (after_round f P r c) = (\<lambda>a b. if b = r then [] else inq c a b)"
    by (simp_all add: after_round_def Let_def)
  have "sent_upto P a r (Suc (bpc c r)) = sent_upto P a r (bpc c r) + length (inq c a r)" if "a < world" for a
    using join_round that send_len_recv_len [of "bpc c r" a r] by (simp add: sent_upto_def length_P)
  then show ?case unfolding bwork_def step using join_round(1)
    by (intro add_less_le_mono sum_strict_mono_ex1 sum_mono) (auto intro!: bexI [of _ r])
qed

lemma bwork_bound:
  assumes "bounded_inv cap f P init world N c" and "\<forall>r < world. length (init r) = n r"
  shows "bwork P world c \<le> bounded_steps P world N"
proof -
  have "2 * (sent_upto P a b (bpc c b) + length (inq c a b)) + length (bchan c a b) \<le> 2 * sent_upto P a b N" if "a < world" "b < world" for a b
    using pair_lengths [OF assms that] sent_upto_mono [of "min N (Suc (bpc c a))" N a b] by simp
  moreover have "(\<Sum>r < world. bpc c r) \<le> world * N"
    using sum_bounded_above [of "{..<world}" "bpc c" N] bounded_invD(1) [OF assms(1)] by simp
  ultimately show ?thesis unfolding bwork_def bounded_steps_def by (intro add_mono sum_mono) auto
qed

lemma bwork_run: "(bounded_step sq cap f P world ^^ m) c c' \<Longrightarrow> bwork P world c + m \<le> bwork P world c'"
proof (induction m arbitrary: c')
  case (Suc m)
  then obtain d where "(bounded_step sq cap f P world ^^ m) c d" "bounded_step sq cap f P world d c'" by auto
  with Suc.IH [of d] bwork_step show ?case by fastforce
qed simp

lemma bounded_sync:
  assumes cap: "0 < cap" and room: "send_room sq cap P world N" and lens: "\<forall>r < world. length (init r) = n r" and res: "\<And>r. r < world \<Longrightarrow> sync f P init N r = result r"
  shows "bounded_computes sq cap f P world N init result"
  unfolding bounded_computes_def
proof (intro allI impI conjI)
  fix m c assume run: "(bounded_step sq cap f P world ^^ m) (binit P init) c"
  note inv = bounded_run_inv [OF run lens binit_inv]
  show "m \<le> bounded_steps P world N" using bwork_run [OF run] bwork_bound [OF inv lens] by simp
  have "\<exists>c'. bounded_step sq cap f P world c c'" if "r < world" "bpc c r \<noteq> N" for r
    using bounded_progress [OF inv lens cap room that(1)] bounded_invD(1) [OF inv that(1)] that(2) by simp
  then show "(\<exists>c'. bounded_step sq cap f P world c c') \<or> (\<forall>r < world. bpc c r = N \<and> bbuf c r = result r)"
    using bounded_invD(2) [OF inv] res by metis
qed

text \<open>Every run can be continued to its end.\<close>

lemma bounded_run_ends:
  assumes "(bounded_step sq cap f P world)\<^sup>*\<^sup>* (binit P init) c" and lens: "\<forall>r < world. length (init r) = n r"
  shows "\<exists>c'. (bounded_step sq cap f P world)\<^sup>*\<^sup>* c c' \<and> (\<forall>c''. \<not> bounded_step sq cap f P world c' c'')"
  using assms(1)
proof (induction "bounded_steps P world N - bwork P world c" arbitrary: c rule: less_induct)
  case less
  show ?case
  proof (cases "\<exists>d. bounded_step sq cap f P world c d")
    case True
    then obtain d where d: "bounded_step sq cap f P world c d" by blast
    with less.prems have run: "(bounded_step sq cap f P world)\<^sup>*\<^sup>* (binit P init) d" by (rule rtranclp.rtrancl_into_rtrancl)
    then obtain m where "(bounded_step sq cap f P world ^^ m) (binit P init) d" using rtranclp_imp_relpowp by metis
    from bwork_bound [OF bounded_run_inv [OF this lens binit_inv] lens] bwork_step [OF d]
    have "bounded_steps P world N - bwork P world d < bounded_steps P world N - bwork P world c" by linarith
    from less.hyps [OF this run] d show ?thesis by (meson converse_rtranclp_into_rtranclp)
  qed blast
qed

lemma send_first_blocks:
  assumes run: "(bounded_step sq cap f P world)\<^sup>*\<^sup>* (binit P init) c" and lens: "\<forall>r < world. length (init r) = n r"
    and ab: "a < world" "b < world" and "0 < N" and "sq 0" and large: "cap < send_len (P a ! 0) b" "cap < send_len (P b ! 0) a"
  shows "bpc c a = 0 \<and> bpc c b = 0 \<and> inq c a b = []"
proof -
  have "facing c (send_len (P a ! 0) b) a b \<and> facing c (send_len (P b ! 0) a) b a" using run
  proof (induction rule: rtranclp_induct)
    case base
    have "length (message (P x ! 0) y (init x)) = send_len (P x ! 0) y" if "x < world" for x y
      using length_message [OF wf [OF \<open>0 < N\<close> that], of "init x" y] lens that by simp
    then show ?case using ab \<open>0 < N\<close> by (simp add: facing_def binit_def begin_round_def length_P)
  next
    case (step c d)
    then obtain m where "(bounded_step sq cap f P world ^^ m) (binit P init) c" using rtranclp_imp_relpowp by metis
    note inv = bounded_run_inv [OF this lens binit_inv]
    have "length (bchan c a b) \<le> cap" "length (bchan c b a) \<le> cap"
      using bounded_invD(3) [OF inv ab] bounded_invD(3) [OF inv ab(2, 1)] by (simp_all add: pair_inv_def)
    then show ?case using facing_step [OF step.hyps(2) \<open>sq 0\<close>] step.IH ab large by blast
  qed
  then show ?thesis by (simp add: facing_def)
qed

text \<open>Such a round deadlocks: no run gets past it, and every run ends in a state without a next step.\<close>

lemma send_first_deadlocks:
  assumes run: "(bounded_step sq cap f P world)\<^sup>*\<^sup>* (binit P init) c" and lens: "\<forall>r < world. length (init r) = n r"
    and ab: "a < world" "b < world" and "0 < N" and "sq 0" and large: "cap < send_len (P a ! 0) b" "cap < send_len (P b ! 0) a"
  shows "inq c a b = [] \<and> bpc c a = 0 \<and>
     (\<exists>c'. (bounded_step sq cap f P world)\<^sup>*\<^sup>* c c' \<and> (\<forall>c''. \<not> bounded_step sq cap f P world c' c'') \<and> bpc c' a = 0)"
proof -
  note blocks = send_first_blocks [where sq = sq and f = f, OF _ lens ab \<open>0 < N\<close> \<open>sq 0\<close> large]
  obtain c' where c': "(bounded_step sq cap f P world)\<^sup>*\<^sup>* c c'" "\<forall>c''. \<not> bounded_step sq cap f P world c' c''"
    using bounded_run_ends [OF run lens] by blast
  with run have "(bounded_step sq cap f P world)\<^sup>*\<^sup>* (binit P init) c'" by simp
  from blocks [OF run] blocks [OF this] c' show ?thesis by blast
qed

lemma sockets_sync:
  assumes "\<forall>r < world. length (init r) = n r" and "\<And>r. r < world \<Longrightarrow> sync f P init N r = result r"
  shows "computes_over_sockets f P world N init result"
  unfolding computes_over_sockets_def using bounded_sync [OF _ _ assms] computes_sync [OF assms] by (simp add: send_room_def)

lemma send_first_sync:
  assumes "\<forall>r < world. length (init r) = n r" and "\<And>r. r < world \<Longrightarrow> sync f P init N r = result r"
    and "\<And>k a b. k < N \<Longrightarrow> a < world \<Longrightarrow> b < world \<Longrightarrow> send_len (P a ! k) b \<le> bound"
  shows "computes_send_first bound f P world N init result"
proof -
  have "send_room (\<lambda>_. True) cap P world N" if "bound \<le> cap" for cap using assms(3) that le_trans by (fastforce simp: send_room_def)
  then show ?thesis unfolding computes_send_first_def using bounded_sync [OF _ _ assms(1, 2)] computes_sync [OF assms(1, 2)] by simp
qed

lemma send_first_computes:
  assumes "\<forall>r < world. length (init r) = n r" and "mesh_computes f P world N init result"
    and "\<And>k a b. k < N \<Longrightarrow> a < world \<Longrightarrow> b < world \<Longrightarrow> send_len (P a ! k) b \<le> bound"
  shows "computes_send_first bound f P world N init result"
  using send_first_sync [OF assms(1) computes_unique [OF assms(1, 2)] assms(3)] by blast

end

context aligned_protocol
begin

lemma sockets_nth:
  assumes "\<forall>r < world. length (init r) = n" and "\<And>r i. r < world \<Longrightarrow> i < n \<Longrightarrow> sync f P init N r ! i = g i"
  shows "computes_over_sockets f P world N init (\<lambda>_. map g [0..<n])"
proof -
  have "sync f P init N r = map g [0..<n]" if "r < world" for r
    using assms that by (auto intro!: nth_equalityI simp: length_sync)
  then show ?thesis by (intro sockets_sync assms)
qed

end

end
