(* ===== verification/Sequencing.thy ===== *)
theory Sequencing
  imports Bounded_Mesh
begin

text \<open>
  Several exchanges one after the other. The engine thread of a rank starts the next collective, and the loop of a collective the next tensor, as soon as its own part of the last
  one is done, while other ranks may still be behind, and the streams of the mesh carry no message boundaries. The memory of a rank is the tensors of all
  exchanges side by side, and its program the programs of the exchanges, each moved to the place of its tensor. If the programs match one by one, the whole is matched, and
  every tensor ends as if its exchange had been alone.
\<close>

section \<open>Moving a program\<close>

fun shift_act :: "nat \<Rightarrow> recv_act \<Rightarrow> recv_act" where
  "shift_act d (ReduceInto off len) = ReduceInto (d + off) len"
| "shift_act d (StoreAt off len) = StoreAt (d + off) len"

definition shift_round :: "nat \<Rightarrow> round \<Rightarrow> round" where
  "shift_round d rd =
     \<lparr>sends = map (\<lambda>(q, off, len). (q, d + off, len)) (sends rd), recvs = map (\<lambda>(s, act). (s, shift_act d act)) (recvs rd)\<rparr>"

lemma shift_act_simps [simp]: "act_len (shift_act d act) = act_len act" "act_off (shift_act d act) = d + act_off act"
  by (cases act; simp)+

lemma map_of_shift_sends [simp]: "map_of (sends (shift_round d rd)) q = map_option (\<lambda>(off, len). (d + off, len)) (map_of (sends rd) q)"
proof -
  have "map_of (map (\<lambda>(q, off, len). (q, d + off, len)) xs) q = map_option (\<lambda>(off, len). (d + off, len)) (map_of xs q)" for xs :: "(nat \<times> nat \<times> nat) list"
    by (induction xs) auto
  then show ?thesis by (simp add: shift_round_def)
qed

lemma map_of_shift_recvs [simp]: "map_of (recvs (shift_round d rd)) q = map_option (shift_act d) (map_of (recvs rd) q)"
  by (simp add: shift_round_def map_of_map)

lemma send_len_shift [simp]: "send_len (shift_round d rd) q = send_len rd q"
  by (auto simp: send_len_def split: option.split)

lemma recv_len_shift [simp]: "recv_len (shift_round d rd) q = recv_len rd q"
  by (auto simp: recv_len_def split: option.split)

lemma wf_shift: "wf_round world n rd \<Longrightarrow> d + n \<le> m \<Longrightarrow> wf_round world m (shift_round d rd)"
  by (fastforce simp: wf_round_def shift_round_def o_def case_prod_beta)

lemma slice_middle: "off + len \<le> length t \<Longrightarrow> slice (length pre + off) len (pre @ t @ post) = slice off len t"
  by (simp add: slice_def)

lemma overwrite_middle: "off + length m \<le> length t \<Longrightarrow> overwrite (pre @ t @ post) (length pre + off) m = pre @ overwrite t off m @ post"
  by (simp add: overwrite_def)

lemma message_shift:
  assumes "wf_round world (length t) rd"
  shows "message (shift_round (length pre) rd) q (pre @ t @ post) = message rd q t"
  using assms by (fastforce simp: message_def wf_round_def slice_middle split: option.split dest: map_of_SomeD)

lemma apply_recv_shift:
  assumes "act_off act + act_len act \<le> length t" and "length msg = act_len act"
  shows "apply_recv f (shift_act (length pre) act) msg (pre @ t @ post) = pre @ apply_recv f act msg t @ post"
  using assms by (cases act) (simp_all add: slice_middle overwrite_middle length_slice)

lemma fold_shift:
  assumes "\<And>s act. (s, act) \<in> set xs \<Longrightarrow> act_off act + act_len act \<le> length t \<and> length (m s) = act_len act"
  shows "fold (\<lambda>(s, act). apply_recv f act (m s)) (map (\<lambda>(s, act). (s, shift_act (length pre) act)) xs) (pre @ t @ post) =
    pre @ fold (\<lambda>(s, act). apply_recv f act (m s)) xs t @ post"
  using assms
proof (induction xs arbitrary: t)
  case (Cons x xs)
  obtain s act where x: "x = (s, act)" by (cases x)
  then have fit: "act_off act + act_len act \<le> length t" "length (m s) = act_len act" using Cons.prems by auto
  then have "length (apply_recv f act (m s) t) = length t" by (rule length_apply_recv)
  then have "fold (\<lambda>(s, act). apply_recv f act (m s)) (map (\<lambda>(s, act). (s, shift_act (length pre) act)) xs) (pre @ apply_recv f act (m s) t @ post) =
      pre @ fold (\<lambda>(s, act). apply_recv f act (m s)) xs (apply_recv f act (m s) t) @ post"
    using Cons.prems by (intro Cons.IH) auto
  then show ?case by (simp add: x apply_recv_shift [OF fit])
qed simp

section \<open>Synchronous rounds of a sequence\<close>

lemma matched_source:
  "matched world N n P \<Longrightarrow> k < N \<Longrightarrow> r < world \<Longrightarrow> (s, act) \<in> set (recvs (P r ! k)) \<Longrightarrow> s < world"
  using round_protocol.source_bound [OF round_protocol.intro] by blast

lemma sync_cong:
  assumes "matched world N n P" and "\<And>r. r < world \<Longrightarrow> Q r = P r" and "\<And>r. r < world \<Longrightarrow> j r = i r"
  shows "k \<le> N \<Longrightarrow> r < world \<Longrightarrow> sync f Q j k r = sync f P i k r"
proof (induction k arbitrary: r)
  case (Suc k)
  have "s < world" if "(s, act) \<in> set (recvs (P r ! k))" for s act
    using matched_source [OF assms(1) _ Suc.prems(2) that] Suc.prems(1) by simp
  then show ?case unfolding sync.simps using Suc assms(2) by (intro fold_cong) auto
qed (simp add: assms)

lemma sync_append:
  assumes P: "matched world N n P" and Q: "matched world M n Q"
  shows "k \<le> M \<Longrightarrow> r < world \<Longrightarrow> sync f (\<lambda>r. P r @ Q r) i (N + k) r = sync f Q (sync f P i N) k r"
proof (induction k arbitrary: r)
  case 0
  have "sync f (\<lambda>r. P r @ Q r) i k r = sync f P i k r" if "k \<le> N" "r < world" for k r
    using that
  proof (induction k arbitrary: r)
    case (Suc k)
    have len: "length (P x) = N" if "x < world" for x using P that by (simp add: matched_def)
    have "s < world" if "(s, act) \<in> set (recvs (P r ! k))" for s act
      using matched_source [OF P _ Suc.prems(2) that] Suc.prems(1) by simp
    then show ?case unfolding sync.simps using Suc len by (intro fold_cong) (auto simp: nth_append)
  qed simp
  from this [of N r] 0 show ?case by simp
next
  case (Suc k)
  have len: "length (P x) = N" if "x < world" for x using P that by (simp add: matched_def)
  have "s < world" if "(s, act) \<in> set (recvs (Q r ! k))" for s act
    using matched_source [OF Q _ Suc.prems(2) that] Suc.prems(1) by simp
  then show ?case unfolding add_Suc_right sync.simps using Suc len by (intro fold_cong) (auto simp: nth_append)
qed

lemma matched_append:
  assumes "matched world N n P" and "matched world M n Q"
  shows "matched world (N + M) n (\<lambda>r. P r @ Q r)"
  using assms by (auto simp: matched_def nth_append)

definition shift_program :: "(nat \<Rightarrow> nat) \<Rightarrow> (nat \<Rightarrow> round list) \<Rightarrow> nat \<Rightarrow> round list" where
  "shift_program d P r = map (shift_round (d r)) (P r)"

lemma matched_shift:
  assumes "matched world N n P" and "\<And>r. r < world \<Longrightarrow> d r + n r \<le> m r"
  shows "matched world N m (shift_program d P)"
  using assms by (auto simp: matched_def shift_program_def intro!: wf_shift)

lemma sync_shift:
  assumes P: "matched world N n P" and lens: "\<forall>r < world. length (pre r) = d r \<and> length (t r) = n r"
  shows "k \<le> N \<Longrightarrow> r < world \<Longrightarrow> sync f (shift_program d P) (\<lambda>r. pre r @ t r @ post r) k r = pre r @ sync f P t k r @ post r"
proof (induction k arbitrary: r)
  case (Suc k)
  have rp: "round_protocol P world N n" using P by unfold_locales
  have len: "length (sync f P t k s) = n s" if "s < world" for s
    using round_protocol.length_sync [OF rp _ _ that, of t k f] lens Suc.prems by simp
  have src: "s < world \<and> act_off act + act_len act \<le> n r" if "(s, act) \<in> set (recvs (P r ! k))" for s act
    using round_protocol.source_bound [OF rp, of k r] that Suc.prems by auto
  have nth: "shift_program d P s ! k = shift_round (d s) (P s ! k)" if "s < world" for s
    using P Suc.prems that by (simp add: shift_program_def matched_def)
  have msg: "message (shift_program d P s ! k) r (sync f (shift_program d P) (\<lambda>r. pre r @ t r @ post r) k s) = message (P s ! k) r (sync f P t k s)"
    if "s < world" for s
    using message_shift [of world "sync f P t k s" "P s ! k" "pre s" r "post s"] Suc that len [OF that] nth [OF that] lens
      round_protocol.wf [OF rp, of k s] by simp
  have mlen: "length (message (P s ! k) r (sync f P t k s)) = act_len act" if "(s, act) \<in> set (recvs (P r ! k))" for s act
    using round_protocol.message_length [OF rp _ _ _ that, of "sync f P t k s"] src [OF that] len Suc.prems by simp
  let ?m = "\<lambda>s. message (P s ! k) r (sync f P t k s)"
  have "sync f (shift_program d P) (\<lambda>r. pre r @ t r @ post r) (Suc k) r =
      fold (\<lambda>(s, act). apply_recv f act (?m s)) (map (\<lambda>(s, act). (s, shift_act (d r) act)) (recvs (P r ! k))) (pre r @ sync f P t k r @ post r)"
    unfolding sync.simps using Suc nth [of r] msg src by (intro fold_cong) (auto simp: shift_round_def)
  also have "\<dots> = pre r @ fold (\<lambda>(s, act). apply_recv f act (?m s)) (recvs (P r ! k)) (sync f P t k r) @ post r"
    using fold_shift [of "recvs (P r ! k)" "sync f P t k r" ?m f "pre r" "post r"] src mlen len [OF Suc.prems(2)] lens Suc.prems(2) by simp
  finally show ?case by (simp only: sync.simps)
qed simp

section \<open>A sequence of exchanges\<close>

text \<open>An exchange with the contents of its tensor on every rank before and after, and what makes it correct on its own.\<close>

record 'a phase =
  ph_program :: "nat \<Rightarrow> round list"
  ph_rounds :: nat
  ph_send_first :: bool
  ph_size :: "nat \<Rightarrow> nat"
  ph_before :: "nat \<Rightarrow> 'a list"
  ph_after :: "nat \<Rightarrow> 'a list"

definition phase_ok :: "('a \<Rightarrow> 'a \<Rightarrow> 'a) \<Rightarrow> nat \<Rightarrow> 'a phase \<Rightarrow> bool" where
  "phase_ok f world ph \<longleftrightarrow>
     matched world (ph_rounds ph) (ph_size ph) (ph_program ph) \<and>
     (\<forall>r < world. length (ph_before ph r) = ph_size ph r \<and> sync f (ph_program ph) (ph_before ph) (ph_rounds ph) r = ph_after ph r)"

text \<open>The programs of a rank, with the sizes of their tensors, one after the other over tensors side by side from position \<open>d\<close> on.\<close>

fun in_order :: "nat \<Rightarrow> (nat \<times> round list) list \<Rightarrow> round list" where
  "in_order d [] = []"
| "in_order d ((n, p) # ps) = map (shift_round d) p @ in_order (d + n) ps"

definition side_by_side :: "('a phase \<Rightarrow> nat \<Rightarrow> 'a list) \<Rightarrow> 'a phase list \<Rightarrow> nat \<Rightarrow> 'a list" where
  "side_by_side sel phs r = concat (map (\<lambda>ph. sel ph r) phs)"

definition sequence_program :: "'a phase list \<Rightarrow> nat \<Rightarrow> round list" where
  "sequence_program phs r = in_order 0 (map (\<lambda>ph. (ph_size ph r, ph_program ph r)) phs)"

lemma phase_ok_lengths:
  assumes "phase_ok f world ph" and "r < world"
  shows "length (ph_before ph r) = ph_size ph r" and "length (ph_after ph r) = ph_size ph r"
  using assms round_protocol.length_sync [OF round_protocol.intro, of world "ph_rounds ph" "ph_size ph" "ph_program ph" "ph_before ph" "ph_rounds ph" r f]
  by (auto simp: phase_ok_def)

lemma in_order_sync:
  assumes "\<forall>ph \<in> set phs. phase_ok f world ph" and "\<forall>r < world. length (pre r) = d r"
  shows "matched world (sum_list (map ph_rounds phs)) (\<lambda>r. d r + sum_list (map (\<lambda>ph. ph_size ph r) phs))
           (\<lambda>r. in_order (d r) (map (\<lambda>ph. (ph_size ph r, ph_program ph r)) phs)) \<and>
    (\<forall>r < world. sync f (\<lambda>r. in_order (d r) (map (\<lambda>ph. (ph_size ph r, ph_program ph r)) phs)) (\<lambda>r. pre r @ side_by_side ph_before phs r)
         (sum_list (map ph_rounds phs)) r = pre r @ side_by_side ph_after phs r)"
  using assms
proof (induction phs arbitrary: pre d)
  case Nil
  then show ?case by (simp add: matched_def side_by_side_def)
next
  case (Cons ph phs)
  let ?n = "\<lambda>r. d r + sum_list (map (\<lambda>ph. ph_size ph r) (ph # phs))" and ?N = "ph_rounds ph" and ?M = "sum_list (map ph_rounds phs)"
  let ?P = "shift_program d (ph_program ph)" and ?d = "\<lambda>r. d r + ph_size ph r"
  let ?Q = "\<lambda>r. in_order (?d r) (map (\<lambda>ph. (ph_size ph r, ph_program ph r)) phs)"
  have ok: "phase_ok f world ph" using Cons.prems by simp
  note len = phase_ok_lengths [OF ok]
  have P: "matched world ?N ?n ?P" using ok by (intro matched_shift [of world _ "ph_size ph"]) (auto simp: phase_ok_def)
  have "\<forall>r < world. length (pre r @ ph_after ph r) = ?d r" using Cons.prems len by simp
  from Cons.IH [OF _ this] Cons.prems(1)
  have Q: "matched world ?M ?n ?Q" and
    rest: "\<forall>r < world. sync f ?Q (\<lambda>r. (pre r @ ph_after ph r) @ side_by_side ph_before phs r) ?M r = (pre r @ ph_after ph r) @ side_by_side ph_after phs r"
    by (simp_all add: add.assoc)
  have first: "sync f ?P (\<lambda>r. pre r @ ph_before ph r @ side_by_side ph_before phs r) ?N r = pre r @ ph_after ph r @ side_by_side ph_before phs r" if "r < world" for r
    using sync_shift [of world ?N "ph_size ph" "ph_program ph" pre d "ph_before ph" ?N r f] ok Cons.prems(2) that by (simp add: phase_ok_def)
  have "sync f (\<lambda>r. ?P r @ ?Q r) (\<lambda>r. pre r @ ph_before ph r @ side_by_side ph_before phs r) (?N + ?M) r = pre r @ ph_after ph r @ side_by_side ph_after phs r"
    if "r < world" for r
  proof -
    have "sync f (\<lambda>r. ?P r @ ?Q r) (\<lambda>r. pre r @ ph_before ph r @ side_by_side ph_before phs r) (?N + ?M) r =
        sync f ?Q (sync f ?P (\<lambda>r. pre r @ ph_before ph r @ side_by_side ph_before phs r) ?N) ?M r"
      by (rule sync_append [OF P Q order_refl that])
    also have "\<dots> = sync f ?Q (\<lambda>r. (pre r @ ph_after ph r) @ side_by_side ph_before phs r) ?M r"
      using first by (intro sync_cong [OF Q _ _ order_refl that]) simp_all
    finally show ?thesis using rest that by simp
  qed
  with matched_append [OF P Q] show ?case by (simp add: shift_program_def side_by_side_def)
qed

lemma sequence_matched:
  assumes "\<forall>ph \<in> set phs. phase_ok f world ph"
  shows "matched world (sum_list (map ph_rounds phs)) (\<lambda>r. sum_list (map (\<lambda>ph. ph_size ph r) phs)) (sequence_program phs)"
    and "r < world \<Longrightarrow> sync f (sequence_program phs) (side_by_side ph_before phs) (sum_list (map ph_rounds phs)) r = side_by_side ph_after phs r"
  using in_order_sync [OF assms, of "\<lambda>_. []" "\<lambda>_. 0"] by (simp_all add: sequence_program_def [abs_def])

lemma side_by_side_length:
  "\<forall>ph \<in> set phs. phase_ok f world ph \<Longrightarrow> r < world \<Longrightarrow> length (side_by_side ph_before phs r) = sum_list (map (\<lambda>ph. ph_size ph r) phs)"
  by (induction phs) (auto simp: side_by_side_def phase_ok_lengths)

text \<open>An exchange that is known to compute is a phase.\<close>

lemma phaseI:
  assumes "matched world N n P" and "\<forall>r < world. length (init r) = n r" and "mesh_computes f P world N init result"
  shows "phase_ok f world \<lparr>ph_program = P, ph_rounds = N, ph_send_first = b, ph_size = n, ph_before = init, ph_after = result\<rparr>"
  using assms round_protocol.computes_unique [OF round_protocol.intro [OF assms(1)] assms(2, 3)] by (simp add: phase_ok_def)

text \<open>The rounds in which a thread per peer sends before it receives, and the condition under which they do not block.\<close>

definition send_first_rounds :: "'a phase list \<Rightarrow> bool list" where
  "send_first_rounds phs = concat (map (\<lambda>ph. replicate (ph_rounds ph) (ph_send_first ph)) phs)"

definition phase_fits :: "nat \<Rightarrow> nat \<Rightarrow> 'a phase \<Rightarrow> bool" where
  "phase_fits cap world ph \<longleftrightarrow> send_room (\<lambda>_. ph_send_first ph) cap (ph_program ph) world (ph_rounds ph)"

lemma in_order_room:
  assumes "\<forall>ph \<in> set phs. phase_ok f world ph \<and> phase_fits cap world ph"
  shows "send_room ((!) (send_first_rounds phs)) cap (\<lambda>r. in_order (d r) (map (\<lambda>ph. (ph_size ph r, ph_program ph r)) phs)) world (sum_list (map ph_rounds phs))"
  using assms
proof (induction phs arbitrary: d)
  case (Cons ph phs)
  let ?Q = "\<lambda>r. in_order (d r + ph_size ph r) (map (\<lambda>ph. (ph_size ph r, ph_program ph r)) phs)" and ?N = "ph_rounds ph"
  have len: "length (ph_program ph r) = ?N" if "r < world" for r using Cons.prems that by (simp add: phase_ok_def matched_def)
  have fst: "ph_send_first ph \<longrightarrow> send_len (ph_program ph a ! k) b \<le> cap \<or> send_len (ph_program ph b ! k) a \<le> cap"
    if "k < ?N" "a < world" "b < world" for a b k
    using Cons.prems that by (simp add: phase_fits_def send_room_def)
  have rest: "send_first_rounds phs ! (k - ?N) \<longrightarrow> send_len (?Q a ! (k - ?N)) b \<le> cap \<or> send_len (?Q b ! (k - ?N)) a \<le> cap"
    if "\<not> k < ?N" "k < ?N + sum_list (map ph_rounds phs)" "a < world" "b < world" for a b k
    using Cons.IH [of "\<lambda>r. d r + ph_size ph r"] Cons.prems that by (simp add: send_room_def)
  show ?case
    using fst rest len by (auto simp: send_room_def send_first_rounds_def nth_append)
qed (simp add: send_room_def)

lemma sequence_bounded:
  assumes "\<forall>ph \<in> set phs. phase_ok f world ph \<and> phase_fits cap world ph" and "0 < cap"
  shows "bounded_computes ((!) (send_first_rounds phs)) cap f (sequence_program phs) world (sum_list (map ph_rounds phs))
    (side_by_side ph_before phs) (side_by_side ph_after phs)"
proof -
  have ok: "\<forall>ph \<in> set phs. phase_ok f world ph" using assms(1) by blast
  have "send_room ((!) (send_first_rounds phs)) cap (sequence_program phs) world (sum_list (map ph_rounds phs))"
    using in_order_room [OF assms(1), of "\<lambda>_. 0"] by (simp add: sequence_program_def [abs_def])
  from round_protocol.bounded_sync [OF round_protocol.intro [OF sequence_matched(1) [OF ok]] assms(2) this] show ?thesis
    using sequence_matched(2) [OF ok] side_by_side_length [OF ok] by blast
qed

lemma sequence_computes:
  assumes "\<forall>ph \<in> set phs. phase_ok f world ph"
  shows "computes_over_sockets f (sequence_program phs) world (sum_list (map ph_rounds phs)) (side_by_side ph_before phs) (side_by_side ph_after phs)"
  using round_protocol.sockets_sync [OF round_protocol.intro [OF sequence_matched(1) [OF assms]]] sequence_matched(2) [OF assms]
    side_by_side_length [OF assms] by blast

text \<open>The exchanges of a list of tensors, which leave the same contents on every rank.\<close>

lemma indexed_sequence:
  assumes "\<And>k. k < m \<Longrightarrow> matched world (N k) (\<lambda>_. n k) (P k)" and "\<And>k. k < m \<Longrightarrow> \<forall>r < world. length (init k r) = n k"
    and "\<And>k. k < m \<Longrightarrow> mesh_computes f (P k) world (N k) (init k) (\<lambda>_. result k)"
  shows "computes_over_sockets f (\<lambda>r. in_order 0 (zip (map n [0..<m]) (map (\<lambda>k. P k r) [0..<m]))) world (sum_list (map N [0..<m]))
    (\<lambda>r. concat (map (\<lambda>k. init k r) [0..<m])) (\<lambda>_. concat (map result [0..<m]))"
proof -
  define phs where "phs = map (\<lambda>k. \<lparr>ph_program = P k, ph_rounds = N k, ph_send_first = False, ph_size = (\<lambda>_. n k),
      ph_before = init k, ph_after = (\<lambda>_. result k)\<rparr>) [0..<m]"
  have ok: "\<forall>ph \<in> set phs. phase_ok f world ph" unfolding phs_def using phaseI [OF assms] by fastforce
  have "map (\<lambda>ph. (ph_size ph r, ph_program ph r)) phs = zip (map n [0..<m]) (map (\<lambda>k. P k r) [0..<m])" for r
    by (rule nth_equalityI) (simp_all add: phs_def)
  moreover have "side_by_side ph_before phs = (\<lambda>r. concat (map (\<lambda>k. init k r) [0..<m]))" "side_by_side ph_after phs = (\<lambda>_. concat (map result [0..<m]))"
      "map ph_rounds phs = map N [0..<m]"
    by (auto simp: side_by_side_def phs_def o_def)
  ultimately show ?thesis using sequence_computes [OF ok] by (simp add: sequence_program_def [abs_def])
qed

end
