(* ===== verification/Reduction.thy ===== *)
theory Reduction
  imports Prelude
begin

text \<open>
  Element-wise reduction. The Metal kernels apply a binary operation to two elements; which one is
  chosen by the reduce operation (\<open>select_op_pipeline\<close>, \<open>csrc/metal/MetalKernels.mm\<close>). Floating
  point addition is not associative, so results are first stated for an arbitrary operation, in
  the exact order in which the code combines the ranks; the locale \<open>reduce_op\<close> adds the laws under
  which that order does not matter, and is interpreted on the operations of the program over
  exact numbers.
\<close>

datatype RedOpType = RedSUM | RedAVG | RedMIN | RedMAX | RedPRODUCT

text \<open>The kernel of each operation, on exact numbers: \<open>RedAVG\<close> accumulates and is scaled at the end.\<close>

fun reduce_fn :: "RedOpType \<Rightarrow> 'a::linordered_idom \<Rightarrow> 'a \<Rightarrow> 'a" where
  "reduce_fn RedSUM = (+)"
| "reduce_fn RedAVG = (+)"
| "reduce_fn RedMIN = min"
| "reduce_fn RedMAX = max"
| "reduce_fn RedPRODUCT = (*)"

text \<open>Reduction of a non-empty list, left to right.\<close>

definition reduce_list :: "('a \<Rightarrow> 'a \<Rightarrow> 'a) \<Rightarrow> 'a list \<Rightarrow> 'a" where
  "reduce_list f xs = foldl f (hd xs) (tl xs)"

text \<open>The reference result at element \<open>i\<close>: the contributions of ranks \<open>0, \<dots>, world - 1\<close> in order.\<close>

definition rank_reduce :: "('a \<Rightarrow> 'a \<Rightarrow> 'a) \<Rightarrow> (nat \<Rightarrow> 'a list) \<Rightarrow> nat \<Rightarrow> nat \<Rightarrow> 'a" where
  "rank_reduce f init world i = reduce_list f (map (\<lambda>r. init r ! i) [0..<world])"

lemma reduce_list_snoc: "xs \<noteq> [] \<Longrightarrow> reduce_list f (xs @ [x]) = f (reduce_list f xs) x"
  by (cases xs) (simp_all add: reduce_list_def)

lemma reduce_list_single [simp]: "reduce_list f [x] = x"
  by (simp add: reduce_list_def)

locale reduce_semigroup =
  fixes f :: "'a \<Rightarrow> 'a \<Rightarrow> 'a"
  assumes assoc: "f (f x y) z = f x (f y z)"
begin

lemma reduce_list_append:
  "xs \<noteq> [] \<Longrightarrow> ys \<noteq> [] \<Longrightarrow> reduce_list f (xs @ ys) = f (reduce_list f xs) (reduce_list f ys)"
proof (induction ys rule: rev_induct)
  case (snoc y ys)
  then show ?case
    by (cases "ys = []") (simp_all add: reduce_list_snoc assoc flip: append_assoc)
qed simp

end

locale reduce_op = reduce_semigroup +
  assumes comm: "f x y = f y x"
begin

lemma left_comm: "f x (f y z) = f y (f x z)"
  by (metis assoc comm)

lemma reduce_list_Cons: "xs \<noteq> [] \<Longrightarrow> reduce_list f (x # xs) = f x (reduce_list f xs)"
  using reduce_list_append [of "[x]" xs] by simp

lemma reduce_list_remove1:
  "x \<in> set xs \<Longrightarrow> remove1 x xs \<noteq> [] \<Longrightarrow> reduce_list f xs = f x (reduce_list f (remove1 x xs))"
proof (induction xs)
  case (Cons y xs)
  show ?case
  proof (cases "x = y")
    case False
    with Cons.prems have x: "x \<in> set xs" by simp
    show ?thesis
    proof (cases "remove1 x xs = []")
      case True
      with x have "xs = [x]" by (cases xs) (auto split: if_splits)
      with False show ?thesis by (simp add: reduce_list_Cons comm)
    next
      case False': False
      moreover have "xs \<noteq> []" using x by auto
      ultimately show ?thesis
        using Cons.IH [OF x] False by (simp add: reduce_list_Cons left_comm)
    qed
  qed (use Cons.prems in \<open>simp add: reduce_list_Cons\<close>)
qed simp

text \<open>The order of the contributions does not matter.\<close>

lemma reduce_list_mset: "mset xs = mset ys \<Longrightarrow> xs \<noteq> [] \<Longrightarrow> reduce_list f xs = reduce_list f ys"
proof (induction xs arbitrary: ys)
  case (Cons x xs)
  have x: "x \<in> set ys" using Cons.prems(1) by (metis list.set_intros(1) set_mset_mset)
  have rest: "mset xs = mset (remove1 x ys)" using Cons.prems(1) by (simp flip: Cons.prems(1))
  show ?case
  proof (cases "xs = []")
    case True
    with Cons.prems(1) have "ys = [x]" by (simp add: mset_single_iff_right)
    with True show ?thesis by simp
  next
    case False
    then have "remove1 x ys \<noteq> []" using rest by (metis mset_zero_iff)
    with x False Cons.IH [OF rest False] show ?thesis
      by (simp add: reduce_list_Cons reduce_list_remove1)
  qed
qed simp

end

interpretation kernel: reduce_op "reduce_fn op :: 'a::linordered_idom \<Rightarrow> _" for op
  by unfold_locales (cases op; simp add: ac_simps)+

section \<open>The contract of an allreduce\<close>

text \<open>
  What every rank holds at element \<open>i\<close> after an allreduce, over exact numbers.
\<close>

fun allreduce_spec :: "RedOpType \<Rightarrow> (nat \<Rightarrow> 'a::linordered_field list) \<Rightarrow> nat \<Rightarrow> nat \<Rightarrow> 'a" where
  "allreduce_spec RedSUM init world i = (\<Sum>r < world. init r ! i)"
| "allreduce_spec RedAVG init world i = (\<Sum>r < world. init r ! i) / of_nat world"
| "allreduce_spec RedMIN init world i = Min ((\<lambda>r. init r ! i) ` {..<world})"
| "allreduce_spec RedMAX init world i = Max ((\<lambda>r. init r ! i) ` {..<world})"
| "allreduce_spec RedPRODUCT init world i = (\<Prod>r < world. init r ! i)"

text \<open>The final scaling, common to the three algorithms (\<open>metal_scale_inplace_view\<close>).\<close>

definition scale_inplace :: "RedOpType \<Rightarrow> nat \<Rightarrow> 'a::linordered_field list \<Rightarrow> 'a list" where
  "scale_inplace op world t = (if op = RedAVG then map (\<lambda>x. x * (1 / of_nat world)) t else t)"

lemma rank_reduce_Suc:
  "0 < world \<Longrightarrow> rank_reduce f init (Suc world) i = f (rank_reduce f init world i) (init world ! i)"
  by (simp add: rank_reduce_def reduce_list_snoc)

lemma rank_reduce_one: "rank_reduce f init (Suc 0) i = init 0 ! i"
  by (simp add: rank_reduce_def)

lemma rank_reduce_fold:
  assumes "0 < world" and "g (Suc 0) = init 0 ! i" and "\<And>w. 0 < w \<Longrightarrow> g (Suc w) = f (g w) (init w ! i)"
  shows "rank_reduce f init world i = g world"
  using assms(1)
proof (induction world rule: nat_induct_non_zero)
  case 1
  then show ?case using assms(2) by (simp add: rank_reduce_one)
next
  case (Suc w)
  then show ?case using assms(3) by (simp add: rank_reduce_Suc)
qed

lemma rank_reduce_spec:
  assumes "0 < world"
  shows "scale_inplace op world (map (rank_reduce (reduce_fn op) init world) is) =
         map (allreduce_spec op init world) is"
proof -
  have sum: "rank_reduce (+) init world i = (\<Sum>r < world. init r ! i)" for i
    by (rule rank_reduce_fold [OF assms]) simp_all
  have prod: "rank_reduce (*) init world i = (\<Prod>r < world. init r ! i)" for i
    by (rule rank_reduce_fold [OF assms]) simp_all
  have mi: "rank_reduce min init world i = Min ((\<lambda>r. init r ! i) ` {..<world})" for i
    by (rule rank_reduce_fold [OF assms]) (simp_all add: lessThan_Suc Min_insert min.commute lessThan_empty_iff)
  have ma: "rank_reduce max init world i = Max ((\<lambda>r. init r ! i) ` {..<world})" for i
    by (rule rank_reduce_fold [OF assms]) (simp_all add: lessThan_Suc Max_insert max.commute lessThan_empty_iff)
  show ?thesis by (cases op) (simp_all add: scale_inplace_def sum prod mi ma)
qed

end
