(* ===== verification/Allreduce_Ring.thy ===== *)
theory Allreduce_Ring
  imports Complex_Main Sequencing Reduction
begin

text \<open>
  Chunking and the ring allreduce of \<open>csrc/backend/AllreduceAlgos.cpp\<close>. Ranks, chunk indices and
  element counts are natural numbers: the code adds \<open>world\<close> before each subtraction, so none of the
  intermediate values is negative, and element counts are 32-bit values held in \<open>int64_t\<close>.
\<close>

section \<open>Chunks\<close>

record ChunkInfo =
  elem_start :: nat
  elem_count :: nat
  byte_off :: nat
  byte_len :: nat

definition chunk_per :: "nat \<Rightarrow> nat \<Rightarrow> nat" where
  "chunk_per numel world = (numel + world - 1) div world"

definition chunkize :: "nat \<Rightarrow> nat \<Rightarrow> nat \<Rightarrow> ChunkInfo list" where
  "chunkize numel elem_size world =
     (let per = chunk_per numel world in
      map (\<lambda>i. let s = min (i * per) numel; e = min ((i + 1) * per) numel in
             \<lparr>elem_start = s, elem_count = e - s, byte_off = s * elem_size, byte_len = (e - s) * elem_size\<rparr>)
          [0..<world])"

lemma chunk_per_cover:
  assumes "0 < world"
  shows "numel \<le> world * chunk_per numel world"
proof -
  let ?m = "(numel + world - 1) mod world"
  have "?m < world" using assms by simp
  moreover have "world * chunk_per numel world + ?m = numel + world - 1"
    by (simp only: chunk_per_def mult_div_mod_eq)
  ultimately show ?thesis by linarith
qed

lemma length_chunkize [simp]: "length (chunkize numel es world) = world"
  by (simp add: chunkize_def Let_def)

lemma chunkize_nth:
  "c < world \<Longrightarrow> elem_start (chunkize numel es world ! c) = min (c * chunk_per numel world) numel"
  "c < world \<Longrightarrow> elem_count (chunkize numel es world ! c) =
     min (Suc c * chunk_per numel world) numel - min (c * chunk_per numel world) numel"
  by (simp_all add: chunkize_def Let_def)

lemma chunk_bound:
  "c < world \<Longrightarrow> elem_start (chunkize numel es world ! c) + elem_count (chunkize numel es world ! c) \<le> numel"
  by (simp add: chunkize_nth)

definition chunk_of :: "nat \<Rightarrow> nat \<Rightarrow> nat \<Rightarrow> nat" where
  "chunk_of numel world i = i div chunk_per numel world"

lemma chunk_of_less:
  assumes "i < numel" and "0 < world"
  shows "chunk_of numel world i < world"
proof -
  have "i < world * chunk_per numel world" using assms chunk_per_cover [of world numel] by simp
  then show ?thesis unfolding chunk_of_def by (rule less_mult_imp_div_less)
qed

text \<open>Element \<open>i\<close> lies in exactly one chunk, the one of index \<open>i div per\<close>.\<close>

lemma in_chunk_iff:
  assumes i: "i < numel" and c: "c < world"
  shows "elem_start (chunkize numel es world ! c) \<le> i \<and>
         i < elem_start (chunkize numel es world ! c) + elem_count (chunkize numel es world ! c)
         \<longleftrightarrow> chunk_of numel world i = c"
proof -
  let ?p = "chunk_per numel world"
  have p: "0 < ?p" using i c chunk_per_cover [of world numel] by (auto intro: gr0I)
  have "chunk_of numel world i = c \<longleftrightarrow> c * ?p \<le> i \<and> i < Suc c * ?p"
    unfolding chunk_of_def using div_eq_iff_interval [OF p] by (simp add: add.commute)
  then show ?thesis using i c by (auto simp: chunkize_nth min_def not_le)
qed

section \<open>The ring program of a rank\<close>

text \<open>
  Round \<open>k\<close> of the reduce-scatter phase and of the allgather phase of \<open>allreduce_ring\<close>: one send to
  the next rank on a helper thread, one receive from the previous rank, joined.
\<close>

definition ring_reduce_round :: "ChunkInfo list \<Rightarrow> nat \<Rightarrow> nat \<Rightarrow> nat \<Rightarrow> round" where
  "ring_reduce_round chunks rank world k =
     (let nxt = (rank + 1) mod world;
          prv = (rank + world - 1) mod world;
          s = chunks ! ((rank + world - k) mod world);
          r = chunks ! ((rank + world - k - 1) mod world) in
      \<lparr>sends = [(nxt, elem_start s, elem_count s)],
       recvs = [(prv, ReduceInto (elem_start r) (elem_count r))]\<rparr>)"

definition ring_gather_round :: "ChunkInfo list \<Rightarrow> nat \<Rightarrow> nat \<Rightarrow> nat \<Rightarrow> round" where
  "ring_gather_round chunks rank world k =
     (let nxt = (rank + 1) mod world;
          prv = (rank + world - 1) mod world;
          s = chunks ! ((rank + world - k + 1) mod world);
          r = chunks ! ((rank + world - k) mod world) in
      \<lparr>sends = [(nxt, elem_start s, elem_count s)],
       recvs = [(prv, StoreAt (elem_start r) (elem_count r))]\<rparr>)"

definition ring_program :: "nat \<Rightarrow> nat \<Rightarrow> nat \<Rightarrow> nat \<Rightarrow> round list" where
  "ring_program numel esize world rank =
     (let chunks = chunkize numel esize world in
      map (ring_reduce_round chunks rank world) [0..<world - 1] @
      map (ring_gather_round chunks rank world) [0..<world - 1])"

text \<open>The precondition that \<open>allreduce_ring\<close> checks, and the program it then runs.\<close>

definition allreduce_ring :: "nat \<Rightarrow> nat \<Rightarrow> nat \<Rightarrow> nat \<Rightarrow> mccl_error + round list" where
  "allreduce_ring numel esize world rank =
     (if world \<le> numel then Inr (ring_program numel esize world rank)
      else Inl (MCCLError ''ring allreduce: numel must be >= world''))"

section \<open>Positions on the ring\<close>

lemma mod_next: "r < w \<Longrightarrow> Suc r mod w = (if Suc r = w then 0 else Suc r)" for r w :: nat
  by auto

lemma mod_back: "r < w \<Longrightarrow> d \<le> w \<Longrightarrow> (r + w - d) mod w = (if d \<le> r then r - d else r + w - d)" for r w d :: nat
  by (auto simp: mod_if)

lemma mod_back_next:
  "r < w \<Longrightarrow> d < w \<Longrightarrow> Suc (r + w - d) mod w = (if d \<le> r then (if d = 0 \<and> Suc r = w then 0 else Suc r - d)
      else if d = Suc r then 0 else Suc r + w - d)" for r w d :: nat
  by (auto simp: mod_if)

lemmas ring_arith = mod_next mod_back mod_back_next

lemma ring_neighbour:
  "r < w \<Longrightarrow> q < w \<Longrightarrow> (r + 1) mod w = q \<longleftrightarrow> (q + w - 1) mod w = r" for r w q :: nat
  by (simp add: ring_arith) arith

lemma ring_program_nth:
  "k < world - 1 \<Longrightarrow> ring_program numel es world r ! k = ring_reduce_round (chunkize numel es world) r world k"
  "k < world - 1 \<Longrightarrow> ring_program numel es world r ! (world - 1 + k) =
     ring_gather_round (chunkize numel es world) r world k"
  by (simp_all add: ring_program_def Let_def nth_append)

text \<open>What the sender hands over in a round is what the receiver expects, at the same offset.\<close>

lemma ring_indices_match:
  assumes "r < (world :: nat)" and "q = (r + 1) mod world" and "k < world - 1"
  shows "(q + world - k - 1) mod world = (r + world - k) mod world"
    and "(q + world - k) mod world = (r + world - k + 1) mod world"
  using mod_add_left_eq [of "r + 1" world "world - k - 1"] mod_add_left_eq [of "r + 1" world "world - k"] assms
  by (simp_all add: add.commute Suc_diff_Suc)

lemma ring_exchange:
  assumes "\<And>r. r < world \<Longrightarrow> sends (R r) = [((r + 1) mod world, elem_start (chunk r), elem_count (chunk r))]"
    and "\<And>q. q < world \<Longrightarrow> recvs (R q) = [((q + world - 1) mod world, act q)]"
    and "\<And>r. r < world \<Longrightarrow> act_off (act ((r + 1) mod world)) = elem_start (chunk r)"
    and "\<And>r. r < world \<Longrightarrow> act_len (act ((r + 1) mod world)) = elem_count (chunk r)"
    and "\<And>r. r < world \<Longrightarrow> elem_start (chunk r) + elem_count (chunk r) \<le> numel"
  shows "exchange_ok world numel R"
  unfolding exchange_ok_def
proof (intro allI impI conjI)
  fix r assume r: "r < world"
  have "act_off (act r) + act_len (act r) \<le> numel"
    using assms(3-5) [of "(r + world - 1) mod world"] ring_neighbour [of "(r + world - 1) mod world" world r] r
    by simp
  then show "wf_round world numel (R r)" using r assms(5) [OF r] by (simp add: wf_round_def assms(1,2))
  fix q assume q: "q < world"
  show "map_of (sends (R r)) q = map_option (\<lambda>act. (act_off act, act_len act)) (map_of (recvs (R q)) r)"
    using ring_neighbour [OF r q] r q assms(3,4) [OF r] by (auto simp: assms(1,2))
qed

lemma ring_reduce_exchange:
  assumes k: "k < world - 1"
  shows "exchange_ok world numel (\<lambda>r. ring_reduce_round (chunkize numel es world) r world k)"
  using k ring_indices_match(1) [OF _ refl k]
  by (intro ring_exchange) (auto simp: ring_reduce_round_def Let_def intro: chunk_bound)

lemma ring_gather_exchange:
  assumes k: "k < world - 1"
  shows "exchange_ok world numel (\<lambda>r. ring_gather_round (chunkize numel es world) r world k)"
  using k ring_indices_match(2) [OF _ refl k]
  by (intro ring_exchange) (auto simp: ring_gather_round_def Let_def intro: chunk_bound)

interpretation ring: aligned_protocol "ring_program numel es world" world "2 * (world - 1)" numel
  for numel es world
proof (rule aligned_protocolI)
  show "length (ring_program numel es world r) = 2 * (world - 1)" for r
    by (simp add: ring_program_def Let_def)
  show "exchange_ok world numel (\<lambda>r. ring_program numel es world r ! k)" if k: "k < 2 * (world - 1)" for k
  proof (cases "k < world - 1")
    case True
    then show ?thesis by (simp add: ring_program_nth(1) ring_reduce_exchange)
  next
    case False
    then obtain j where "k = world - 1 + j" "j < world - 1"
      using k by (metis add_less_cancel_left le_Suc_ex linorder_not_le mult_2)
    then show ?thesis by (simp only: ring_program_nth(2) ring_gather_exchange)
  qed
qed

section \<open>What the ring computes\<close>

text \<open>How many ring steps rank \<open>r\<close> is after rank \<open>c\<close>.\<close>

definition ring_dist :: "nat \<Rightarrow> nat \<Rightarrow> nat \<Rightarrow> nat" where
  "ring_dist w c r = (if c \<le> r then r - c else r + w - c)"

lemma ring_dist_facts:
  assumes "r < w" and "c < w"
  shows "ring_dist w c r < w"
    and "ring_dist w c c = 0"
    and "ring_dist w c r = 0 \<Longrightarrow> r = c"
    and "0 < ring_dist w c r \<Longrightarrow> ring_dist w c ((r + w - 1) mod w) = ring_dist w c r - 1"
    and "(c + ring_dist w c r) mod w = r"
  using assms mod_back [of r w 1] by (auto simp: ring_dist_def split: if_splits)

lemma ring_dist_index:
  "r < w \<Longrightarrow> c < w \<Longrightarrow> k < w \<Longrightarrow> (r + w - k) mod w = c \<longleftrightarrow> ring_dist w c r = k"
  using mod_back [of r w k] by (auto simp: ring_dist_def)

text \<open>
  The partial result that travels round the ring with chunk \<open>c\<close>: it starts as the contribution of
  rank \<open>c\<close>, and each next rank combines its own contribution with what it receives.
\<close>

fun ring_acc :: "('a \<Rightarrow> 'a \<Rightarrow> 'a) \<Rightarrow> (nat \<Rightarrow> 'a) \<Rightarrow> nat \<Rightarrow> nat \<Rightarrow> nat \<Rightarrow> 'a" where
  "ring_acc f x w c 0 = x c"
| "ring_acc f x w c (Suc d) = f (x ((c + Suc d) mod w)) (ring_acc f x w c d)"

lemma ring_reduce_step:
  assumes init: "\<forall>r < world. length (init r) = numel" and k: "k < world - 1" and r: "r < world" and i: "i < numel"
  shows "sync f (ring_program numel es world) init (Suc k) r ! i =
    (if ring_dist world (chunk_of numel world i) r = Suc k
     then f (sync f (ring_program numel es world) init k r ! i)
            (sync f (ring_program numel es world) init k ((r + world - 1) mod world) ! i)
     else sync f (ring_program numel es world) init k r ! i)"
proof -
  let ?j = "(r + world - k - 1) mod world"
  have "?j < world" using r by simp
  moreover have "?j = chunk_of numel world i \<longleftrightarrow> ring_dist world (chunk_of numel world i) r = Suc k"
    using ring_dist_index [OF r chunk_of_less [OF i], of "Suc k"] k by simp
  ultimately show ?thesis
    using ring.sync_nth [OF init, of k r i f es] k r i in_chunk_iff [OF i, of ?j world es]
    by (simp add: ring_program_nth(1)) (simp add: ring_reduce_round_def Let_def eq_commute)
qed

lemma ring_gather_step:
  assumes init: "\<forall>r < world. length (init r) = numel" and k: "k < world - 1" and r: "r < world" and i: "i < numel"
  shows "sync f (ring_program numel es world) init (Suc (world - 1 + k)) r ! i =
    (if ring_dist world (chunk_of numel world i) r = k
     then sync f (ring_program numel es world) init (world - 1 + k) ((r + world - 1) mod world) ! i
     else sync f (ring_program numel es world) init (world - 1 + k) r ! i)"
proof -
  let ?j = "(r + world - k) mod world"
  have "?j < world" using r by simp
  moreover have "?j = chunk_of numel world i \<longleftrightarrow> ring_dist world (chunk_of numel world i) r = k"
    using ring_dist_index [OF r chunk_of_less [OF i], of k] k by simp
  moreover have "ring_program numel es world r ! (world - 1 + k) =
      ring_gather_round (chunkize numel es world) r world k"
    using k by (rule ring_program_nth(2))
  ultimately show ?thesis
    using ring.sync_nth [OF init, of "world - 1 + k" r i f es] k r i in_chunk_iff [OF i, of ?j world es]
    by (simp add: ring_gather_round_def Let_def eq_commute)
qed

text \<open>After \<open>k\<close> reduce rounds the partial result of a chunk has reached the ranks within distance \<open>k\<close>.\<close>

lemma ring_reduce_phase:
  assumes init: "\<forall>r < world. length (init r) = numel" and i: "i < numel"
  defines "c \<equiv> chunk_of numel world i"
  shows "k \<le> world - 1 \<Longrightarrow> r < world \<Longrightarrow>
    sync f (ring_program numel es world) init k r ! i =
      (if ring_dist world c r \<le> k then ring_acc f (\<lambda>q. init q ! i) world c (ring_dist world c r) else init r ! i)"
proof (induction k arbitrary: r)
  case 0
  have "c < world" using chunk_of_less [OF i] 0 by (simp add: c_def)
  then show ?case using ring_dist_facts(3) [of r world c] 0 by auto
next
  case (Suc k)
  have c: "c < world" using chunk_of_less [OF i] Suc.prems by (simp add: c_def)
  note d = ring_dist_facts [OF Suc.prems(2) c]
  have step: "sync f (ring_program numel es world) init (Suc k) r ! i =
    (if ring_dist world c r = Suc k
     then f (sync f (ring_program numel es world) init k r ! i)
            (sync f (ring_program numel es world) init k ((r + world - 1) mod world) ! i)
     else sync f (ring_program numel es world) init k r ! i)"
    using ring_reduce_step [OF init _ Suc.prems(2) i] Suc.prems(1) unfolding c_def by simp
  show ?case
  proof (cases "ring_dist world c r = Suc k")
    case True
    have prev: "ring_dist world c ((r + world - 1) mod world) = k" using d(4) True by simp
    have "(r + world - 1) mod world < world" using Suc.prems(2) by simp
    with Suc.IH [of "(r + world - 1) mod world"] Suc.IH [of r] Suc.prems d(5) True prev step
    show ?thesis by simp
  next
    case False
    with Suc.IH [of r] Suc.prems step show ?thesis by auto
  qed
qed

text \<open>After \<open>k\<close> gather rounds the full result has reached the owner and the \<open>k\<close> ranks after it.\<close>

lemma ring_gather_phase:
  assumes init: "\<forall>r < world. length (init r) = numel" and i: "i < numel"
  defines "c \<equiv> chunk_of numel world i"
  shows "k \<le> world - 1 \<Longrightarrow> r < world \<Longrightarrow> ring_dist world c r = world - 1 \<or> ring_dist world c r < k \<Longrightarrow>
    sync f (ring_program numel es world) init (world - 1 + k) r ! i =
      ring_acc f (\<lambda>q. init q ! i) world c (world - 1)"
proof (induction k arbitrary: r)
  case 0
  then show ?case using ring_reduce_phase [OF init i, of "world - 1" r f es] by (auto simp: c_def)
next
  case (Suc k)
  have c: "c < world" using chunk_of_less [OF i] Suc.prems by (simp add: c_def)
  note d = ring_dist_facts [OF Suc.prems(2) c]
  have step: "sync f (ring_program numel es world) init (world - 1 + Suc k) r ! i =
    (if ring_dist world c r = k
     then sync f (ring_program numel es world) init (world - 1 + k) ((r + world - 1) mod world) ! i
     else sync f (ring_program numel es world) init (world - 1 + k) r ! i)"
    using ring_gather_step [OF init _ Suc.prems(2) i] Suc.prems(1) unfolding c_def by simp
  show ?case
  proof (cases "ring_dist world c r = k")
    case True
    let ?p = "(r + world - 1) mod world"
    have p: "?p < world" using Suc.prems(2) by simp
    have "ring_dist world c ?p = world - 1 \<or> ring_dist world c ?p < k"
    proof (cases "k = 0")
      case True
      with \<open>ring_dist world c r = k\<close> d(3) have "r = c" by simp
      then show ?thesis using mod_back [of c world 1] c by (auto simp: ring_dist_def)
    next
      case False
      then show ?thesis using d(4) True by simp
    qed
    then show ?thesis using Suc.IH [OF _ p] Suc.prems(1) step True by simp
  next
    case False
    then show ?thesis using Suc step by (simp add: less_Suc_eq)
  qed
qed

lemma ring_result:
  assumes "\<forall>r < world. length (init r) = numel" and "i < numel" and "r < world"
  shows "sync f (ring_program numel es world) init (2 * (world - 1)) r ! i =
         ring_acc f (\<lambda>q. init q ! i) world (chunk_of numel world i) (world - 1)"
  using ring_gather_phase [OF assms(1,2), of "world - 1" r f es]
    ring_dist_facts(1) [OF assms(3) chunk_of_less [OF assms(2)]] assms
  by (simp add: mult_2) linarith

text \<open>
  Under the laws of a reduce operation the order in which the ranks are met does not matter.
\<close>

context reduce_op
begin

lemma ring_acc_list:
  "ring_acc f x w c d = reduce_list f (map (\<lambda>j. x ((c + j) mod w)) (rev [1..<Suc d]) @ [x c])"
proof (induction d)
  case (Suc d)
  then show ?case using reduce_list_Cons by simp
qed simp

lemma ring_acc_all:
  assumes "c < w"
  shows "ring_acc f x w c (w - 1) = reduce_list f (map x [0..<w])"
proof -
  have "map (\<lambda>j. (c + j) mod w) [0..<w] = rotate c [0..<w]"
    using assms by (auto intro!: nth_equalityI simp: nth_rotate)
  then have "mset (map (\<lambda>j. (c + j) mod w) [0..<w]) = mset [0..<w]"
    using set_eq_iff_mset_eq_distinct [of "rotate c [0..<w]" "[0..<w]"] by simp
  moreover have "[0..<w] = 0 # [1..<Suc (w - 1)]" using assms by (simp add: upt_rec)
  ultimately have "mset (map (\<lambda>j. (c + j) mod w) (rev [1..<Suc (w - 1)]) @ [c]) = mset [0..<w]"
    using assms by (simp del: upt_Suc)
  then have "mset (map (\<lambda>j. x ((c + j) mod w)) (rev [1..<Suc (w - 1)]) @ [x c]) = mset (map x [0..<w])"
    by (metis (no_types, lifting) list.map(1) list.map(2) list.map_comp map_append map_cong mset_map o_apply)
  then show ?thesis unfolding ring_acc_list by (rule reduce_list_mset) simp
qed

end

section \<open>Correctness\<close>

text \<open>
  The contract of an allreduce program: sends and receives match, and the ranks together, over sockets of any size, compute one buffer, the same on every
  rank, which the final scaling turns into the result of the operation.
\<close>

definition mesh_allreduce ::
  "RedOpType \<Rightarrow> (nat \<Rightarrow> round list) \<Rightarrow> nat \<Rightarrow> nat \<Rightarrow> nat \<Rightarrow> (nat \<Rightarrow> 'a::linordered_field list) \<Rightarrow> bool" where
  "mesh_allreduce op P world N numel init \<longleftrightarrow>
     matched world N (\<lambda>_. numel) P \<and>
     (\<exists>result. computes_over_sockets (reduce_fn op) P world N init (\<lambda>_. result) \<and>
        scale_inplace op world result = map (allreduce_spec op init world) [0..<numel])"

lemma mesh_allreduceI:
  assumes "0 < world" and "matched world N (\<lambda>_. numel) P"
    and "computes_over_sockets (reduce_fn op) P world N init (\<lambda>_. map (rank_reduce (reduce_fn op) init world) [0..<numel])"
  shows "mesh_allreduce op P world N numel init"
  unfolding mesh_allreduce_def using assms rank_reduce_spec [OF assms(1)] by blast

lemma ring_computes:
  assumes "\<forall>r < world. length (init r) = numel"
  shows "computes_over_sockets f (ring_program numel es world) world (2 * (world - 1)) init
     (\<lambda>_. map (\<lambda>i. ring_acc f (\<lambda>q. init q ! i) world (chunk_of numel world i) (world - 1)) [0..<numel])"
  by (rule ring.sockets_nth [OF assms ring_result [OF assms]])

lemma allreduce_ring_total:
  fixes init :: "nat \<Rightarrow> 'a::linordered_field list"
  assumes "0 < world" and "world \<le> numel" and "\<forall>r < world. length (init r) = numel"
  shows "\<exists>P. (\<forall>r. allreduce_ring numel esize world r = Inr (P r)) \<and>
             mesh_allreduce op P world (2 * (world - 1)) numel init"
proof -
  have "rank_reduce (reduce_fn op) init world i =
      ring_acc (reduce_fn op) (\<lambda>q. init q ! i) world (chunk_of numel world i) (world - 1)" if "i < numel" for i
    unfolding rank_reduce_def kernel.ring_acc_all [OF chunk_of_less [OF that assms(1)]] ..
  then have "map (rank_reduce (reduce_fn op) init world) [0..<numel] =
      map (\<lambda>i. ring_acc (reduce_fn op) (\<lambda>q. init q ! i) world (chunk_of numel world i) (world - 1)) [0..<numel]"
    by simp
  then have "mesh_allreduce op (ring_program numel esize world) world (2 * (world - 1)) numel init"
    using mesh_allreduceI [OF assms(1) ring.matched] ring_computes [OF assms(3)] by metis
  with assms(2) show ?thesis by (auto simp: allreduce_ring_def)
qed

text \<open>
  C3. The ring allreduce is correct. For every world size and tensor of at least \<open>world\<close> elements,
  \<open>allreduce_ring\<close> passes its check, and under every interleaving of the ranks and with socket buffers of any size the exchange ends,
  after exactly \<open>2 (world - 1)\<close> rounds on every rank, with the sum, average, minimum, maximum or
  product over the ranks in every element of every rank's tensor.
\<close>

theorem allreduce_ring_correct:
  fixes init :: "nat \<Rightarrow> 'a::linordered_field list"
  assumes "0 < world" and "world \<le> numel" and "\<forall>r < world. length (init r) = numel"
  shows "\<exists>P. (\<forall>r. allreduce_ring numel esize world r = Inr (P r)) \<and>
             mesh_allreduce op P world (2 * (world - 1)) numel init"
  by (rule allreduce_ring_total [OF assms])

theorem allreduce_ring_correct_witness:
  "\<exists>P. (\<forall>r. allreduce_ring 3 4 2 r = Inr (P r)) \<and>
       mesh_allreduce RedAVG P 2 2 3 (\<lambda>r. if r = 0 then [1, 2, 3] else [5, 6, 7 :: rat])"
  using allreduce_ring_correct [of 2 3 "\<lambda>r. if r = 0 then [1, 2, 3] else [5, 6, 7 :: rat]" 4 RedAVG] by simp

text \<open>
  C6. The ranks agree exactly, whatever the arithmetic: for an arbitrary element operation, not
  associative ones such as floating-point addition included, and with socket buffers of any size, the ring ends with one and the same
  buffer on every rank, in which chunk \<open>c\<close> was combined in the order \<open>c, c + 1, \<dots>\<close> around the ring.
\<close>

theorem allreduce_ring_agree:
  assumes "\<forall>r < world. length (init r) = numel"
  shows "computes_over_sockets f (ring_program numel esize world) world (2 * (world - 1)) init
     (\<lambda>_. map (\<lambda>i. ring_acc f (\<lambda>q. init q ! i) world (chunk_of numel world i) (world - 1)) [0..<numel])"
  by (rule ring_computes [OF assms])

theorem allreduce_ring_agree_witness:
  "computes_over_sockets (\<lambda>x y. 2 * x - y) (ring_program 3 4 2) 2 2 (\<lambda>r. if r = 0 then [1, 2, 3] else [5, 6, 7 :: int])
     (\<lambda>_. map (\<lambda>i. ring_acc (\<lambda>x y. 2 * x - y) (\<lambda>q. (if q = 0 then [1, 2, 3] else [5, 6, 7]) ! i) 2
                  (chunk_of 3 2 i) 1) [0..<3])"
  using allreduce_ring_agree [of 2 "\<lambda>r. if r = 0 then [1, 2, 3] else [5, 6, 7 :: int]" 3 "\<lambda>x y. 2 * x - y" 4]
  by (simp del: upt_Suc)

text \<open>
  The chunks partition the tensor: every element lies in exactly one chunk, each chunk starts
  where the one before ends, byte offsets and lengths are the element ones times the element size,
  and no chunk is larger than the \<open>per\<close> elements of receive scratch that \<open>allreduce\<close> allocates.
\<close>

theorem chunkize_partition:
  assumes "0 < world"
  shows "(i < numel \<longrightarrow> (\<exists>!c. c < world \<and> elem_start (chunkize numel es world ! c) \<le> i \<and>
            i < elem_start (chunkize numel es world ! c) + elem_count (chunkize numel es world ! c))) \<and>
     (Suc c < world \<longrightarrow> elem_start (chunkize numel es world ! Suc c) =
        elem_start (chunkize numel es world ! c) + elem_count (chunkize numel es world ! c)) \<and>
     (c < world \<longrightarrow> byte_off (chunkize numel es world ! c) = elem_start (chunkize numel es world ! c) * es \<and>
        byte_len (chunkize numel es world ! c) = elem_count (chunkize numel es world ! c) * es \<and>
        elem_count (chunkize numel es world ! c) \<le> chunk_per numel world)"
proof (intro conjI impI)
  assume i: "i < numel"
  show "\<exists>!c. c < world \<and> elem_start (chunkize numel es world ! c) \<le> i \<and>
            i < elem_start (chunkize numel es world ! c) + elem_count (chunkize numel es world ! c)"
    using in_chunk_iff [OF i] chunk_of_less [OF i assms] by metis
qed (simp_all add: chunkize_nth, simp_all add: chunkize_def Let_def)

theorem chunkize_partition_witness:
  "\<exists>!c. c < 4 \<and> elem_start (chunkize 10 4 4 ! c) \<le> 7 \<and>
        7 < elem_start (chunkize 10 4 4 ! c) + elem_count (chunkize 10 4 4 ! c)"
  using chunkize_partition [of 4 7 10 4 0] by simp

end
