(* ===== verification/Allreduce_Tree.thy ===== *)
theory Allreduce_Tree
  imports Allreduce_Ring
begin

text \<open>
  The tree allreduce of \<open>csrc/backend/AllreduceAlgos.cpp\<close>: a binomial reduction towards rank 0 and a
  binomial broadcast back, with the loops over bit masks as the code has them. A rank that has left
  the first loop (\<open>break\<close>) idles through the remaining masks.
\<close>

section \<open>The program of a rank\<close>

function tree_reduce_rounds :: "nat \<Rightarrow> nat \<Rightarrow> nat \<Rightarrow> nat \<Rightarrow> bool \<Rightarrow> round list" where
  "tree_reduce_rounds numel rank world msk active =
     (if 0 < msk \<and> msk < world then
        if \<not> active then idle # tree_reduce_rounds numel rank world (push_bit 1 msk) active
        else if rank AND msk \<noteq> 0 then
          \<lparr>sends = [(rank - msk, 0, numel)], recvs = []\<rparr> # tree_reduce_rounds numel rank world (push_bit 1 msk) False
        else let src = rank + msk in
          (if src < world then \<lparr>sends = [], recvs = [(src, ReduceInto 0 numel)]\<rparr> else idle) #
          tree_reduce_rounds numel rank world (push_bit 1 msk) active
      else [])"
  by pat_completeness auto
termination
  by (relation "measure (\<lambda>(numel, rank, world, msk, active). world - msk)") (auto simp: push_bit_eq_mult)

function top_mask :: "nat \<Rightarrow> nat \<Rightarrow> nat" where
  "top_mask msk world = (if 0 < msk \<and> msk * 2 < world then top_mask (push_bit 1 msk) world else msk)"
  by pat_completeness auto
termination
  by (relation "measure (\<lambda>(msk, world). world - msk)") (auto simp: push_bit_eq_mult)

definition tree_bcast_round :: "nat \<Rightarrow> nat \<Rightarrow> nat \<Rightarrow> nat \<Rightarrow> round" where
  "tree_bcast_round numel rank world msk =
     (let twomask = push_bit 1 msk in
      if rank mod twomask = 0 \<and> rank + msk < world
      then \<lparr>sends = [(rank + msk, 0, numel)], recvs = []\<rparr>
      else if rank mod twomask = msk
      then \<lparr>sends = [], recvs = [(rank - msk, StoreAt 0 numel)]\<rparr>
      else idle)"

function tree_bcast_rounds :: "nat \<Rightarrow> nat \<Rightarrow> nat \<Rightarrow> nat \<Rightarrow> round list" where
  "tree_bcast_rounds numel rank world msk =
     (if 1 \<le> msk then tree_bcast_round numel rank world msk #
        tree_bcast_rounds numel rank world (drop_bit 1 msk) else [])"
  by pat_completeness auto
termination
  by (relation "measure (\<lambda>(numel, rank, world, msk). msk)") (auto simp: drop_bit_eq_div)

definition tree_program :: "nat \<Rightarrow> nat \<Rightarrow> nat \<Rightarrow> round list" where
  "tree_program numel world rank =
     tree_reduce_rounds numel rank world 1 True @ tree_bcast_rounds numel rank world (top_mask 1 world)"

text \<open>\<open>allreduce_tree\<close> has no precondition.\<close>

definition allreduce_tree :: "nat \<Rightarrow> nat \<Rightarrow> nat \<Rightarrow> mccl_error + round list" where
  "allreduce_tree numel world rank = Inr (tree_program numel world rank)"

declare tree_reduce_rounds.simps [simp del] top_mask.simps [simp del] tree_bcast_rounds.simps [simp del]

section \<open>The rounds by level\<close>

text \<open>The number of levels of the tree: the binary logarithm of \<open>world\<close>, rounded up.\<close>

fun tree_depth :: "nat \<Rightarrow> nat" where
  "tree_depth world = (if world \<le> 1 then 0 else Suc (tree_depth ((world + 1) div 2)))"

declare tree_depth.simps [simp del]

lemma less_tree_depth: "j < tree_depth world \<longleftrightarrow> 2 ^ j < world"
proof (induction world arbitrary: j rule: tree_depth.induct)
  case (1 world)
  show ?case
  proof (cases "world \<le> 1")
    case True
    then have "\<not> 2 ^ j < world" by (simp add: not_less order_trans [of world 1])
    with True show ?thesis by (simp add: tree_depth.simps [of world])
  next
    case False
    with 1 [of "j - 1"] show ?thesis by (cases j) (auto simp: tree_depth.simps [of world])
  qed
qed

lemma world_le_depth: "world \<le> 2 ^ tree_depth world"
  using less_tree_depth [of "tree_depth world" world] by simp

definition reduce_round :: "nat \<Rightarrow> nat \<Rightarrow> nat \<Rightarrow> nat \<Rightarrow> round" where
  "reduce_round numel rank world j =
     (if rank mod 2 ^ Suc j = 2 ^ j then \<lparr>sends = [(rank - 2 ^ j, 0, numel)], recvs = []\<rparr>
      else if rank mod 2 ^ Suc j = 0 \<and> rank + 2 ^ j < world
      then \<lparr>sends = [], recvs = [(rank + 2 ^ j, ReduceInto 0 numel)]\<rparr>
      else idle)"

lemma mod_level:
  "rank mod 2 ^ Suc j = (if odd (rank div 2 ^ j) then 2 ^ j else 0) + rank mod (2 ^ j :: nat)"
  using mod_mult2_eq [of rank "2 ^ j" 2] by (auto simp: mult.commute odd_iff_mod_2_eq_one)

lemma and_mask: "rank AND 2 ^ j = (0 :: nat) \<longleftrightarrow> even (rank div 2 ^ j)"
  by (simp add: and_exp_eq_0_iff_not_bit bit_iff_odd)

lemma level_cases:
  fixes rank :: nat
  shows "rank mod 2 ^ j \<noteq> 0 \<Longrightarrow> rank mod 2 ^ Suc j \<noteq> 2 ^ j \<and> rank mod 2 ^ Suc j \<noteq> 0"
    and "rank mod 2 ^ j = 0 \<Longrightarrow> rank mod 2 ^ Suc j = 2 ^ j \<longleftrightarrow> odd (rank div 2 ^ j)"
    and "rank mod 2 ^ j = 0 \<Longrightarrow> rank mod 2 ^ Suc j = 0 \<longleftrightarrow> even (rank div 2 ^ j)"
proof -
  have "rank mod 2 ^ j \<noteq> 2 ^ j" by (metis less_irrefl mod_less_divisor zero_less_numeral zero_less_power)
  then show "rank mod 2 ^ j \<noteq> 0 \<Longrightarrow> rank mod 2 ^ Suc j \<noteq> 2 ^ j \<and> rank mod 2 ^ Suc j \<noteq> 0"
    by (auto simp: mod_level simp del: power_Suc)
qed (auto simp: mod_level simp del: power_Suc)

lemma tree_reduce_rounds_levels:
  "tree_reduce_rounds numel rank world (2 ^ j) (rank mod 2 ^ j = 0) =
     map (reduce_round numel rank world) [j..<tree_depth world]"
proof (induction "tree_depth world - j" arbitrary: j)
  case 0
  then have "\<not> 2 ^ j < world" by (simp flip: less_tree_depth)
  with 0 show ?case by (simp add: tree_reduce_rounds.simps)
next
  case (Suc d)
  then have j: "j < tree_depth world" by simp
  then have less: "2 ^ j < world" by (simp add: less_tree_depth)
  have IH: "tree_reduce_rounds numel rank world (2 ^ j * 2) (rank mod 2 ^ Suc j = 0) =
      map (reduce_round numel rank world) [Suc j..<tree_depth world]"
    using Suc.hyps(1) [of "Suc j"] Suc.hyps(2) by (simp add: mult.commute)
  have upt: "[j..<tree_depth world] = j # [Suc j..<tree_depth world]" using j by (simp add: upt_conv_Cons)
  consider "rank mod 2 ^ j \<noteq> 0" | "rank mod 2 ^ j = 0" "odd (rank div 2 ^ j)"
    | "rank mod 2 ^ j = 0" "even (rank div 2 ^ j)" by blast
  then show ?case
  proof cases
    case 1
    with level_cases(1) [OF 1] IH less show ?thesis
      by (subst tree_reduce_rounds.simps) (simp add: upt push_bit_eq_mult reduce_round_def del: power_Suc)
  next
    case 2
    with level_cases(2) [of rank j] IH less show ?thesis
      by (subst tree_reduce_rounds.simps) (simp add: upt push_bit_eq_mult reduce_round_def and_mask del: power_Suc)
  next
    case 3
    with level_cases(2,3) [of rank j] IH less show ?thesis
      by (subst tree_reduce_rounds.simps) (simp add: upt push_bit_eq_mult reduce_round_def and_mask Let_def del: power_Suc)
  qed
qed

text \<open>The broadcast runs through \<open>tree_depth world\<close> masks as well (one, idle, for a single rank).\<close>

definition bcast_depth :: "nat \<Rightarrow> nat" where
  "bcast_depth world = max 1 (tree_depth world)"

lemma top_mask_level: "j < bcast_depth world \<Longrightarrow> top_mask (2 ^ j) world = 2 ^ (bcast_depth world - 1)"
proof (induction "bcast_depth world - 1 - j" arbitrary: j)
  case 0
  then have "\<not> Suc j < tree_depth world" by (auto simp: bcast_depth_def)
  then have "\<not> 2 ^ j * 2 < world" by (simp add: less_tree_depth mult.commute)
  moreover have "bcast_depth world - 1 = j" using 0 by simp
  ultimately show ?case by (subst top_mask.simps) auto
next
  case (Suc d)
  then have "Suc j < tree_depth world" by (auto simp: bcast_depth_def max_def split: if_splits)
  then have less: "2 ^ j * 2 < world" by (simp add: less_tree_depth mult.commute)
  have "top_mask (2 ^ j * 2) world = 2 ^ (bcast_depth world - 1)"
    using Suc.hyps(1) [of "Suc j"] Suc.hyps(2) by (simp add: mult.commute)
  then show ?case using less by (subst top_mask.simps) (simp add: push_bit_eq_mult)
qed

lemma tree_bcast_rounds_levels:
  "tree_bcast_rounds numel rank world (2 ^ j) =
     map (\<lambda>l. tree_bcast_round numel rank world (2 ^ l)) (rev [0..<Suc j])"
proof (induction j)
  case 0
  show ?case
    by (subst tree_bcast_rounds.simps) (simp add: tree_bcast_rounds.simps [of _ _ _ 0])
next
  case (Suc j)
  have "drop_bit 1 (2 ^ Suc j) = (2 ^ j :: nat)" by (simp add: drop_bit_eq_div)
  with Suc show ?case by (subst tree_bcast_rounds.simps) simp
qed

lemma tree_program_levels:
  "tree_program numel world rank =
     map (reduce_round numel rank world) [0..<tree_depth world] @
     map (\<lambda>l. tree_bcast_round numel rank world (2 ^ l)) (rev [0..<bcast_depth world])"
proof -
  have b: "0 < bcast_depth world" by (simp add: bcast_depth_def)
  then have "Suc (bcast_depth world - 1) = bcast_depth world" by simp
  then show ?thesis
    using tree_reduce_rounds_levels [of numel rank world 0] top_mask_level [OF b]
      tree_bcast_rounds_levels [of numel rank world "bcast_depth world - 1"]
    by (simp add: tree_program_def del: upt_Suc)
qed

lemma tree_program_nth:
  "k < tree_depth world \<Longrightarrow> tree_program numel world rank ! k = reduce_round numel rank world k"
  "k < bcast_depth world \<Longrightarrow> tree_program numel world rank ! (tree_depth world + k) =
     tree_bcast_round numel rank world (2 ^ (bcast_depth world - Suc k))"
  by (simp_all add: tree_program_levels nth_append rev_nth)

section \<open>Matching\<close>

text \<open>At level \<open>j\<close>, ranks are paired: \<open>lo\<close>, a multiple of \<open>2 ^ (j + 1)\<close>, with \<open>lo + 2 ^ j\<close>.\<close>

lemma tree_pair:
  assumes m: "0 < (m :: nat)" and "r < w" and "q < w"
  shows "r mod (2 * m) = m \<and> q = r - m \<longleftrightarrow> q mod (2 * m) = 0 \<and> q + m < w \<and> r = q + m"
proof
  assume h: "r mod (2 * m) = m \<and> q = r - m"
  have "m \<le> r" using h mod_less_eq_dividend [of r "2 * m"] by simp
  moreover have "(r - m) mod (2 * m) = 0" using h by (metis mod_0_imp_dvd dvd_minus_mod mod_eq_0_iff_dvd)
  ultimately show "q mod (2 * m) = 0 \<and> q + m < w \<and> r = q + m" using h assms by auto
next
  assume h: "q mod (2 * m) = 0 \<and> q + m < w \<and> r = q + m"
  have "(q + m) mod (2 * m) = m" using h m by (metis add_0 less_add_same_cancel1 mod_add_left_eq mod_less mult_2)
  with h show "r mod (2 * m) = m \<and> q = r - m" by simp
qed

lemma reduce_round_messages:
  "map_of (sends (reduce_round numel r world j)) q =
     (if r mod (2 * 2 ^ j) = 2 ^ j \<and> q = r - 2 ^ j then Some (0, numel) else None)"
  "map_of (recvs (reduce_round numel q world j)) r =
     (if q mod (2 * 2 ^ j) = 0 \<and> q + 2 ^ j < world \<and> r = q + 2 ^ j then Some (ReduceInto 0 numel) else None)"
  by (simp_all add: reduce_round_def idle_def)

lemma bcast_round_messages:
  "map_of (sends (tree_bcast_round numel q world (2 ^ j))) r =
     (if q mod (2 * 2 ^ j) = 0 \<and> q + 2 ^ j < world \<and> r = q + 2 ^ j then Some (0, numel) else None)"
  "map_of (recvs (tree_bcast_round numel r world (2 ^ j))) q =
     (if r mod (2 * 2 ^ j) = 2 ^ j \<and> q = r - 2 ^ j then Some (StoreAt 0 numel) else None)"
  by (simp_all add: tree_bcast_round_def idle_def Let_def push_bit_eq_mult mult.commute)

lemma reduce_round_exchange: "exchange_ok world numel (\<lambda>r. reduce_round numel r world j)"
proof -
  have "wf_round world numel (reduce_round numel r world j)" if "r < world" for r
    using that by (simp add: wf_round_def reduce_round_def idle_def)
  then show ?thesis
    using tree_pair [of "2 ^ j" _ world] by (simp add: exchange_ok_def reduce_round_messages)
qed

lemma bcast_round_exchange: "exchange_ok world numel (\<lambda>r. tree_bcast_round numel r world (2 ^ j))"
proof -
  have "wf_round world numel (tree_bcast_round numel r world (2 ^ j))" if "r < world" for r
    using that by (simp add: wf_round_def tree_bcast_round_def idle_def Let_def less_imp_diff_less)
  then show ?thesis
    using tree_pair [of "2 ^ j" _ world] by (simp add: exchange_ok_def bcast_round_messages)
qed

interpretation tree: aligned_protocol "tree_program numel world" world "tree_depth world + bcast_depth world" numel
  for numel world
proof (rule aligned_protocolI)
  show "length (tree_program numel world r) = tree_depth world + bcast_depth world" for r
    by (simp add: tree_program_levels)
  show "exchange_ok world numel (\<lambda>r. tree_program numel world r ! k)"
    if "k < tree_depth world + bcast_depth world" for k
  proof (cases "k < tree_depth world")
    case True
    then show ?thesis by (simp add: tree_program_nth(1) reduce_round_exchange)
  next
    case False
    then obtain l where "k = tree_depth world + l" by (metis le_Suc_ex not_less)
    with that show ?thesis by (simp add: tree_program_nth(2) bcast_round_exchange)
  qed
qed

section \<open>What the tree computes\<close>

text \<open>The value at the root \<open>r\<close> of a subtree of depth \<open>j\<close>.\<close>

fun tree_acc :: "('a \<Rightarrow> 'a \<Rightarrow> 'a) \<Rightarrow> (nat \<Rightarrow> 'a) \<Rightarrow> nat \<Rightarrow> nat \<Rightarrow> nat \<Rightarrow> 'a" where
  "tree_acc f x w r 0 = x r"
| "tree_acc f x w r (Suc j) =
     (if r + 2 ^ j < w then f (tree_acc f x w r j) (tree_acc f x w (r + 2 ^ j) j) else tree_acc f x w r j)"

lemma multiple_level: "r mod 2 ^ Suc j = 0 \<Longrightarrow> r mod 2 ^ j = (0 :: nat)"
  using level_cases(1) [of r j] by argo

lemma tree_reduce_phase:
  assumes init: "\<forall>r < world. length (init r) = numel" and i: "i < numel"
  shows "j \<le> tree_depth world \<Longrightarrow> r < world \<Longrightarrow> r mod 2 ^ j = 0 \<Longrightarrow>
    sync f (tree_program numel world) init j r ! i = tree_acc f (\<lambda>q. init q ! i) world r j"
proof (induction j arbitrary: r)
  case (Suc j)
  have r: "r mod 2 ^ j = 0" by (rule multiple_level [OF Suc.prems(3)])
  then have "(r + 2 ^ j) mod 2 ^ j = 0" by simp
  moreover have "recvs (tree_program numel world r ! j) =
      (if r + 2 ^ j < world then [(r + 2 ^ j, ReduceInto 0 numel)] else [])"
    using Suc.prems by (simp add: tree_program_nth(1) reduce_round_def idle_def)
  moreover have "r + 2 ^ j < world \<Longrightarrow> sync f (tree_program numel world) init j (r + 2 ^ j) ! i =
      tree_acc f (\<lambda>q. init q ! i) world (r + 2 ^ j) j"
    using Suc.IH [of "r + 2 ^ j"] Suc.prems(1) calculation(1) by simp
  moreover have "sync f (tree_program numel world) init j r ! i = tree_acc f (\<lambda>q. init q ! i) world r j"
    using Suc.IH [of r] Suc.prems(1,2) r by simp
  ultimately show ?case
    using tree.sync_nth [OF init _ Suc.prems(2) i, of j f] Suc.prems(1) i by simp
qed simp

lemma tree_bcast_phase:
  assumes init: "\<forall>r < world. length (init r) = numel" and i: "i < numel"
  shows "k \<le> bcast_depth world \<Longrightarrow> r < world \<Longrightarrow> r mod 2 ^ (bcast_depth world - k) = 0 \<Longrightarrow>
    sync f (tree_program numel world) init (tree_depth world + k) r ! i =
      tree_acc f (\<lambda>q. init q ! i) world 0 (tree_depth world)"
proof (induction k arbitrary: r)
  case 0
  have "2 ^ tree_depth world \<le> (2 :: nat) ^ bcast_depth world" by (simp add: bcast_depth_def)
  then have "r < 2 ^ bcast_depth world" using world_le_depth [of world] 0 by linarith
  then have "r = 0" using 0 by simp
  then show ?case using tree_reduce_phase [OF init i, of "tree_depth world" 0 f] 0 by simp
next
  case (Suc k)
  let ?l = "bcast_depth world - Suc k"
  have l: "bcast_depth world - k = Suc ?l" using Suc.prems by simp
  have rec: "recvs (tree_program numel world r ! (tree_depth world + k)) =
      (if r mod 2 ^ Suc ?l = 2 ^ ?l then [(r - 2 ^ ?l, StoreAt 0 numel)] else [])"
    using Suc.prems by (simp add: tree_program_nth(2) tree_bcast_round_def idle_def Let_def push_bit_eq_mult mult.commute)
  have step: "sync f (tree_program numel world) init (tree_depth world + Suc k) r ! i =
      (if r mod 2 ^ Suc ?l = 2 ^ ?l then sync f (tree_program numel world) init (tree_depth world + k) (r - 2 ^ ?l) ! i
       else sync f (tree_program numel world) init (tree_depth world + k) r ! i)"
    using tree.sync_nth [OF init _ Suc.prems(2) i, of "tree_depth world + k" f] Suc.prems(1) rec i by simp
  show ?case
  proof (cases "r mod 2 ^ Suc ?l = 2 ^ ?l")
    case True
    have "(r - 2 ^ ?l) mod 2 ^ Suc ?l = 0 \<and> r - 2 ^ ?l < world"
      using tree_pair [of "2 ^ ?l" r world "r - 2 ^ ?l"] True Suc.prems(2) by (simp add: less_imp_diff_less)
    then show ?thesis using Suc.IH [of "r - 2 ^ ?l"] Suc.prems(1) step True l by simp
  next
    case False
    then have "r mod 2 ^ Suc ?l = 0" using level_cases(2,3) [OF Suc.prems(3)] by blast
    then show ?thesis using Suc.IH [of r] Suc.prems(1,2) step False l by simp
  qed
qed

lemma tree_computes:
  assumes "\<forall>r < world. length (init r) = numel"
  shows "computes_over_sockets f (tree_program numel world) world (tree_depth world + bcast_depth world) init
     (\<lambda>_. map (\<lambda>i. tree_acc f (\<lambda>q. init q ! i) world 0 (tree_depth world)) [0..<numel])"
proof (rule tree.sockets_nth [OF assms])
  fix r i assume "r < world" "i < numel"
  then show "sync f (tree_program numel world) init (tree_depth world + bcast_depth world) r ! i =
      tree_acc f (\<lambda>q. init q ! i) world 0 (tree_depth world)"
    using tree_bcast_phase [OF assms, of i "bcast_depth world" r f] by simp
qed

context reduce_semigroup
begin

text \<open>Associativity alone makes the tree the reduction in rank order.\<close>

lemma tree_acc_list: "r < w \<Longrightarrow> tree_acc f x w r j = reduce_list f (map x [r..<min (r + 2 ^ j) w])"
proof (induction j arbitrary: r)
  case (Suc j)
  show ?case
  proof (cases "r + 2 ^ j < w")
    case True
    let ?m = "min (r + 2 ^ j + 2 ^ j) w"
    have "min (r + 2 ^ j) w = r + 2 ^ j" using True by simp
    moreover have "[r..<?m] = [r..<r + 2 ^ j] @ [r + 2 ^ j..<?m]"
      using True upt_add_eq_append [of r "r + 2 ^ j" "?m - (r + 2 ^ j)"] by simp
    moreover have "[r..<r + 2 ^ j] \<noteq> []" "[r + 2 ^ j..<?m] \<noteq> []" using True by (auto simp: min_def)
    ultimately show ?thesis using True Suc.IH [OF Suc.prems] Suc.IH [OF True]
      by (simp add: reduce_list_append mult_2 add.assoc)
  next
    case False
    then show ?thesis using Suc by simp
  qed
qed (simp add: upt_conv_Cons)

end

section \<open>Correctness\<close>

lemma allreduce_tree_total:
  fixes init :: "nat \<Rightarrow> 'a::linordered_field list"
  assumes "0 < world" and "\<forall>r < world. length (init r) = numel"
  shows "\<exists>P. (\<forall>r. allreduce_tree numel world r = Inr (P r)) \<and>
             mesh_allreduce op P world (tree_depth world + bcast_depth world) numel init"
proof -
  have "tree_acc (reduce_fn op) (\<lambda>q. init q ! i) world 0 (tree_depth world) = rank_reduce (reduce_fn op) init world i" for i
    unfolding kernel.tree_acc_list [OF assms(1)] using world_le_depth [of world]
    by (simp add: rank_reduce_def min_absorb2)
  then have "mesh_allreduce op (tree_program numel world) world (tree_depth world + bcast_depth world) numel init"
    using mesh_allreduceI [OF assms(1) tree.matched] tree_computes [OF assms(2), of "reduce_fn op"] by simp
  then show ?thesis by (auto simp: allreduce_tree_def)
qed

text \<open>
  C4. The tree allreduce is correct for every world size, powers of two or not, and every tensor:
  under every interleaving and with socket buffers of any size it ends with the result of the operation over all ranks in every rank's
  tensor.
\<close>

theorem allreduce_tree_correct:
  fixes init :: "nat \<Rightarrow> 'a::linordered_field list"
  assumes "0 < world" and "\<forall>r < world. length (init r) = numel"
  shows "\<exists>P. (\<forall>r. allreduce_tree numel world r = Inr (P r)) \<and>
             mesh_allreduce op P world (tree_depth world + bcast_depth world) numel init"
  by (rule allreduce_tree_total [OF assms])

theorem allreduce_tree_correct_witness:
  "\<exists>P. (\<forall>r. allreduce_tree 2 3 r = Inr (P r)) \<and>
       mesh_allreduce RedMAX P 3 (tree_depth 3 + bcast_depth 3) 2 (\<lambda>r. [of_nat r, 3 - of_nat r :: rat])"
  using allreduce_tree_correct [of 3 "\<lambda>r. [of_nat r, 3 - of_nat r :: rat]" 2 RedMAX] by simp

text \<open>
  The ranks agree exactly after a tree allreduce, for an arbitrary element operation, and every
  rank runs \<open>2 \<lceil>log\<^sub>2 world\<rceil>\<close> rounds when there are at least two ranks.
\<close>

theorem allreduce_tree_agree:
  assumes "\<forall>r < world. length (init r) = numel"
  shows "computes_over_sockets f (tree_program numel world) world (tree_depth world + bcast_depth world) init
       (\<lambda>_. map (\<lambda>i. tree_acc f (\<lambda>q. init q ! i) world 0 (tree_depth world)) [0..<numel]) \<and>
     (1 < world \<longrightarrow> tree_depth world + bcast_depth world = 2 * nat \<lceil>log 2 (real world)\<rceil>)"
proof -
  have "int (tree_depth world) = \<lceil>log 2 (real world)\<rceil>" if w: "1 < world"
  proof -
    have pos: "0 < tree_depth world" using w by (simp add: less_tree_depth)
    have "real world \<le> 2 ^ tree_depth world" using world_le_depth [of world] of_nat_mono by fastforce
    then have "log 2 (real world) \<le> tree_depth world" using w by (simp add: log_le_iff powr_realpow)
    moreover have "2 ^ (tree_depth world - 1) < real world"
      using less_tree_depth [of "tree_depth world - 1" world] pos by (simp flip: of_nat_less_iff)
    then have "real (tree_depth world - 1) < log 2 (real world)" using w by (simp add: less_log_iff powr_realpow)
    ultimately show ?thesis using pos by (intro ceiling_unique [symmetric]) (simp_all add: of_nat_diff)
  qed
  moreover have "bcast_depth world = tree_depth world" if "1 < world"
    using that less_tree_depth [of 0 world] by (simp add: bcast_depth_def)
  ultimately show ?thesis using tree_computes [OF assms] by (auto simp flip: mult_2)
qed

theorem allreduce_tree_agree_witness:
  "computes_over_sockets (\<lambda>x y. 2 * x - y) (tree_program 2 3) 3 (tree_depth 3 + bcast_depth 3) (\<lambda>r. [int r, 3 - int r])
     (\<lambda>_. map (\<lambda>i. tree_acc (\<lambda>x y. 2 * x - y) (\<lambda>q. [int q, 3 - int q] ! i) 3 0 (tree_depth 3)) [0..<2]) \<and>
   tree_depth 3 + bcast_depth 3 = 2 * nat \<lceil>log 2 (real 3)\<rceil>"
proof -
  have "\<forall>r < 3. length [int r, 3 - int r] = 2" and "1 < (3 :: nat)" by simp_all
  with allreduce_tree_agree [of 3 "\<lambda>r. [int r, 3 - int r]" 2 "\<lambda>x y. 2 * x - y"] show ?thesis by blast
qed

end
