(* ===== verification/Allreduce_Butterfly.thy ===== *)
theory Allreduce_Butterfly
  imports Allreduce_Ring
begin

text \<open>
  The full-mesh rounds, in which a rank exchanges one slice with every peer at once on helper
  threads, and the butterfly allreduce of \<open>csrc/backend/AllreduceAlgos.cpp\<close>, which consists of two of
  them. A layout gives the offset and length of the slice that each rank owns.
\<close>

section \<open>Full-mesh rounds\<close>

definition peers :: "nat \<Rightarrow> nat \<Rightarrow> nat list" where
  "peers world rank = filter (\<lambda>p. p \<noteq> rank) [0..<world]"

lemma set_peers [simp]: "set (peers world rank) = {p. p < world \<and> p \<noteq> rank}"
  by (auto simp: peers_def)

lemma distinct_peers [simp]: "distinct (peers world rank)"
  by (simp add: peers_def)

text \<open>Each rank sends every peer the peer's slice, and reduces what it receives into its own.\<close>

definition scatter_round :: "(nat \<Rightarrow> nat \<times> nat) \<Rightarrow> nat \<Rightarrow> nat \<Rightarrow> round" where
  "scatter_round lay world rank =
     \<lparr>sends = map (\<lambda>p. (p, lay p)) (peers world rank),
      recvs = map (\<lambda>p. (p, ReduceInto (fst (lay rank)) (snd (lay rank)))) (peers world rank)\<rparr>"

text \<open>Each rank sends its own slice to every peer, and stores the slices of the peers.\<close>

definition gather_round :: "(nat \<Rightarrow> nat \<times> nat) \<Rightarrow> nat \<Rightarrow> nat \<Rightarrow> round" where
  "gather_round lay world rank =
     \<lparr>sends = map (\<lambda>p. (p, lay rank)) (peers world rank),
      recvs = map (\<lambda>p. (p, StoreAt (fst (lay p)) (snd (lay p)))) (peers world rank)\<rparr>"

definition layout_ok :: "(nat \<Rightarrow> nat \<times> nat) \<Rightarrow> nat \<Rightarrow> nat \<Rightarrow> bool" where
  "layout_ok lay world n \<longleftrightarrow>
     (\<forall>p < world. fst (lay p) + snd (lay p) \<le> n) \<and>
     (\<forall>p < world. \<forall>q < world. p \<noteq> q \<longrightarrow>
        fst (lay p) + snd (lay p) \<le> fst (lay q) \<or> fst (lay q) + snd (lay q) \<le> fst (lay p) \<or>
        snd (lay p) = 0 \<or> snd (lay q) = 0)"

definition in_slice :: "(nat \<Rightarrow> nat \<times> nat) \<Rightarrow> nat \<Rightarrow> nat \<Rightarrow> bool" where
  "in_slice lay p i \<longleftrightarrow> fst (lay p) \<le> i \<and> i < fst (lay p) + snd (lay p)"

lemma in_slice_unique:
  "layout_ok lay world n \<Longrightarrow> p < world \<Longrightarrow> q < world \<Longrightarrow> in_slice lay p i \<Longrightarrow> in_slice lay q i \<Longrightarrow> p = q"
  by (fastforce simp: layout_ok_def in_slice_def)

lemma map_of_peers:
  "map_of (map (\<lambda>p. (p, g p)) (peers world rank)) q = (if q < world \<and> q \<noteq> rank then Some (g q) else None)"
  using map_of_map_restrict [of g "peers world rank"] by (simp add: restrict_map_def)

lemma scatter_exchange: "layout_ok lay world n \<Longrightarrow> exchange_ok world n (scatter_round lay world)"
  by (auto simp: exchange_ok_def scatter_round_def map_of_peers wf_round_def layout_ok_def o_def)

lemma gather_exchange: "layout_ok lay world n \<Longrightarrow> exchange_ok world n (gather_round lay world)"
  by (auto simp: exchange_ok_def gather_round_def map_of_peers wf_round_def layout_ok_def o_def)

lemma mesh_send_len:
  "send_len (scatter_round lay world r) q = (if q < world \<and> q \<noteq> r then snd (lay q) else 0)"
  "send_len (gather_round lay world r) q = (if q < world \<and> q \<noteq> r then snd (lay r) else 0)"
  by (simp_all add: send_len_def scatter_round_def gather_round_def map_of_peers case_prod_beta)

text \<open>What a rank's own slice becomes in a scatter round: its contribution, then the peers' in order.\<close>

definition slot_acc :: "('a \<Rightarrow> 'a \<Rightarrow> 'a) \<Rightarrow> (nat \<Rightarrow> 'a) \<Rightarrow> nat \<Rightarrow> nat \<Rightarrow> 'a" where
  "slot_acc f x world c = foldl f (x c) (map x (peers world c))"

lemma scatter_value:
  "fold (\<lambda>(s, act) x. act_val f act i x (u s)) (recvs (scatter_round lay world r)) (u r) =
     (if in_slice lay r i then slot_acc f u world r else u r)"
proof -
  have "fold (\<lambda>(s, act) x. act_val f act i x (u s))
          (map (\<lambda>p. (p, ReduceInto (fst (lay r)) (snd (lay r)))) ps) y =
        (if in_slice lay r i then foldl f y (map u ps) else y)" for ps y
    by (induction ps arbitrary: y) (simp_all add: in_slice_def)
  then show ?thesis by (simp add: scatter_round_def slot_acc_def)
qed

lemma gather_value:
  assumes "layout_ok lay world n" and "r < world" and "c < world" and "in_slice lay c i"
  shows "fold (\<lambda>(s, act) x. act_val f act i x (u s)) (recvs (gather_round lay world r)) (u r) = u c"
proof -
  have iff: "in_slice lay p i \<longleftrightarrow> p = c" if "p < world" for p
    using in_slice_unique [OF assms(1) that assms(3) _ assms(4)] assms(4) by blast
  have "fold (\<lambda>(s, act) x. act_val f act i x (u s))
          (map (\<lambda>p. (p, StoreAt (fst (lay p)) (snd (lay p)))) ps) y = (if c \<in> set ps then u c else y)"
    if "set ps \<subseteq> {..<world}" for ps y
    using that by (induction ps arbitrary: y) (auto simp: iff [unfolded in_slice_def])
  from this [of "peers world r"] show ?thesis using assms(3) by (auto simp: gather_round_def subset_iff)
qed

context reduce_op
begin

lemma slot_acc_all:
  assumes "c < w"
  shows "slot_acc f x w c = reduce_list f (map x [0..<w])"
proof -
  have "mset (c # peers w c) = mset [0..<w]"
    using assms by (subst set_eq_iff_mset_eq_distinct [symmetric]) auto
  then have "mset (map x (c # peers w c)) = mset (map x [0..<w])" by (metis mset_map)
  then have "reduce_list f (map x (c # peers w c)) = reduce_list f (map x [0..<w])"
    by (rule reduce_list_mset) simp
  then show ?thesis by (simp add: slot_acc_def reduce_list_def)
qed

end

section \<open>The butterfly program\<close>

definition chunk_layout :: "ChunkInfo list \<Rightarrow> nat \<Rightarrow> nat \<times> nat" where
  "chunk_layout chunks p = (elem_start (chunks ! p), elem_count (chunks ! p))"

definition butterfly_program :: "nat \<Rightarrow> nat \<Rightarrow> nat \<Rightarrow> nat \<Rightarrow> round list" where
  "butterfly_program numel esize world rank =
     (let lay = chunk_layout (chunkize numel esize world) in
      [scatter_round lay world rank, gather_round lay world rank])"

definition allreduce_butterfly :: "nat \<Rightarrow> nat \<Rightarrow> nat \<Rightarrow> nat \<Rightarrow> nat \<Rightarrow> mccl_error + round list" where
  "allreduce_butterfly numel esize recv_nbytes world rank =
     (if numel < world then Inl (MCCLError ''butterfly allreduce: numel must be >= world'')
      else let my_chunk = chunkize numel esize world ! rank in
        if recv_nbytes < (world - 1) * byte_len my_chunk
        then Inl (MCCLError ''butterfly: recv_view too small; allocate (world-1)*per chunks'')
        else Inr (butterfly_program numel esize world rank))"

lemma chunk_layout_ok: "layout_ok (chunk_layout (chunkize numel es world)) world numel"
proof -
  have "min (Suc p * per) numel \<le> min (q * per) numel" if "p < q" for p q per
  proof -
    have "Suc p * per \<le> q * per" using that by (intro mult_right_mono) simp_all
    then show ?thesis by simp
  qed
  then show ?thesis
    by (auto simp: layout_ok_def chunk_layout_def chunkize_nth nat_neq_iff)
qed

lemma in_chunk_layout:
  "i < numel \<Longrightarrow> c < world \<Longrightarrow> in_slice (chunk_layout (chunkize numel es world)) c i \<longleftrightarrow> chunk_of numel world i = c"
  using in_chunk_iff [of i numel c world es] by (simp add: in_slice_def chunk_layout_def)

interpretation butterfly: aligned_protocol "butterfly_program numel es world" world 2 numel
  for numel es world
proof (rule aligned_protocolI)
  show "exchange_ok world numel (\<lambda>r. butterfly_program numel es world r ! k)" if "k < 2" for k
    using that scatter_exchange [OF chunk_layout_ok] gather_exchange [OF chunk_layout_ok]
    by (cases k) (auto simp: butterfly_program_def Let_def)
qed (simp add: butterfly_program_def Let_def)

lemma butterfly_result:
  assumes init: "\<forall>r < world. length (init r) = numel" and i: "i < numel" and r: "r < world"
  shows "sync f (butterfly_program numel es world) init 2 r ! i =
         slot_acc f (\<lambda>q. init q ! i) world (chunk_of numel world i)"
proof -
  let ?P = "butterfly_program numel es world" and ?lay = "chunk_layout (chunkize numel es world)"
  let ?c = "chunk_of numel world i"
  have c: "?c < world" using chunk_of_less [OF i] r by simp
  have one: "sync f ?P init 1 q ! i = (if in_slice ?lay q i then slot_acc f (\<lambda>q. init q ! i) world q else init q ! i)"
    if "q < world" for q
    using butterfly.sync_nth [OF init, of 0 q i f es] that i scatter_value [of f i "\<lambda>q. init q ! i" ?lay world q]
    by (simp add: butterfly_program_def Let_def)
  have "sync f ?P init 2 r ! i = sync f ?P init 1 ?c ! i"
    using butterfly.sync_nth [OF init, of 1 r i f es] r i c in_chunk_layout [OF i c]
      gather_value [OF chunk_layout_ok r c, where f = f and u = "\<lambda>q. sync f ?P init 1 q ! i"]
    by (simp add: butterfly_program_def Let_def numeral_2_eq_2)
  then show ?thesis using one [OF c] in_chunk_layout [OF i c] by simp
qed

lemma butterfly_computes:
  assumes "\<forall>r < world. length (init r) = numel"
  shows "computes_over_sockets f (butterfly_program numel es world) world 2 init
     (\<lambda>_. map (\<lambda>i. slot_acc f (\<lambda>q. init q ! i) world (chunk_of numel world i)) [0..<numel])"
  by (rule butterfly.sockets_nth [OF assms butterfly_result [OF assms]])

lemma butterfly_accepts:
  assumes "world \<le> numel" and "rank < world" and "(world - 1) * (chunk_per numel world * es) \<le> recv_nbytes"
  shows "allreduce_butterfly numel es recv_nbytes world rank = Inr (butterfly_program numel es world rank)"
proof -
  have "byte_len (chunkize numel es world ! rank) \<le> chunk_per numel world * es"
    using assms(2) by (auto simp: chunkize_def Let_def min_def)
  then have "(world - 1) * byte_len (chunkize numel es world ! rank) \<le> recv_nbytes"
    using assms(3) mult_le_mono2 [of _ _ "world - 1"] order_trans by blast
  with assms(1) show ?thesis by (simp add: allreduce_butterfly_def Let_def)
qed

lemma allreduce_butterfly_total:
  fixes init :: "nat \<Rightarrow> 'a::linordered_field list"
  assumes "0 < world" and "world \<le> numel" and "\<forall>r < world. length (init r) = numel"
    and "(world - 1) * (chunk_per numel world * esize) \<le> recv_nbytes"
  shows "\<exists>P. (\<forall>r < world. allreduce_butterfly numel esize recv_nbytes world r = Inr (P r)) \<and>
             mesh_allreduce op P world 2 numel init"
proof -
  have "slot_acc (reduce_fn op) (\<lambda>q. init q ! i) world (chunk_of numel world i) = rank_reduce (reduce_fn op) init world i"
    if "i < numel" for i
    unfolding rank_reduce_def kernel.slot_acc_all [OF chunk_of_less [OF that assms(1)]] ..
  then have eq: "map (\<lambda>i. slot_acc (reduce_fn op) (\<lambda>q. init q ! i) world (chunk_of numel world i)) [0..<numel] =
      map (rank_reduce (reduce_fn op) init world) [0..<numel]" by simp
  have "mesh_allreduce op (butterfly_program numel esize world) world 2 numel init"
    using mesh_allreduceI [OF assms(1) butterfly.matched] butterfly_computes [OF assms(3), of "reduce_fn op" esize, unfolded eq] .
  with butterfly_accepts [OF assms(2) _ assms(4)] show ?thesis by blast
qed

text \<open>
  C5. The butterfly allreduce is correct: with the scratch buffer of \<open>(world - 1) * per\<close> elements that
  \<open>allreduce\<close> allocates, none of its checks fails, and, with socket buffers of any size, in two full-mesh rounds every rank gets the
  result of the operation over all ranks.
\<close>

theorem allreduce_butterfly_correct:
  fixes init :: "nat \<Rightarrow> 'a::linordered_field list"
  assumes "0 < world" and "world \<le> numel" and "\<forall>r < world. length (init r) = numel"
    and "(world - 1) * (chunk_per numel world * esize) \<le> recv_nbytes"
  shows "\<exists>P. (\<forall>r < world. allreduce_butterfly numel esize recv_nbytes world r = Inr (P r)) \<and>
             mesh_allreduce op P world 2 numel init"
  by (rule allreduce_butterfly_total [OF assms])

theorem allreduce_butterfly_correct_witness:
  "\<exists>P. (\<forall>r < 3. allreduce_butterfly 4 4 16 3 r = Inr (P r)) \<and>
       mesh_allreduce RedSUM P 3 2 4 (\<lambda>r. [1, of_nat r, 2, 3 :: rat])"
  using allreduce_butterfly_correct [of 3 4 "\<lambda>r. [1, of_nat r, 2, 3 :: rat]" 4 16 RedSUM]
  by (simp add: chunk_per_def)

end
