(* ===== verification/Process_Group.thy ===== *)
theory Process_Group
  imports Allreduce_Tree Allreduce_Butterfly
begin

text \<open>
  The collectives of \<open>csrc/backend/ProcessGroupMCCL.cpp\<close>: argument checks, the choice of an allreduce
  algorithm from tensor size and environment, and the exchanges of broadcast, allgather,
  reduce-scatter and all-to-all. Copies between a tensor and its staging buffer
  (\<open>stage_for_send_nosync\<close>, \<open>unstage_from_recv\<close>, \<open>extract_mps_buffer\<close> of \<open>csrc/metal/MPSInterop.mm\<close>) are
  the identity on the elements; the check of the tensor that each of them starts with is kept.
\<close>

section \<open>Argument checks\<close>

fun DeviceTypeName :: "device \<Rightarrow> string" where
  "DeviceTypeName MPS = ''MPS''"
| "DeviceTypeName CPU = ''CPU''"
| "DeviceTypeName (OtherDevice n) = n"

definition check_mps :: "tensor_meta \<Rightarrow> string \<Rightarrow> mccl_error + unit" where
  "check_mps t op =
     (if device t \<noteq> MPS then Inl (MCCLError (op @ '': MCCL is MPS-only; got '' @ DeviceTypeName (device t) @ '' tensor''))
      else if \<not> is_contiguous t then Inl (MCCLError (op @ '': tensor must be contiguous''))
      else Inr ())"

text \<open>Staging a tensor for sending, or extracting its buffer, checks it first.\<close>

definition stage_check :: "tensor_meta \<Rightarrow> string \<Rightarrow> mccl_error + unit" where
  "stage_check t op = (case check_mps t op of Inl e \<Rightarrow> Inl e | Inr _ \<Rightarrow> check_single_tensor t)"

definition unstage_check :: "tensor_meta \<Rightarrow> nat \<Rightarrow> mccl_error + unit" where
  "unstage_check t nbytes =
     (case check_single_tensor t of Inl e \<Rightarrow> Inl e
      | Inr _ \<Rightarrow> if nbytes = tensor_nbytes t then Inr () else Inl (MCCLError ''unstage size mismatch''))"

section \<open>Choice of the allreduce algorithm\<close>

text \<open>The environment variables that \<open>allreduce\<close> reads.\<close>

record env =
  MCCL_WIRE_DTYPE :: "string option"
  MCCL_ALLREDUCE_ALGO :: "string option"
  MCCL_TREE_BELOW :: "string option"

text \<open>\<open>strtoull(e, nullptr, 10)\<close> of the C library.\<close>

definition strtoull :: "string \<Rightarrow> u64" where
  "strtoull s =
     (let s1 = dropWhile is_space s;
          neg = (s1 \<noteq> [] \<and> hd s1 = CHR ''-'');
          s2 = (if s1 \<noteq> [] \<and> (hd s1 = CHR ''-'' \<or> hd s1 = CHR ''+'') then tl s1 else s1);
          v = dec_value (takeWhile is_digit s2) in
      if 2 ^ 64 \<le> v then - 1 else if neg then - of_nat v else of_nat v)"

text \<open>The tensor that is reduced: a bfloat16 copy of a float tensor when the wire type asks for it.\<close>

definition wire_tensor :: "env \<Rightarrow> tensor_meta \<Rightarrow> tensor_meta" where
  "wire_tensor ev t =
     (if MCCL_WIRE_DTYPE ev = Some ''bf16'' \<and> dtype t = kFloat
      then t\<lparr>dtype := kBFloat16, element_size := 2\<rparr> else t)"

definition allreduce_algo :: "env \<Rightarrow> nat \<Rightarrow> nat \<Rightarrow> nat \<Rightarrow> string" where
  "allreduce_algo ev bytes numel world =
     (let alg0 = (case MCCL_ALLREDUCE_ALGO ev of Some a \<Rightarrow> a | None \<Rightarrow> ''auto'');
          tree_below = (case MCCL_TREE_BELOW ev of Some e \<Rightarrow> unat (strtoull e) | None \<Rightarrow> 256 * 1024);
          alg1 = (if alg0 = ''auto'' then (if bytes \<le> tree_below then ''tree'' else ''ring'') else alg0);
          alg2 = (if alg1 = ''ring'' \<and> numel < world then ''tree'' else alg1) in
      if alg2 = ''butterfly'' \<and> (world < 2 \<or> numel < world) then ''tree'' else alg2)"

text \<open>
  What the issuing thread prepares for one tensor (\<open>AllreduceArgs\<close> and the algorithm): the element
  count is narrowed to 32 bits, the receive scratch is sized from the full count.
\<close>

record allreduce_args =
  arg_alg :: string
  arg_numel :: u32
  arg_esize :: nat
  arg_recv_numel :: nat

definition prepare_allreduce :: "env \<Rightarrow> nat \<Rightarrow> tensor_meta \<Rightarrow> mccl_error + allreduce_args" where
  "prepare_allreduce ev world t =
     (case check_mps t ''allreduce'' of Inl e \<Rightarrow> Inl e | Inr _ \<Rightarrow>
      let wt = wire_tensor ev t;
          alg = allreduce_algo ev (tensor_nbytes wt) (tensor_numel wt) world in
      case check_single_tensor wt of Inl e \<Rightarrow> Inl e | Inr _ \<Rightarrow>
      Inr \<lparr>arg_alg = alg, arg_numel = of_nat (tensor_numel wt), arg_esize = element_size wt,
           arg_recv_numel =
             (if alg = ''ring'' then (tensor_numel wt + world - 1) div world
              else if alg = ''butterfly'' then (world - 1) * ((tensor_numel wt + world - 1) div world)
              else tensor_numel wt)\<rparr>)"

definition run_allreduce :: "nat \<Rightarrow> nat \<Rightarrow> allreduce_args \<Rightarrow> mccl_error + round list" where
  "run_allreduce world rank a =
     (let n = unat (arg_numel a) in
      if arg_alg a = ''ring'' then allreduce_ring n (arg_esize a) world rank
      else if arg_alg a = ''butterfly''
      then allreduce_butterfly n (arg_esize a) (arg_recv_numel a * arg_esize a) world rank
      else allreduce_tree n world rank)"

text \<open>
  \<open>ProcessGroupMCCL::allreduce\<close>: the prepared arguments of all tensors first, then the programs in
  the order of the tensors, up to one that throws. A world of one is left unchanged.
\<close>

definition allreduce :: "env \<Rightarrow> nat \<Rightarrow> nat \<Rightarrow> tensor_meta list \<Rightarrow> mccl_error + round list list \<times> mccl_error option" where
  "allreduce ev world rank tensors =
     (if world = 1 then Inr ([], None)
      else if tensors = [] then Inl (MCCLError ''allreduce: empty tensor list'')
      else case map_res (prepare_allreduce ev world) tensors of
        Inl e \<Rightarrow> Inl e
      | Inr argv \<Rightarrow> Inr (until_error (run_allreduce world rank) argv))"

definition mps_tensor :: "tensor_meta \<Rightarrow> bool" where
  "mps_tensor t \<longleftrightarrow> device t = MPS \<and> is_contiguous t \<and> supported_dtype (dtype t) \<and> 0 < tensor_numel t"

text \<open>
  Tensors that the Metal kernels can reduce: of an element type that has kernels, and small enough for their index arithmetic (\<open>Metal_Kernels\<close>, \<open>Metal_Shaders\<close>). Other
  tensors pass the checks above.
\<close>

definition kernel_ok :: "tensor_meta \<Rightarrow> bool" where
  "kernel_ok t \<longleftrightarrow> dtype t \<in> {kFloat, kHalf, kBFloat16} \<and> tensor_numel t \<le> 2 ^ 32 - 8"

lemma checks_ok:
  assumes "mps_tensor t"
  shows "check_mps t op = Inr ()" "check_single_tensor t = Inr ()" "stage_check t op = Inr ()"
    "check_single_tensor (wire_tensor ev t) = Inr ()" "unstage_check t (tensor_nbytes t) = Inr ()"
proof -
  show "check_mps t op = Inr ()" using assms by (simp add: check_mps_def mps_tensor_def)
  moreover show single: "check_single_tensor t = Inr ()" using assms by (simp add: check_single_tensor_ok mps_tensor_def)
  ultimately show "stage_check t op = Inr ()" "unstage_check t (tensor_nbytes t) = Inr ()"
    by (simp_all add: stage_check_def unstage_check_def)
  show "check_single_tensor (wire_tensor ev t) = Inr ()"
    using single by (simp add: check_single_tensor_ok wire_tensor_def supported_dtype_def tensor_numel_def)
qed

lemma stage_check_iff: "stage_check t op = Inr () \<longleftrightarrow> mps_tensor t"
  by (auto simp: stage_check_def check_mps_def mps_tensor_def check_single_tensor_ok split: sum.splits)

lemma tensor_numel_wire [simp]: "tensor_numel (wire_tensor ev t) = tensor_numel t"
  by (simp add: wire_tensor_def tensor_numel_def)

lemma algo_guards:
  "allreduce_algo ev bytes numel world = ''ring'' \<Longrightarrow> world \<le> numel"
  "allreduce_algo ev bytes numel world = ''butterfly'' \<Longrightarrow> 2 \<le> world \<and> world \<le> numel"
  by (auto simp: allreduce_algo_def Let_def split: if_splits)

definition prepared :: "env \<Rightarrow> nat \<Rightarrow> tensor_meta \<Rightarrow> allreduce_args" where
  "prepared ev world t =
     (let wt = wire_tensor ev t; n = tensor_numel t; alg = allreduce_algo ev (tensor_nbytes wt) n world in
      \<lparr>arg_alg = alg, arg_numel = of_nat n, arg_esize = element_size wt,
       arg_recv_numel = (if alg = ''ring'' then chunk_per n world
         else if alg = ''butterfly'' then (world - 1) * chunk_per n world else n)\<rparr>)"

lemma prepare_allreduce_ok: "mps_tensor t \<Longrightarrow> prepare_allreduce ev world t = Inr (prepared ev world t)"
  by (simp add: prepare_allreduce_def checks_ok prepared_def Let_def chunk_per_def)

lemma run_allreduce_total:
  fixes init :: "nat \<Rightarrow> 'a::linordered_field list"
  assumes w: "2 \<le> world" and n: "tensor_numel t < 2 ^ 32" and init: "\<forall>r < world. length (init r) = tensor_numel t"
  shows "\<exists>P N. (\<forall>r < world. run_allreduce world r (prepared ev world t) = Inr (P r)) \<and>
               mesh_allreduce op P world N (tensor_numel t) init"
proof -
  let ?n = "tensor_numel t" and ?a = "prepared ev world t"
  let ?alg = "allreduce_algo ev (tensor_nbytes (wire_tensor ev t)) ?n world"
  have num: "unat (arg_numel ?a) = ?n"
    using n by (simp add: prepared_def Let_def unsigned_of_nat take_bit_nat_eq_self)
  have alg: "arg_alg ?a = ?alg" by (simp add: prepared_def Let_def)
  consider "?alg = ''ring''" | "?alg = ''butterfly''" | "?alg \<noteq> ''ring''" "?alg \<noteq> ''butterfly''" by blast
  then show ?thesis
  proof cases
    case 1
    then have "world \<le> ?n" by (rule algo_guards)
    then obtain P where "\<forall>r. allreduce_ring ?n (arg_esize ?a) world r = Inr (P r)"
        "mesh_allreduce op P world (2 * (world - 1)) ?n init"
      using allreduce_ring_total [OF _ _ init, of "arg_esize ?a" op] w by auto
    then show ?thesis using 1 num alg by (auto simp: run_allreduce_def)
  next
    case 2
    then have "world \<le> ?n" using algo_guards by blast
    moreover have "(world - 1) * (chunk_per ?n world * arg_esize ?a) \<le> arg_recv_numel ?a * arg_esize ?a"
      using 2 by (simp add: prepared_def Let_def)
    ultimately obtain P where
        "\<forall>r < world. allreduce_butterfly ?n (arg_esize ?a) (arg_recv_numel ?a * arg_esize ?a) world r = Inr (P r)"
        "mesh_allreduce op P world 2 ?n init"
      using allreduce_butterfly_total [OF _ _ init, of "arg_esize ?a" "arg_recv_numel ?a * arg_esize ?a" op] w by auto
    then show ?thesis using 2 num alg by (auto simp: run_allreduce_def)
  next
    case 3
    obtain P where "\<forall>r. allreduce_tree ?n world r = Inr (P r)"
        "mesh_allreduce op P world (tree_depth world + bcast_depth world) ?n init"
      using allreduce_tree_total [OF _ init, of op] w by auto
    then show ?thesis using 3 num alg by (auto simp: run_allreduce_def)
  qed
qed

lemma allreduce_ok:
  assumes "2 \<le> world" and "\<forall>t \<in> set ts. mps_tensor t \<and> tensor_numel t < 2 ^ 32" and "ts \<noteq> []" and "rank < world"
  shows "allreduce ev world rank ts = Inr (map (\<lambda>t. projr (run_allreduce world rank (prepared ev world t))) ts, None)"
proof -
  have "run_allreduce world rank (prepared ev world t) = Inr (projr (run_allreduce world rank (prepared ev world t)))"
    if "t \<in> set ts" for t
    using run_allreduce_total [OF assms(1), of t "\<lambda>_. replicate (tensor_numel t) (0 :: rat)" ev] that assms(2,4) by fastforce
  then show ?thesis
    using assms(1-3) map_res_ok [of ts "prepare_allreduce ev world" "prepared ev world"]
      until_error_ok [of ts "\<lambda>t. run_allreduce world rank (prepared ev world t)"]
    by (simp add: allreduce_def prepare_allreduce_ok until_error_map)
qed


definition example_tensor :: tensor_meta where
  "example_tensor = \<lparr>device = MPS, is_contiguous = True, dtype = kFloat, sizes = [2, 2], element_size = 4\<rparr>"

lemma example_mps: "mps_tensor example_tensor"
  by (simp add: example_tensor_def mps_tensor_def tensor_numel_def supported_dtype_def)


text \<open>
  The 32-bit element count: a tensor of \<open>2 ^ 32\<close> elements or more is not reduced as a whole. At
  exactly \<open>2 ^ 32\<close> elements the ring, chosen because the tensor is large, fails its own check.
\<close>

theorem allreduce_count_truncated:
  "run_allreduce 2 r (prepared \<lparr>MCCL_WIRE_DTYPE = None, MCCL_ALLREDUCE_ALGO = None, MCCL_TREE_BELOW = None\<rparr> 2
       (example_tensor\<lparr>sizes := [2 ^ 32]\<rparr>)) = Inl (MCCLError ''ring allreduce: numel must be >= world'')"
  by (simp add: run_allreduce_def prepared_def allreduce_algo_def example_tensor_def wire_tensor_def
      tensor_numel_def tensor_nbytes_def Let_def allreduce_ring_def)

end
