(* ===== verification/Collectives.thy ===== *)
theory Collectives
  imports Process_Group
begin

text \<open>
  Broadcast, allgather, reduce-scatter and all-to-all of \<open>csrc/backend/ProcessGroupMCCL.cpp\<close>, each an
  exchange of one full-mesh round. An operation yields the rounds of its exchanges or the exception that
  a check raises; over a list of tensors, the exchanges before the exception are done. On a single-rank
  world the input is copied and nothing is exchanged.
\<close>

section \<open>Broadcast\<close>

definition broadcast_round :: "nat \<Rightarrow> nat \<Rightarrow> nat \<Rightarrow> nat \<Rightarrow> round" where
  "broadcast_round rootRank n world rank =
     (if rank = rootRank then \<lparr>sends = map (\<lambda>p. (p, 0, n)) (peers world rootRank), recvs = []\<rparr>
      else \<lparr>sends = [], recvs = [(rootRank, StoreAt 0 n)]\<rparr>)"

definition broadcast :: "nat \<Rightarrow> nat \<Rightarrow> nat \<Rightarrow> tensor_meta list \<Rightarrow> mccl_error + round list list \<times> mccl_error option" where
  "broadcast rootRank world rank tensors =
     (if world = 1 then Inr ([], None)
      else if tensors = [] then Inl (MCCLError ''broadcast: empty tensor list'')
      else Inr (until_error (\<lambda>t. case stage_check t ''broadcast'' of Inl e \<Rightarrow> Inl e
             | Inr _ \<Rightarrow> Inr [broadcast_round rootRank (tensor_numel t) world rank]) tensors))"

lemma broadcast_exchange: "rootRank < world \<Longrightarrow> exchange_ok world n (broadcast_round rootRank n world)"
  by (auto simp: exchange_ok_def broadcast_round_def map_of_peers wf_round_def)

lemma broadcast_computes:
  assumes rootRank: "rootRank < world" and init: "\<forall>r < world. length (init r) = n"
  shows "computes_over_sockets f (\<lambda>r. [broadcast_round rootRank n world r]) world 1 init (\<lambda>_. init rootRank)"
proof -
  have p: "aligned_protocol (\<lambda>r. [broadcast_round rootRank n world r]) world 1 n"
    using broadcast_exchange [OF rootRank] by (intro aligned_protocolI) auto
  have "map (\<lambda>i. init rootRank ! i) [0..<n] = init rootRank" using init rootRank by (simp add: list_eq_iff_nth_eq)
  moreover have "computes_over_sockets f (\<lambda>r. [broadcast_round rootRank n world r]) world 1 init (\<lambda>_. map (\<lambda>i. init rootRank ! i) [0..<n])"
    using aligned_protocol.sync_nth [OF p init, of 0 _ _ f]
    by (intro aligned_protocol.sockets_nth [OF p init]) (auto simp: broadcast_round_def)
  ultimately show ?thesis by simp
qed

section \<open>Allgather and reduce-scatter\<close>

text \<open>The slices of equal size \<open>chunk\<close>, one after the other.\<close>

definition uniform_layout :: "nat \<Rightarrow> nat \<Rightarrow> nat \<times> nat" where
  "uniform_layout chunk p = (p * chunk, chunk)"

lemma uniform_layout_ok: "layout_ok (uniform_layout chunk) world (chunk * world)"
proof -
  have "p * chunk + chunk \<le> q * chunk" if "p < q" for p q :: nat
    using mult_right_mono [of "Suc p" q chunk] that by (simp add: add.commute)
  then show ?thesis
    unfolding layout_ok_def uniform_layout_def by (simp add: mult.commute [of chunk]) (metis nat_neq_iff)
qed

lemma in_uniform: "0 < chunk \<Longrightarrow> in_slice (uniform_layout chunk) p i \<longleftrightarrow> i div chunk = p"
  by (simp add: in_slice_def uniform_layout_def div_eq_iff_interval)

definition allgather_base :: "tensor_meta \<Rightarrow> tensor_meta \<Rightarrow> nat \<Rightarrow> nat \<Rightarrow> mccl_error + round list" where
  "allgather_base output input world rank =
     (if world = 1 then Inr []
      else case check_mps input ''_allgather_base'' of Inl e \<Rightarrow> Inl e | Inr _ \<Rightarrow>
     (case check_mps output ''_allgather_base'' of Inl e \<Rightarrow> Inl e | Inr _ \<Rightarrow>
     (case check_single_tensor input of Inl e \<Rightarrow> Inl e | Inr _ \<Rightarrow>
      let chunk = tensor_nbytes input; total = tensor_nbytes output in
      if total \<noteq> chunk * world then Inl (MCCLError ''_allgather_base: output size != input * world'')
      else Inr [gather_round (uniform_layout chunk) world rank])))"

text \<open>The staging buffer: zeroed, with the rank's own input copied to its place.\<close>

definition gather_staging :: "nat \<Rightarrow> nat \<Rightarrow> (nat \<Rightarrow> u8 list) \<Rightarrow> nat \<Rightarrow> u8 list" where
  "gather_staging chunk world input rank = overwrite (replicate (chunk * world) 0) (rank * chunk) (input rank)"

definition reduce_scatter_base :: "tensor_meta \<Rightarrow> tensor_meta \<Rightarrow> nat \<Rightarrow> nat \<Rightarrow> mccl_error + round list" where
  "reduce_scatter_base output input world rank =
     (if world = 1 then Inr []
      else case check_mps input ''_reduce_scatter_base'' of Inl e \<Rightarrow> Inl e | Inr _ \<Rightarrow>
     (case check_mps output ''_reduce_scatter_base'' of Inl e \<Rightarrow> Inl e | Inr _ \<Rightarrow>
     (case check_single_tensor input of Inl e \<Rightarrow> Inl e | Inr _ \<Rightarrow>
      if tensor_nbytes input \<noteq> tensor_nbytes output * world
      then Inl (MCCLError ''_reduce_scatter_base: input size != output * world'')
      else case unstage_check output (tensor_nbytes output) of Inl e \<Rightarrow> Inl e
        | Inr _ \<Rightarrow> Inr [scatter_round (uniform_layout (tensor_numel output)) world rank])))"

text \<open>
  The output of rank \<open>rank\<close>: its own share, into which the peers' shares have been reduced in rank
  order, scaled when averaging.
\<close>

definition reduce_scatter_output :: "RedOpType \<Rightarrow> nat \<Rightarrow> nat \<Rightarrow> nat \<Rightarrow> 'a::linordered_field list \<Rightarrow> 'a list" where
  "reduce_scatter_output op chunk world rank t = scale_inplace op world (slice (rank * chunk) chunk t)"

interpretation gather: aligned_protocol "\<lambda>r. [gather_round (uniform_layout chunk) world r]" world 1 "chunk * world"
  for chunk world
  using gather_exchange [OF uniform_layout_ok] by (intro aligned_protocolI) auto

interpretation scatter: aligned_protocol "\<lambda>r. [scatter_round (uniform_layout chunk) world r]" world 1 "chunk * world"
  for chunk world
  using scatter_exchange [OF uniform_layout_ok] by (intro aligned_protocolI) auto

section \<open>Correctness\<close>



lemma gather_result:
  assumes input: "\<forall>p < world. length (input p) = chunk" and r: "r < world" and i: "i < chunk * world"
  shows "sync f (\<lambda>r. [gather_round (uniform_layout chunk) world r]) (gather_staging chunk world input) 1 r ! i =
         concat (map input [0..<world]) ! i"
proof -
  let ?st = "gather_staging chunk world input"
  have fit: "p * chunk + length (input p) \<le> chunk * world" if "p < world" for p
    using that input mult_right_mono [of "Suc p" world chunk] by (simp add: ac_simps)
  then have len: "\<forall>p < world. length (?st p) = chunk * world" by (simp add: gather_staging_def)
  have c: "0 < chunk" using i by (cases chunk) auto
  have ic: "i div chunk < world" using i by (metis less_mult_imp_div_less mult.commute)
  have "sync f (\<lambda>r. [gather_round (uniform_layout chunk) world r]) ?st 1 r ! i = ?st (i div chunk) ! i"
    using gather.sync_nth [OF len, of 0 r i f] r i in_uniform [OF c]
      gather_value [OF uniform_layout_ok r ic, where u = "\<lambda>q. ?st q ! i" and f = f] by simp
  also have "\<dots> = input (i div chunk) ! (i mod chunk)"
    using fit [OF ic] input ic i c div_eq_iff_interval [OF c, of i "i div chunk"]
    by (simp add: gather_staging_def nth_overwrite minus_div_mult_eq_mod)
  also have "\<dots> = concat (map input [0..<world]) ! i" using input i by (simp add: nth_concat_equal)
  finally show ?thesis .
qed

lemma gather_computes:
  assumes "\<forall>p < world. length (input p) = chunk"
  shows "computes_send_first chunk f (\<lambda>r. [gather_round (uniform_layout chunk) world r]) world 1
     (gather_staging chunk world input) (\<lambda>_. concat (map input [0..<world]))"
proof -
  have "p * chunk + length (input p) \<le> chunk * world" if "p < world" for p
    using that assms mult_right_mono [of "Suc p" world chunk] by (simp add: ac_simps)
  then have len: "\<forall>r < world. length (gather_staging chunk world input r) = chunk * world"
    by (simp add: gather_staging_def)
  have eq: "map (\<lambda>i. concat (map input [0..<world]) ! i) [0..<chunk * world] = concat (map input [0..<world])"
    using length_concat_equal [of world input chunk] assms by (simp add: list_eq_iff_nth_eq)
  have "mesh_computes f (\<lambda>r. [gather_round (uniform_layout chunk) world r]) world 1 (gather_staging chunk world input)
      (\<lambda>_. map (\<lambda>i. concat (map input [0..<world]) ! i) [0..<chunk * world])"
    using gather_result [OF assms] by (intro gather.computes_nth [OF len]) blast
  then show ?thesis
    unfolding eq by (rule gather.send_first_computes [OF len]) (simp add: mesh_send_len uniform_layout_def)
qed

text \<open>
  C12. \<open>_allgather_base\<close>: when the output is \<open>world\<close> times the input, every rank ends with the
  concatenation of all inputs in rank order, under every interleaving and with socket buffers that hold an input; otherwise the size check fails.
\<close>

theorem allgather_base_correct:
  assumes "world \<noteq> 1" and "mps_tensor inp" and "mps_tensor out" and "\<forall>p < world. length (input p) = tensor_nbytes inp"
  shows "if tensor_nbytes out = tensor_nbytes inp * world
     then \<exists>P. (\<forall>r. allgather_base out inp world r = Inr (P r)) \<and>
            computes_send_first (tensor_nbytes inp) f P world 1 (gather_staging (tensor_nbytes inp) world input)
              (\<lambda>_. concat (map input [0..<world]))
     else allgather_base out inp world r = Inl (MCCLError ''_allgather_base: output size != input * world'')"
  using assms gather_computes [OF assms(4), of f]
  by (auto simp: allgather_base_def checks_ok Let_def intro!: exI [of _ "\<lambda>r. [gather_round (uniform_layout (tensor_nbytes inp)) world r]"])

theorem allgather_base_correct_witness:
  "\<exists>P. (\<forall>r. allgather_base (example_tensor\<lparr>sizes := [8]\<rparr>) example_tensor 2 r = Inr (P r)) \<and>
       computes_send_first 16 (+) P 2 1 (gather_staging 16 2 (\<lambda>p. replicate 16 (of_nat p))) (\<lambda>_. replicate 16 0 @ replicate 16 1)"
  using allgather_base_correct [of 2 example_tensor "example_tensor\<lparr>sizes := [8]\<rparr>" "\<lambda>p. replicate 16 (of_nat p)" "(+)" 0]
  by (simp add: example_tensor_def mps_tensor_def tensor_numel_def supported_dtype_def tensor_nbytes_def upt_rec)

lemma scatter_computes:
  fixes init :: "nat \<Rightarrow> 'a::linordered_field list"
  assumes "\<forall>r < world. length (init r) = c * world"
  shows "\<exists>result. computes_send_first c (reduce_fn op) (\<lambda>r. [scatter_round (uniform_layout c) world r]) world 1 init result \<and>
     (\<forall>r < world. reduce_scatter_output op c world r (result r) = map (allreduce_spec op init world) [r * c..<Suc r * c])"
proof -
  let ?P = "\<lambda>r. [scatter_round (uniform_layout c) world r]"
  let ?res = "sync (reduce_fn op) ?P init 1"
  have comp: "computes_send_first c (reduce_fn op) ?P world 1 init ?res"
    by (rule scatter.send_first_sync [OF assms]) (simp_all add: mesh_send_len uniform_layout_def)
  have "slice (r * c) c (?res r) = map (rank_reduce (reduce_fn op) init world) [r * c..<Suc r * c]"
    if r: "r < world" for r
  proof (rule nth_equalityI)
    have len: "length (?res r) = c * world" by (rule scatter.length_sync [OF assms _ r]) simp
    have fit: "r * c + c \<le> c * world" using r mult_right_mono [of "Suc r" world c] by (simp add: ac_simps)
    show "length (slice (r * c) c (?res r)) = length (map (rank_reduce (reduce_fn op) init world) [r * c..<Suc r * c])"
      using len fit by (simp add: length_slice)
    fix j assume "j < length (slice (r * c) c (?res r))"
    then have j: "j < c" using len fit by (simp add: length_slice)
    let ?i = "r * c + j"
    have i: "?i < c * world" using j fit by linarith
    have "?res r ! ?i = slot_acc (reduce_fn op) (\<lambda>q. init q ! ?i) world r"
      using scatter.sync_nth [OF assms _ r i, of 0 "reduce_fn op"] j
        scatter_value [of "reduce_fn op" ?i "\<lambda>q. init q ! ?i" "uniform_layout c" world r]
        in_uniform [of c r ?i] by simp
    also have "\<dots> = rank_reduce (reduce_fn op) init world ?i"
      unfolding kernel.slot_acc_all [OF r] rank_reduce_def ..
    finally show "slice (r * c) c (?res r) ! j = map (rank_reduce (reduce_fn op) init world) [r * c..<Suc r * c] ! j"
      using j len fit by (simp add: nth_slice)
  qed
  then have "\<forall>r < world. reduce_scatter_output op c world r (?res r) = map (allreduce_spec op init world) [r * c..<Suc r * c]"
    by (simp add: reduce_scatter_output_def rank_reduce_spec)
  with comp show ?thesis by blast
qed

text \<open>
  C11. \<open>_reduce_scatter_base\<close> of tensors that the kernels handle: rank \<open>r\<close> ends with the reduction over all ranks of the \<open>r\<close>-th share of the
  input, under every interleaving and with socket buffers that hold a share.
\<close>

theorem reduce_scatter_base_correct:
  fixes init :: "nat \<Rightarrow> 'a::linordered_field list"
  assumes "world \<noteq> 1" and "mps_tensor inp" and "mps_tensor out \<and> kernel_ok out" and "tensor_nbytes inp = tensor_nbytes out * world"
    and "\<forall>r < world. length (init r) = tensor_numel out * world"
  shows "\<exists>P result. (\<forall>r. reduce_scatter_base out inp world r = Inr (P r)) \<and>
     computes_send_first (tensor_numel out) (reduce_fn op) P world 1 init result \<and>
     (\<forall>r < world. reduce_scatter_output op (tensor_numel out) world r (result r) =
        map (allreduce_spec op init world) [r * tensor_numel out..<Suc r * tensor_numel out])"
proof -
  have "\<forall>r. reduce_scatter_base out inp world r = Inr [scatter_round (uniform_layout (tensor_numel out)) world r]"
    using assms(1-4) by (simp add: reduce_scatter_base_def checks_ok)
  with scatter_computes [OF assms(5), of op] show ?thesis
    by (intro exI [of _ "\<lambda>r. [scatter_round (uniform_layout (tensor_numel out)) world r]"]) blast
qed

theorem reduce_scatter_base_correct_witness:
  "\<exists>P result. (\<forall>r. reduce_scatter_base example_tensor (example_tensor\<lparr>sizes := [8]\<rparr>) 2 r = Inr (P r)) \<and>
     computes_send_first 4 (reduce_fn RedMIN) P 2 1 (\<lambda>r. replicate 8 (of_nat r :: rat)) result \<and>
     (\<forall>r < 2. reduce_scatter_output RedMIN 4 2 r (result r) =
        map (allreduce_spec RedMIN (\<lambda>r. replicate 8 (of_nat r)) 2) [r * 4..<Suc r * 4])"
  using reduce_scatter_base_correct [of 2 "example_tensor\<lparr>sizes := [8]\<rparr>" example_tensor "\<lambda>r. replicate 8 (of_nat r :: rat)" RedMIN]
  by (simp add: example_tensor_def mps_tensor_def tensor_numel_def supported_dtype_def tensor_nbytes_def kernel_ok_def del: upt_Suc)

text \<open>The exchanges of allgather and reduce-scatter use a thread per peer that sends before it receives: shares that are larger than what a socket holds block every pair of ranks.\<close>

lemma full_mesh_deadlocks:
  assumes "P = (\<lambda>r. [gather_round (uniform_layout chunk) world r]) \<or> P = (\<lambda>r. [scatter_round (uniform_layout chunk) world r])"
    and "\<forall>r < world. length (init r) = chunk * world" and "cap < chunk" and "(bounded_step (\<lambda>_. True) cap f P world)\<^sup>*\<^sup>* (binit P init) c"
    and "a < world" and "b < world" and "a \<noteq> b"
  shows "inq c a b = [] \<and> bpc c a = 0 \<and>
     (\<exists>c'. (bounded_step (\<lambda>_. True) cap f P world)\<^sup>*\<^sup>* c c' \<and> (\<forall>c''. \<not> bounded_step (\<lambda>_. True) cap f P world c' c'') \<and> bpc c' a = 0)"
proof -
  have "round_protocol P world 1 (\<lambda>_. chunk * world)" using assms(1) gather.round_protocol_axioms scatter.round_protocol_axioms by metis
  moreover have "cap < send_len (P a ! 0) b" "cap < send_len (P b ! 0) a" using assms(1, 3, 5-7) by (auto simp: mesh_send_len uniform_layout_def)
  ultimately show ?thesis using round_protocol.send_first_deadlocks [OF _ assms(4, 2, 5, 6)] by simp
qed



section \<open>All-to-all\<close>

text \<open>
  The byte offsets of the parts of a buffer: equal parts when no split sizes are given, otherwise
  running sums of the split sizes.
\<close>

definition split_offsets :: "string \<Rightarrow> nat \<Rightarrow> nat \<Rightarrow> nat \<Rightarrow> nat list \<Rightarrow> nat \<Rightarrow> mccl_error + nat list" where
  "split_offsets side numel esize nbytes splits world =
     (if splits = [] then
        let per = numel div world * esize in
        if per * world \<noteq> nbytes then Inl (MCCLError (''alltoall_base: '' @ side @ '' not divisible by world''))
        else Inr (map (\<lambda>p. p * per) [0..<Suc world])
      else if length splits \<noteq> world
      then Inl (MCCLError (''alltoall_base: '' @ side @ ''_split_sizes wrong length''))
      else Inr (map (\<lambda>p. sum_list (map (\<lambda>s. s * esize) (take p splits))) [0..<Suc world]))"

definition part_len :: "nat list \<Rightarrow> nat \<Rightarrow> nat" where
  "part_len off p = off ! Suc p - off ! p"

text \<open>
  The exchange of one rank. The model's memory of a rank is its input (\<open>in_bytes\<close> bytes) followed by
  the output buffer. A peer with nothing to send and nothing to receive is skipped.
\<close>

definition alltoall_round :: "nat \<Rightarrow> nat list \<Rightarrow> nat list \<Rightarrow> nat \<Rightarrow> nat \<Rightarrow> round" where
  "alltoall_round in_bytes in_off out_off world rank =
     \<lparr>sends = map (\<lambda>p. (p, in_off ! p, part_len in_off p)) (filter (\<lambda>p. part_len in_off p \<noteq> 0) (peers world rank)),
      recvs = map (\<lambda>p. (p, StoreAt (in_bytes + out_off ! p) (part_len out_off p)))
                (filter (\<lambda>p. part_len out_off p \<noteq> 0) (peers world rank))\<rparr>"

record alltoall_plan =
  in_off :: "nat list"
  out_off :: "nat list"
  program :: "round list"

definition alltoall_base :: "tensor_meta \<Rightarrow> tensor_meta \<Rightarrow> nat list \<Rightarrow> nat list \<Rightarrow> nat \<Rightarrow> nat \<Rightarrow> mccl_error + alltoall_plan" where
  "alltoall_base output input output_splits input_splits world rank =
     (if world = 1 then Inr \<lparr>in_off = [0, tensor_nbytes input], out_off = [0, tensor_nbytes output], program = []\<rparr>
      else case check_mps input ''alltoall_base'' of Inl e \<Rightarrow> Inl e | Inr _ \<Rightarrow>
     (case check_mps output ''alltoall_base'' of Inl e \<Rightarrow> Inl e | Inr _ \<Rightarrow>
     (case check_single_tensor input of Inl e \<Rightarrow> Inl e | Inr _ \<Rightarrow>
      let esize = element_size input in
      if esize \<noteq> element_size output then Inl (MCCLError ''alltoall_base: dtype mismatch'')
      else case split_offsets ''input'' (tensor_numel input) esize (tensor_nbytes input) input_splits world of
        Inl e \<Rightarrow> Inl e
      | Inr ioff \<Rightarrow>
       (case split_offsets ''output'' (tensor_numel output) esize (tensor_nbytes output) output_splits world of
          Inl e \<Rightarrow> Inl e
        | Inr ooff \<Rightarrow>
          if part_len ioff rank \<noteq> part_len ooff rank
          then Inl (MCCLError ''alltoall_base: self chunk size mismatch'')
          else Inr \<lparr>in_off = ioff, out_off = ooff,
                    program = [alltoall_round (tensor_nbytes input) ioff ooff world rank]\<rparr>))))"

text \<open>The memory before the exchange: the rank's own part has been copied to the output.\<close>

definition alltoall_memory :: "u8 list \<Rightarrow> u8 list \<Rightarrow> nat list \<Rightarrow> nat list \<Rightarrow> nat \<Rightarrow> u8 list" where
  "alltoall_memory input output ioff ooff rank =
     input @ overwrite output (ooff ! rank) (slice (ioff ! rank) (part_len ioff rank) input)"

lemma split_offsets_mono:
  assumes "split_offsets side numel es nbytes splits world = Inr off" and "p \<le> q" and "q \<le> world"
  shows "off ! p \<le> off ! q"
proof (cases "splits = []")
  case True
  with assms show ?thesis by (auto simp: split_offsets_def Let_def nth_append split: if_splits)
next
  case False
  define g where "g = (\<lambda>k. sum_list (map (\<lambda>s. s * es) (take k splits)))"
  have "take q splits = take p splits @ take (q - p) (drop p splits)"
    using assms(2) by (metis le_add_diff_inverse take_add)
  then have "g p \<le> g q" by (simp add: g_def)
  moreover have "off = map g [0..<Suc world]"
    using assms(1) False by (simp add: split_offsets_def g_def del: upt_Suc split: if_splits)
  ultimately show ?thesis using assms(2,3) by (simp del: upt_Suc)
qed

lemma part_fits: "p < w \<Longrightarrow> (\<And>p q. p \<le> q \<Longrightarrow> q \<le> w \<Longrightarrow> off ! p \<le> off ! q) \<Longrightarrow> off ! p + part_len off p \<le> off ! w"
  by (simp add: part_len_def)

lemma parts_disjoint:
  assumes "p < w" and "q < w" and "p \<noteq> q" and "\<And>p q. p \<le> q \<Longrightarrow> q \<le> w \<Longrightarrow> off ! p \<le> off ! q"
  shows "off ! p + part_len off p \<le> off ! q \<or> off ! q + part_len off q \<le> off ! p"
  using assms(3) assms(4) [of p "Suc p"] assms(4) [of q "Suc q"] assms(4) [of "Suc p" q] assms(4) [of "Suc q" p] assms(1,2)
  by (auto simp: part_len_def nat_neq_iff)

text \<open>Storing messages at disjoint places keeps every one of them.\<close>

lemma fold_store_slice:
  assumes "\<And>p. p \<in> set ps \<Longrightarrow> length (m p) = len p \<and> off p + len p \<le> n"
    and "\<And>q. q \<in> set ps \<Longrightarrow> q \<noteq> p \<Longrightarrow> off p + len p \<le> off q \<or> off q + len q \<le> off p"
    and "length t = n" and "off p + len p \<le> n"
  shows "slice (off p) (len p) (fold (\<lambda>p t. overwrite t (off p) (m p)) ps t) =
         (if p \<in> set ps then m p else slice (off p) (len p) t)"
  using assms
proof (induction ps arbitrary: t)
  case (Cons q ps)
  let ?t = "overwrite t (off q) (m q)"
  have q: "length (m q) = len q" "off q + len q \<le> n" using Cons.prems(1) [of q] by auto
  then have "length ?t = n" using Cons.prems(3) by simp
  then have IH: "slice (off p) (len p) (fold (\<lambda>p t. overwrite t (off p) (m p)) ps ?t) =
      (if p \<in> set ps then m p else slice (off p) (len p) ?t)"
    using Cons.IH [of ?t] Cons.prems by simp
  show ?case
  proof (cases "p = q")
    case True
    then have "slice (off p) (len p) ?t = m p" using slice_overwrite_same [of "off q" "m q" t] q Cons.prems(3) by simp
    with IH True show ?thesis by simp
  next
    case False
    then have "slice (off p) (len p) ?t = slice (off p) (len p) t"
      using Cons.prems(2) [of q] q Cons.prems(3,4) by (intro slice_overwrite_disjoint) auto
    with IH False show ?thesis by simp
  qed
qed simp

lemma alltoall_lens:
  "send_len (alltoall_round b ioff ooff world r) q = (if q < world \<and> q \<noteq> r then part_len ioff q else 0)"
  "recv_len (alltoall_round b ioff ooff world q) r = (if r < world \<and> r \<noteq> q then part_len ooff r else 0)"
  by (auto simp: send_len_def recv_len_def alltoall_round_def map_of_map_restrict restrict_map_def)

lemma alltoall_wf:
  assumes "\<And>p q. p \<le> q \<Longrightarrow> q \<le> world \<Longrightarrow> ioff ! p \<le> ioff ! q" and "ioff ! world \<le> b"
    and "\<And>p q. p \<le> q \<Longrightarrow> q \<le> world \<Longrightarrow> ooff ! p \<le> ooff ! q" and "ooff ! world \<le> ob"
  shows "wf_round world (b + ob) (alltoall_round b ioff ooff world r)"
proof -
  have "ioff ! p + part_len ioff p \<le> b + ob \<and> b + ooff ! p + part_len ooff p \<le> b + ob" if "p < world" for p
    using part_fits [OF that, of ioff] part_fits [OF that, of ooff] assms by fastforce
  then show ?thesis by (auto simp: wf_round_def alltoall_round_def o_def)
qed

lemma alltoall_base_plan:
  assumes "alltoall_base out inp osp isp world rank = Inr plan" and "world \<noteq> 1"
  shows "program plan = [alltoall_round (tensor_nbytes inp) (in_off plan) (out_off plan) world rank]"
    and "p \<le> q \<Longrightarrow> q \<le> world \<Longrightarrow> in_off plan ! p \<le> in_off plan ! q"
    and "p \<le> q \<Longrightarrow> q \<le> world \<Longrightarrow> out_off plan ! p \<le> out_off plan ! q"
  using assms by (auto simp: alltoall_base_def Let_def split: sum.splits if_splits intro: split_offsets_mono)

text \<open>The memory of a rank after the exchange, part by part.\<close>

lemma alltoall_parts:
  assumes mono: "\<And>p q. p \<le> q \<Longrightarrow> q \<le> world \<Longrightarrow> ooff ! p \<le> ooff ! q" and fits: "ooff ! world \<le> ob"
    and msg: "\<And>p. p < world \<Longrightarrow> p \<noteq> r \<Longrightarrow> length (m p) = part_len ooff p"
    and t: "length t = b + ob" and p: "p < world"
  shows "slice (b + ooff ! p) (part_len ooff p)
      (fold (\<lambda>(src, act). apply_recv f act (m src)) (recvs (alltoall_round b ioff ooff world r)) t) =
     (if p = r then slice (b + ooff ! p) (part_len ooff p) t else m p)"
proof -
  let ?ps = "filter (\<lambda>p. part_len ooff p \<noteq> 0) (peers world r)"
  have fold: "fold (\<lambda>(src, act). apply_recv f act (m src)) (recvs (alltoall_round b ioff ooff world r)) t =
      fold (\<lambda>p t. overwrite t (b + ooff ! p) (m p)) ?ps t"
  proof -
    have "apply_recv f (StoreAt off len) msg = (\<lambda>t. overwrite t off msg)" for off len and msg :: "'a list"
      by (rule ext) simp
    then show ?thesis by (simp add: alltoall_round_def fold_map o_def)
  qed
  have fit: "ooff ! q + part_len ooff q \<le> ob" if "q < world" for q
    using part_fits [OF that mono] fits by fastforce
  have "slice (b + ooff ! p) (part_len ooff p) (fold (\<lambda>p t. overwrite t (b + ooff ! p) (m p)) ?ps t) =
      (if p \<in> set ?ps then m p else slice (b + ooff ! p) (part_len ooff p) t)"
    using msg fit t p parts_disjoint [OF p _ _ mono]
    by (intro fold_store_slice [where n = "b + ob"]) (auto simp: add.assoc)
  then show ?thesis using p msg [of p] by (auto simp: fold slice_def)
qed

text \<open>The exchange of parts, for any offset tables that agree pairwise.\<close>

lemma alltoall_exchange:
  assumes prog: "\<And>r. r < world \<Longrightarrow> P r = [alltoall_round (ib r) (ioff r) (ooff r) world r]"
    and imono: "\<And>r p q. r < world \<Longrightarrow> p \<le> q \<Longrightarrow> q \<le> world \<Longrightarrow> ioff r ! p \<le> ioff r ! q"
    and omono: "\<And>r p q. r < world \<Longrightarrow> p \<le> q \<Longrightarrow> q \<le> world \<Longrightarrow> ooff r ! p \<le> ooff r ! q"
    and lens: "\<forall>r < world. length (input r) = ib r \<and> length (output r) = ob r"
    and fits: "\<forall>r < world. ioff r ! world \<le> ib r \<and> ooff r ! world \<le> ob r"
    and agree: "\<forall>p < world. \<forall>q < world. part_len (ioff p) q = part_len (ooff q) p"
    and bound: "\<forall>p < world. \<forall>q < world. part_len (ioff p) q \<le> bound"
  shows "\<exists>result. computes_send_first bound f P world 1 (\<lambda>r. alltoall_memory (input r) (output r) (ioff r) (ooff r) r) result \<and>
     (\<forall>r < world. \<forall>p < world.
        slice (ib r + ooff r ! p) (part_len (ooff r) p) (result r) = slice (ioff p ! r) (part_len (ioff p) r) (input p))"
proof -
  let ?mem = "\<lambda>r. alltoall_memory (input r) (output r) (ioff r) (ooff r) r"
  let ?res = "sync f P ?mem 1"
  have prot: "round_protocol P world 1 (\<lambda>r. ib r + ob r)"
    using prog alltoall_wf [OF imono _ omono] fits agree
    by unfold_locales (simp add: matched_def alltoall_lens)
  have ofit: "ooff r ! p + part_len (ooff r) p \<le> ob r" and ifit: "ioff r ! p + part_len (ioff r) p \<le> ib r"
    if "r < world" "p < world" for r p
    using part_fits [OF that(2) omono [OF that(1)]] part_fits [OF that(2) imono [OF that(1)]] fits that by fastforce+
  have self: "length (slice (ioff r ! r) (part_len (ioff r) r) (input r)) = part_len (ooff r) r"
    if "r < world" for r using ifit [OF that that] lens that agree by (simp add: length_slice)
  have memlen: "\<forall>r < world. length (?mem r) = ib r + ob r"
    using lens self ofit by (simp add: alltoall_memory_def)
  have inpart: "slice off n (?mem p) = slice off n (input p)" if "p < world" "off + n \<le> ib p" for p off n
    using that lens by (simp add: alltoall_memory_def slice_def)
  have "slice (ib r + ooff r ! p) (part_len (ooff r) p) (?res r) = slice (ioff p ! r) (part_len (ioff p) r) (input p)"
    if r: "r < world" and p: "p < world" for r p
  proof -
    let ?m = "\<lambda>q. message (P q ! 0) r (?mem q)"
    have m: "?m q = slice (ioff q ! r) (part_len (ioff q) r) (input q)" if "q < world" "q \<noteq> r" for q
      using prog [OF that(1)] that r inpart [OF that(1) ifit [OF that(1) r]]
      by (auto simp: message_def alltoall_round_def map_of_map_restrict restrict_map_def slice_def)
    have mlen: "length (?m q) = part_len (ooff r) q" if "q < world" "q \<noteq> r" for q
      using m [OF that] ifit [OF that(1) r] lens agree that r by (simp add: length_slice)
    have "?res r = fold (\<lambda>(src, act). apply_recv f act (?m src)) (recvs (P r ! 0)) (?mem r)"
      by (simp add: sync.simps(2))
    moreover have "slice (ib r + ooff r ! r) (part_len (ooff r) r) (?mem r) = slice (ioff r ! r) (part_len (ioff r) r) (input r)"
    proof -
      have "ib r = length (input r)" using lens r by simp
      then show ?thesis
        using slice_overwrite_same [of "ooff r ! r" "slice (ioff r ! r) (part_len (ioff r) r) (input r)" "output r"]
          slice_append_right [of "input r"] self [OF r] lens ofit [OF r r] r
        by (simp add: alltoall_memory_def)
    qed
    ultimately show ?thesis
      using alltoall_parts [OF omono [OF r] conjunct2 [OF fits [rule_format, OF r]] mlen memlen [rule_format, OF r] p,
          where f = f and ioff = "ioff r"] prog [OF r] m [OF p]
      by (cases "p = r") simp_all
  qed
  then show ?thesis
    using round_protocol.send_first_sync [OF prot memlen, of f ?res bound] prog bound
    by (intro exI [of _ ?res] conjI) (auto simp: alltoall_lens)
qed

text \<open>
  C10. \<open>alltoall_base\<close>: when the ranks' split sizes agree pairwise and stay within their tensors, the
  exchange ends on every rank, and part \<open>p\<close> of the output of rank \<open>r\<close> is part \<open>r\<close> of the input of
  rank \<open>p\<close>, the rank's own part included, under every interleaving and with socket buffers that hold a part.
\<close>

theorem alltoall_base_correct:
  assumes plan: "\<forall>r < world. alltoall_base (outT r) (inT r) (osp r) (isp r) world r = Inr (plan r)" and "world \<noteq> 1"
    and lens: "\<forall>r < world. length (input r) = tensor_nbytes (inT r) \<and> length (output r) = tensor_nbytes (outT r)"
    and fits: "\<forall>r < world. in_off (plan r) ! world \<le> tensor_nbytes (inT r) \<and> out_off (plan r) ! world \<le> tensor_nbytes (outT r)"
    and agree: "\<forall>p < world. \<forall>q < world. part_len (in_off (plan p)) q = part_len (out_off (plan q)) p"
    and bound: "\<forall>p < world. \<forall>q < world. part_len (in_off (plan p)) q \<le> bound"
  shows "\<exists>result. computes_send_first bound f (\<lambda>r. program (plan r)) world 1
       (\<lambda>r. alltoall_memory (input r) (output r) (in_off (plan r)) (out_off (plan r)) r) result \<and>
     (\<forall>r < world. \<forall>p < world.
        slice (tensor_nbytes (inT r) + out_off (plan r) ! p) (part_len (out_off (plan r)) p) (result r) =
        slice (in_off (plan p) ! r) (part_len (in_off (plan p)) r) (input p))"
  by (rule alltoall_exchange [OF alltoall_base_plan [OF plan [rule_format] \<open>world \<noteq> 1\<close>] lens fits agree bound])

definition equal_plan :: "nat \<Rightarrow> alltoall_plan" where
  "equal_plan r = \<lparr>in_off = [0, 8, 16], out_off = [0, 8, 16], program = [alltoall_round 16 [0, 8, 16] [0, 8, 16] 2 r]\<rparr>"

theorem alltoall_base_correct_witness:
  "\<exists>result. computes_send_first 8 (+) (\<lambda>r. program (equal_plan r)) 2 1
       (\<lambda>r. alltoall_memory (replicate 16 (of_nat r)) (replicate 16 0) [0, 8, 16] [0, 8, 16] r) result \<and>
     (\<forall>r < 2. \<forall>p < 2. slice (16 + [0, 8, 16] ! p) (part_len [0, 8, 16] p) (result r) =
        slice ([0, 8, 16] ! r) (part_len [0, 8, 16] r) (replicate 16 (of_nat p)))"
proof -
  have plan: "\<forall>r < 2. alltoall_base example_tensor example_tensor [] [2, 2] 2 r = Inr (equal_plan r)"
    unfolding alltoall_base_def checks_ok [OF example_mps]
    by (simp add: split_offsets_def example_tensor_def tensor_numel_def
        tensor_nbytes_def equal_plan_def part_len_def upt_rec less_2_cases_iff)
  have nb: "tensor_nbytes example_tensor = 16" by (simp add: example_tensor_def tensor_nbytes_def tensor_numel_def)
  have pl: "in_off (equal_plan r) = [0, 8, 16]" "out_off (equal_plan r) = [0, 8, 16]" for r
    by (simp_all add: equal_plan_def)
  show ?thesis
    using alltoall_base_correct [OF plan, of "\<lambda>r. replicate 16 (of_nat r)" "\<lambda>_. replicate 16 0" 8 "(+)"]
    by (simp add: nb pl less_2_cases_iff part_len_def)
qed

text \<open>
  Nothing relates explicit split sizes to the size of the tensor: with splits that sum to more
  than the output holds every check passes, and a peer's part lies outside the receive buffer.
\<close>

theorem alltoall_splits_unchecked:
  "\<exists>plan. alltoall_base example_tensor example_tensor [1, 100] [1, 100] 2 0 = Inr plan \<and>
     tensor_nbytes example_tensor < out_off plan ! 1 + part_len (out_off plan) 1"
  unfolding alltoall_base_def checks_ok [OF example_mps]
    by (simp add: split_offsets_def example_tensor_def tensor_numel_def
      tensor_nbytes_def part_len_def upt_rec)

end
