(* ===== verification/Collectives_List.thy ===== *)
theory Collectives_List
  imports Collectives
begin

text \<open>
  The collectives over lists of tensors of \<open>csrc/backend/ProcessGroupMCCL.cpp\<close>: \<open>allgather\<close>,
  \<open>reduce_scatter\<close> and \<open>alltoall\<close>. Each tensor of the list has its own buffer; the model lays the
  buffers of one call one after the other, so that the exchanges are the full-mesh rounds of the
  flat operations.
\<close>

section \<open>Operations\<close>

text \<open>One iteration of \<open>allgather\<close>: an input tensor and the list of output tensors, one per rank.\<close>

definition allgather_one :: "nat \<Rightarrow> nat \<Rightarrow> tensor_meta \<times> tensor_meta list \<Rightarrow> mccl_error + round list" where
  "allgather_one world rank = (\<lambda>(input, outs).
     if length outs \<noteq> world then Inl (MCCLError ''allgather: output list size != world'')
     else case check_mps input ''allgather'' of Inl e \<Rightarrow> Inl e | Inr _ \<Rightarrow>
         (case map_res (\<lambda>o'. check_mps o' ''allgather'') outs of Inl e \<Rightarrow> Inl e | Inr _ \<Rightarrow>
         (case check_single_tensor input of Inl e \<Rightarrow> Inl e | Inr _ \<Rightarrow>
            Inr [gather_round (uniform_layout (tensor_nbytes input)) world rank])))"

definition allgather :: "tensor_meta list list \<Rightarrow> tensor_meta list \<Rightarrow> nat \<Rightarrow> nat \<Rightarrow> mccl_error + round list list \<times> mccl_error option" where
  "allgather outputs inputs world rank =
     (if world = 1 then
        (if outputs = [] \<or> hd outputs = [] then Inl (MCCLError ''allgather output empty'') else Inr ([], None))
      else if length inputs \<noteq> length outputs
      then Inr ([], Some (MCCLError ''allgather: input/output count mismatch''))
      else Inr (until_error (allgather_one world rank) (zip inputs outputs)))"

text \<open>The copies to the output tensors after the exchange, the rank's own first.\<close>

definition allgather_finish :: "nat \<Rightarrow> tensor_meta \<Rightarrow> tensor_meta list \<Rightarrow> mccl_error + unit list" where
  "allgather_finish rank input outs =
     map_res (\<lambda>p. unstage_check (outs ! p) (tensor_nbytes input)) (rank # peers (length outs) rank)"

definition reduce_scatter_one :: "nat \<Rightarrow> nat \<Rightarrow> tensor_meta \<times> tensor_meta list \<Rightarrow> mccl_error + round list" where
  "reduce_scatter_one world rank = (\<lambda>(out, ins).
     if length ins \<noteq> world then Inl (MCCLError ''reduce_scatter: input list size != world'')
     else case check_mps out ''reduce_scatter'' of Inl e \<Rightarrow> Inl e | Inr _ \<Rightarrow>
         (case map_res (\<lambda>i. stage_check i ''reduce_scatter'') ins of Inl e \<Rightarrow> Inl e | Inr _ \<Rightarrow>
            if tensor_nbytes out \<noteq> tensor_nbytes (ins ! 0)
            then Inl (MCCLError ''reduce_scatter: output size != input chunk size'')
            else case unstage_check out (tensor_nbytes (ins ! 0)) of Inl e \<Rightarrow> Inl e
              | Inr _ \<Rightarrow> Inr [scatter_round (uniform_layout (tensor_numel out)) world rank]))"

definition reduce_scatter :: "tensor_meta list \<Rightarrow> tensor_meta list list \<Rightarrow> nat \<Rightarrow> nat \<Rightarrow> mccl_error + round list list \<times> mccl_error option" where
  "reduce_scatter outputs inputs world rank =
     (if world = 1 then
        (if inputs = [] \<or> hd inputs = [] then Inl (MCCLError ''reduce_scatter input empty'') else Inr ([], None))
      else if length outputs \<noteq> length inputs
      then Inr ([], Some (MCCLError ''reduce_scatter: count mismatch''))
      else Inr (until_error (reduce_scatter_one world rank) (zip outputs inputs)))"

text \<open>Where each tensor of a list starts when the buffers lie one after the other.\<close>

definition list_offsets :: "tensor_meta list \<Rightarrow> nat list" where
  "list_offsets ts = map (\<lambda>p. sum_list (map tensor_nbytes (take p ts))) [0..<Suc (length ts)]"

definition alltoall :: "tensor_meta list \<Rightarrow> tensor_meta list \<Rightarrow> nat \<Rightarrow> nat \<Rightarrow> mccl_error + alltoall_plan" where
  "alltoall outputs inputs world rank =
     (if length inputs \<noteq> world \<or> length outputs \<noteq> world then Inl (MCCLError ''alltoall: list size != world'')
      else if world = 1 then Inr \<lparr>in_off = list_offsets inputs, out_off = list_offsets outputs, program = []\<rparr>
      else case map_res (\<lambda>p. case check_mps (inputs ! p) ''alltoall'' of Inl e \<Rightarrow> Inl e | Inr _ \<Rightarrow>
                           (case check_mps (outputs ! p) ''alltoall'' of Inl e \<Rightarrow> Inl e | Inr _ \<Rightarrow>
                              check_single_tensor (inputs ! p))) [0..<world] of
        Inl e \<Rightarrow> Inl e
      | Inr _ \<Rightarrow>
          (case unstage_check (outputs ! rank) (tensor_nbytes (inputs ! rank)) of Inl e \<Rightarrow> Inl e
           | Inr _ \<Rightarrow> Inr \<lparr>in_off = list_offsets inputs, out_off = list_offsets outputs,
                program = [alltoall_round (list_offsets inputs ! world) (list_offsets inputs) (list_offsets outputs) world rank]\<rparr>))"

section \<open>Correctness\<close>

lemma map_res_units: "\<forall>x \<in> set xs. f x = Inr () \<Longrightarrow> map_res f xs = Inr (map (\<lambda>_. ()) xs)"
  by (rule map_res_ok) simp

lemma list_offsets_nth: "p \<le> length ts \<Longrightarrow> list_offsets ts ! p = sum_list (map tensor_nbytes (take p ts))"
  by (simp add: list_offsets_def del: upt_Suc)

lemma list_offsets_Suc: "p < length ts \<Longrightarrow> list_offsets ts ! Suc p = list_offsets ts ! p + tensor_nbytes (ts ! p)"
  by (simp add: list_offsets_nth take_Suc_conv_app_nth)

lemma part_len_list: "p < length ts \<Longrightarrow> part_len (list_offsets ts) p = tensor_nbytes (ts ! p)"
  by (simp add: part_len_def list_offsets_Suc)

lemma list_offsets_mono: "p \<le> q \<Longrightarrow> q \<le> length ts \<Longrightarrow> list_offsets ts ! p \<le> list_offsets ts ! q"
proof (induction q rule: dec_induct)
  case (step q)
  then show ?case using list_offsets_Suc [of q ts] by simp
qed simp

lemma slice_concat_equal:
  assumes "\<forall>p < world. length (input p) = chunk" and "p < world"
  shows "slice (p * chunk) chunk (concat (map input [0..<world])) = input p"
proof -
  have "[0..<world] = [0..<p] @ p # [Suc p..<world]" using assms(2) by (metis less_imp_add_positive upt_add_eq_append upt_conv_Cons le0 le_add1 less_or_eq_imp_le)
  then have "concat (map input [0..<world]) = concat (map input [0..<p]) @ input p @ concat (map input [Suc p..<world])"
    by simp
  moreover have "length (concat (map input [0..<p])) = p * chunk"
    using length_concat_equal [of p input chunk] assms by (simp add: mult.commute)
  ultimately show ?thesis using assms by (simp add: slice_def)
qed

text \<open>
  \<open>allgather\<close> over lists: for every input of a list, when all outputs have its size, no check fails
  before or after the exchange, and output \<open>p\<close> on every rank receives the input of rank \<open>p\<close>.
\<close>

theorem allgather_correct:
  assumes "world \<noteq> 1" and "length outss = length inps" and "k < length inps"
    and "\<forall>i < length inps. mps_tensor (inps ! i) \<and> length (outss ! i) = world \<and> (\<forall>o' \<in> set (outss ! i). mps_tensor o' \<and> tensor_nbytes o' = tensor_nbytes (inps ! i))"
    and "\<forall>p < world. length (input p) = tensor_nbytes (inps ! k)"
  shows "\<exists>P result. (\<forall>r < world. \<exists>progs. allgather outss inps world r = Inr (progs, None) \<and> progs ! k = P r \<and>
            (\<exists>us. allgather_finish r (inps ! k) (outss ! k) = Inr us)) \<and>
     computes_send_first (tensor_nbytes (inps ! k)) f P world 1 (gather_staging (tensor_nbytes (inps ! k)) world input) result \<and>
     (\<forall>r < world. \<forall>p < world. slice (p * tensor_nbytes (inps ! k)) (tensor_nbytes (inps ! k)) (result r) = input p)"
proof -
  let ?P = "\<lambda>r. [gather_round (uniform_layout (tensor_nbytes (inps ! k))) world r]"
  let ?res = "\<lambda>_. concat (map input [0..<world])"
  have one: "allgather_one world r x = Inr [gather_round (uniform_layout (tensor_nbytes (fst x))) world r]"
    if x: "x \<in> set (zip inps outss)" for r x
  proof -
    obtain i where i: "i < length inps" "x = (inps ! i, outss ! i)" using x assms(2) by (auto simp: in_set_zip prod_eq_iff)
    have "map_res (\<lambda>o'. check_mps o' ''allgather'') (outss ! i) = Inr (map (\<lambda>_. ()) (outss ! i))"
      using assms(4) i(1) by (intro map_res_units) (auto simp: checks_ok)
    then show ?thesis using assms(4) i by (auto simp: allgather_one_def checks_ok)
  qed
  have prog: "allgather outss inps world r = Inr (map (\<lambda>x. [gather_round (uniform_layout (tensor_nbytes (fst x))) world r]) (zip inps outss), None)" for r
    using assms(1,2) one until_error_ok [of "zip inps outss" "allgather_one world r"] by (simp add: allgather_def)
  have fin: "\<exists>us. allgather_finish r (inps ! k) (outss ! k) = Inr us" if "r < world" for r
  proof -
    have "unstage_check (outss ! k ! p) (tensor_nbytes (inps ! k)) = Inr ()" if "p < world" for p
    proof -
      have "outss ! k ! p \<in> set (outss ! k)" using assms(3,4) that by simp
      then have "mps_tensor (outss ! k ! p)" "tensor_nbytes (outss ! k ! p) = tensor_nbytes (inps ! k)" using assms(3,4) by blast+
      then show ?thesis using checks_ok(5) by metis
    qed
    moreover have "length (outss ! k) = world" using assms(3,4) by blast
    ultimately have "map_res (\<lambda>p. unstage_check (outss ! k ! p) (tensor_nbytes (inps ! k))) (r # peers (length (outss ! k)) r) =
        Inr (map (\<lambda>_. ()) (r # peers (length (outss ! k)) r))"
      using that by (intro map_res_units) auto
    then show ?thesis unfolding allgather_finish_def by blast
  qed
  have slices: "\<forall>r < world. \<forall>p < world. slice (p * tensor_nbytes (inps ! k)) (tensor_nbytes (inps ! k)) (?res r) = input p"
    using slice_concat_equal [OF assms(5)] by blast
  have "\<forall>r < world. \<exists>progs. allgather outss inps world r = Inr (progs, None) \<and> progs ! k = ?P r \<and>
      (\<exists>us. allgather_finish r (inps ! k) (outss ! k) = Inr us)"
    using prog fin assms(2,3) by simp
  then show ?thesis using gather_computes [OF assms(5)] slices by (intro exI [of _ ?P] exI [of _ ?res] conjI)
qed

lemma example_nbytes: "tensor_nbytes example_tensor = 16" "tensor_numel example_tensor = 4"
  by (simp_all add: example_tensor_def tensor_nbytes_def tensor_numel_def)

lemma example_kernel_ok: "kernel_ok example_tensor"
  by (simp add: kernel_ok_def example_tensor_def tensor_numel_def)

theorem allgather_correct_witness:
  "\<exists>P result. (\<forall>r < 2. \<exists>progs. allgather [[example_tensor, example_tensor]] [example_tensor] 2 r = Inr (progs, None) \<and> progs ! 0 = P r \<and>
        (\<exists>us. allgather_finish r example_tensor [example_tensor, example_tensor] = Inr us)) \<and>
     computes_send_first 16 (+) P 2 1 (gather_staging 16 2 (\<lambda>p. replicate 16 (of_nat p))) result \<and>
     (\<forall>r < 2. \<forall>p < 2. slice (p * 16) 16 (result r) = replicate 16 (of_nat p))"
  using allgather_correct [of 2 "[[example_tensor, example_tensor]]" "[example_tensor]" 0 "\<lambda>p. replicate 16 (of_nat p)" "(+)"] example_mps
  by (simp add: example_nbytes)

text \<open>
  \<open>reduce_scatter\<close> over lists of tensors that the kernels handle: when the input tensors of an entry all have the size of its output, no check fails,
  and the output of rank \<open>r\<close> is the reduction over all ranks of their \<open>r\<close>-th input tensor.
\<close>

theorem reduce_scatter_correct:
  fixes init :: "nat \<Rightarrow> 'a::linordered_field list"
  assumes "world \<noteq> 1" and "0 < world" and "length outs = length inss" and "k < length outs"
    and "\<forall>i < length outs. mps_tensor (outs ! i) \<and> kernel_ok (outs ! i) \<and> length (inss ! i) = world \<and>
           (\<forall>t \<in> set (inss ! i). mps_tensor t \<and> tensor_nbytes t = tensor_nbytes (outs ! i))"
    and "\<forall>r < world. length (init r) = tensor_numel (outs ! k) * world"
  shows "\<exists>P result. (\<forall>r. \<exists>progs. reduce_scatter outs inss world r = Inr (progs, None) \<and> progs ! k = P r) \<and>
     computes_send_first (tensor_numel (outs ! k)) (reduce_fn op) P world 1 init result \<and>
     (\<forall>r < world. reduce_scatter_output op (tensor_numel (outs ! k)) world r (result r) =
        map (allreduce_spec op init world) [r * tensor_numel (outs ! k)..<Suc r * tensor_numel (outs ! k)])"
proof -
  let ?P = "\<lambda>r. [scatter_round (uniform_layout (tensor_numel (outs ! k))) world r]"
  have one: "reduce_scatter_one world r x = Inr [scatter_round (uniform_layout (tensor_numel (fst x))) world r]"
    if x: "x \<in> set (zip outs inss)" for r x
  proof -
    obtain i where i: "i < length outs" "x = (outs ! i, inss ! i)" using x assms(3) by (auto simp: in_set_zip prod_eq_iff)
    have ok: "mps_tensor (outs ! i)" "length (inss ! i) = world" "\<forall>t \<in> set (inss ! i). mps_tensor t" using assms(5) i(1) by auto
    have "map_res (\<lambda>t. stage_check t ''reduce_scatter'') (inss ! i) = Inr (map (\<lambda>_. ()) (inss ! i))"
      using ok(3) by (intro map_res_units) (simp add: checks_ok)
    moreover have "tensor_nbytes (inss ! i ! 0) = tensor_nbytes (outs ! i)" using assms(2,5) i(1) ok(2) by simp
    ultimately show ?thesis using ok i(2) by (simp add: reduce_scatter_one_def checks_ok)
  qed
  have "reduce_scatter outs inss world r = Inr (map (\<lambda>x. [scatter_round (uniform_layout (tensor_numel (fst x))) world r]) (zip outs inss), None)" for r
    using assms(1,3) one until_error_ok [of "zip outs inss" "reduce_scatter_one world r"] by (simp add: reduce_scatter_def)
  then have "\<forall>r. \<exists>progs. reduce_scatter outs inss world r = Inr (progs, None) \<and> progs ! k = ?P r" using assms(3,4) by simp
  with scatter_computes [OF assms(6), of op] show ?thesis by (intro exI [of _ ?P]) blast
qed

theorem reduce_scatter_correct_witness:
  "\<exists>P result. (\<forall>r. \<exists>progs. reduce_scatter [example_tensor] [[example_tensor, example_tensor]] 2 r = Inr (progs, None) \<and> progs ! 0 = P r) \<and>
     computes_send_first 4 (reduce_fn RedMAX) P 2 1 (\<lambda>r. replicate 8 (of_nat r :: rat)) result \<and>
     (\<forall>r < 2. reduce_scatter_output RedMAX 4 2 r (result r) = map (allreduce_spec RedMAX (\<lambda>r. replicate 8 (of_nat r)) 2) [r * 4..<Suc r * 4])"
  using reduce_scatter_correct [of 2 "[example_tensor]" "[[example_tensor, example_tensor]]" 0 "\<lambda>r. replicate 8 (of_nat r :: rat)" RedMAX] example_mps
  by (simp add: example_nbytes example_kernel_ok del: upt_Suc)

text \<open>
  \<open>alltoall\<close> over lists: when what rank \<open>p\<close> has for rank \<open>q\<close> is as large as what rank \<open>q\<close> expects from rank
  \<open>p\<close>, no check fails, and output \<open>p\<close> of rank \<open>r\<close> ends with input \<open>r\<close> of rank \<open>p\<close>.
\<close>

theorem alltoall_correct:
  assumes "world \<noteq> 1" and "\<forall>r < world. length (ins r) = world \<and> length (outs r) = world"
    and "\<forall>r < world. \<forall>t \<in> set (ins r) \<union> set (outs r). mps_tensor t"
    and "\<forall>p < world. \<forall>q < world. tensor_nbytes (ins p ! q) = tensor_nbytes (outs q ! p)"
    and "\<forall>r < world. length (input r) = list_offsets (ins r) ! world \<and> length (output r) = list_offsets (outs r) ! world"
    and "\<forall>r < world. \<forall>t \<in> set (ins r). tensor_nbytes t \<le> bound"
  shows "\<exists>plan result. (\<forall>r < world. alltoall (outs r) (ins r) world r = Inr (plan r)) \<and>
     computes_send_first bound f (\<lambda>r. program (plan r)) world 1
       (\<lambda>r. alltoall_memory (input r) (output r) (list_offsets (ins r)) (list_offsets (outs r)) r) result \<and>
     (\<forall>r < world. \<forall>p < world.
        slice (list_offsets (ins r) ! world + list_offsets (outs r) ! p) (tensor_nbytes (outs r ! p)) (result r) =
        slice (list_offsets (ins p) ! r) (tensor_nbytes (ins p ! r)) (input p))"
proof -
  let ?io = "\<lambda>r. list_offsets (ins r)" and ?oo = "\<lambda>r. list_offsets (outs r)"
  define plan where "plan r = \<lparr>in_off = ?io r, out_off = ?oo r, program = [alltoall_round (?io r ! world) (?io r) (?oo r) world r]\<rparr>" for r
  have plan: "\<forall>r < world. alltoall (outs r) (ins r) world r = Inr (plan r)"
  proof (intro allI impI)
    fix r assume r: "r < world"
    have mps: "mps_tensor (ins r ! p)" "mps_tensor (outs r ! p)" if "p < world" for p using assms(2,3) r that by auto
    have "map_res (\<lambda>p. case check_mps (ins r ! p) ''alltoall'' of Inl e \<Rightarrow> Inl e | Inr _ \<Rightarrow>
          (case check_mps (outs r ! p) ''alltoall'' of Inl e \<Rightarrow> Inl e | Inr _ \<Rightarrow> check_single_tensor (ins r ! p))) [0..<world] =
        Inr (map (\<lambda>_. ()) [0..<world])" using mps by (intro map_res_units) (simp add: checks_ok)
    moreover have "unstage_check (outs r ! r) (tensor_nbytes (ins r ! r)) = Inr ()" using assms(4) r mps checks_ok(5) by simp
    ultimately show "alltoall (outs r) (ins r) world r = Inr (plan r)" using assms(1,2) r by (simp add: alltoall_def plan_def)
  qed
  have parts: "part_len (?io r) p = tensor_nbytes (ins r ! p)" "part_len (?oo r) p = tensor_nbytes (outs r ! p)" if "r < world" "p < world" for r p
    using assms(2) that by (simp_all add: part_len_list)
  have small: "tensor_nbytes (ins p ! q) \<le> bound" if "p < world" "q < world" for p q using assms(2,6) that by auto
  have "\<exists>result. computes_send_first bound f (\<lambda>r. program (plan r)) world 1 (\<lambda>r. alltoall_memory (input r) (output r) (?io r) (?oo r) r) result \<and>
     (\<forall>r < world. \<forall>p < world.
        slice (?io r ! world + ?oo r ! p) (part_len (?oo r) p) (result r) = slice (?io p ! r) (part_len (?io p) r) (input p))"
    by (rule alltoall_exchange [where ob = "\<lambda>r. ?oo r ! world"]) (use assms(2,4,5) parts small in \<open>auto simp: plan_def simp flip: assms(4) intro: list_offsets_mono\<close>)
  then show ?thesis using plan parts by auto
qed

theorem alltoall_correct_witness:
  "\<exists>plan result. (\<forall>r < 2. alltoall [example_tensor, example_tensor] [example_tensor, example_tensor] 2 r = Inr (plan r)) \<and>
     computes_send_first 16 (+) (\<lambda>r. program (plan r)) 2 1
       (\<lambda>r. alltoall_memory (replicate 32 (of_nat r)) (replicate 32 0) (list_offsets [example_tensor, example_tensor])
              (list_offsets [example_tensor, example_tensor]) r) result \<and>
     (\<forall>r < 2. \<forall>p < 2. slice (32 + 16 * p) 16 (result r) = replicate 16 (of_nat p))"
proof -
  let ?ts = "[example_tensor, example_tensor]"
  have off: "list_offsets ?ts ! p = 16 * p" if "p \<le> 2" for p
    using that by (auto simp: list_offsets_nth example_nbytes le_Suc_eq numeral_2_eq_2)
  have nth: "?ts ! p = example_tensor" if "p < 2" for p using that by (auto simp: less_2_cases_iff)
  have sl: "slice (16 * r) 16 (replicate 32 x) = replicate 16 x" if "r < 2" for r x using that by (auto simp: slice_def less_2_cases_iff)
  show ?thesis
    using alltoall_correct [of 2 "\<lambda>_. ?ts" "\<lambda>_. ?ts" "\<lambda>r. replicate 32 (of_nat r)" "\<lambda>_. replicate 32 0" 16 "(+)"] example_mps
    by (simp add: off nth example_nbytes sl cong: conj_cong)
qed

end
