(* ===== verification/Wire.thy ===== *)
theory Wire
  imports Prelude
begin

text \<open>
  Byte encodings. The program serialises its structures by copying the bytes of each field
  with \<open>memcpy\<close>; the hosts are little-endian (arm64), so a field is its base-256 digits, least
  significant first. The locale \<open>wire_codec\<close> is the contract of every fixed-width structure
  encoding of the program.
\<close>

section \<open>Little-endian words\<close>

fun nat_bytes :: "nat \<Rightarrow> nat \<Rightarrow> u8 list" where
  "nat_bytes 0 x = []"
| "nat_bytes (Suc n) x = word_of_nat (x mod 256) # nat_bytes n (x div 256)"

fun nat_of_bytes :: "u8 list \<Rightarrow> nat" where
  "nat_of_bytes [] = 0"
| "nat_of_bytes (b # bs) = unat b + 256 * nat_of_bytes bs"

definition to_bytes :: "nat \<Rightarrow> 'a::len word \<Rightarrow> u8 list" where
  "to_bytes n w = nat_bytes n (unat w)"

definition of_bytes :: "u8 list \<Rightarrow> 'a::len word" where
  "of_bytes bs = word_of_nat (nat_of_bytes bs)"

lemma nat_bytes_numeral [simp]:
  "nat_bytes (numeral k) x = word_of_nat (x mod 256) # nat_bytes (pred_numeral k) (x div 256)"
  unfolding numeral_eq_Suc [of k] by (rule nat_bytes.simps)

lemma nat_bytes_0 [simp]: "nat_bytes n 0 = replicate n 0"
  by (induction n) auto

lemma to_bytes_0 [simp]: "to_bytes n 0 = replicate n 0"
  by (simp add: to_bytes_def)

lemma of_bytes_zeros [simp]: "of_bytes (replicate n 0) = 0"
proof -
  have "nat_of_bytes (replicate n 0) = 0" by (induction n) auto
  then show ?thesis by (simp add: of_bytes_def)
qed

lemma of_bytes_zeros_Cons [simp]: "of_bytes (0 # replicate n 0) = 0"
  using of_bytes_zeros [of "Suc n"] by simp

lemma length_nat_bytes [simp]: "length (nat_bytes n x) = n"
  by (induction n x rule: nat_bytes.induct) auto

lemma length_to_bytes [simp, wire_simps]: "length (to_bytes n w) = n"
  by (simp add: to_bytes_def)

lemma unat_byte_of_nat [simp]: "unat (word_of_nat x :: u8) = x mod 256"
  by (simp add: unsigned_of_nat take_bit_eq_mod)

lemma unat_byte_less: "unat (b :: u8) < 256"
  by (rule order_less_le_trans [OF unsigned_less]) simp

lemma unat_byte_mod [simp]: "unat (b :: u8) mod 256 = unat b"
  using unat_byte_less [of b] by simp

lemma unat_byte_div [simp]: "unat (b :: u8) div 256 = 0"
  using unat_byte_less [of b] by simp

lemma unat_word_of_nat_less: "n < 2 ^ LENGTH('a) \<Longrightarrow> unat (word_of_nat n :: 'a::len word) = n"
  by (simp add: unsigned_of_nat take_bit_eq_mod)

lemma nat_of_bytes_nat_bytes: "nat_of_bytes (nat_bytes n x) = x mod 256 ^ n"
proof (induction n x rule: nat_bytes.induct)
  case (2 n x)
  have "x mod (256 * 256 ^ n) = x mod 256 + 256 * (x div 256 mod 256 ^ n)"
    by (simp add: mod_mult2_eq)
  with 2 show ?case by simp
qed simp

lemma of_to_bytes [wire_simps]:
  fixes w :: "'a::len word"
  assumes "LENGTH('a) \<le> 8 * n"
  shows "of_bytes (to_bytes n w) = w"
proof -
  have "unat w < 2 ^ LENGTH('a)" by (rule unsigned_less)
  also have "(2::nat) ^ LENGTH('a) \<le> 2 ^ (8 * n)" using assms by (intro power_increasing) auto
  also have "(2::nat) ^ (8 * n) = 256 ^ n" by (simp add: power_mult)
  finally show ?thesis
    by (simp add: of_bytes_def to_bytes_def nat_of_bytes_nat_bytes)
qed

lemma nat_bytes_nat_of_bytes: "nat_bytes (length bs) (nat_of_bytes bs) = bs"
  by (induction bs) (auto simp: unat_byte_mod)

lemma nat_of_bytes_less: "nat_of_bytes bs < 256 ^ length bs"
proof (induction bs)
  case (Cons b bs)
  have "unat b < 256" using unat_byte_less [of b] by simp
  with Cons show ?case by simp
qed simp

lemma to_of_bytes [wire_simps]:
  assumes "LENGTH('a) = 8 * n" and "length bs = n"
  shows "to_bytes n (of_bytes bs :: 'a::len word) = bs"
proof -
  have "(256::nat) ^ n = 2 ^ LENGTH('a)" using assms by (simp add: power_mult)
  then have "nat_of_bytes bs < 2 ^ LENGTH('a)"
    using nat_of_bytes_less [of bs] assms by simp
  then have "unat (of_bytes bs :: 'a word) = nat_of_bytes bs"
    by (simp add: of_bytes_def unat_word_of_nat_less)
  then show ?thesis using nat_bytes_nat_of_bytes [of bs] assms by (simp add: to_bytes_def)
qed

section \<open>The contract of a fixed-width structure encoding\<close>

locale wire_codec =
  fixes enc :: "'a \<Rightarrow> u8 list" and dec :: "u8 list \<Rightarrow> 'a" and wsize :: nat
  assumes enc_length: "length (enc x) = wsize"
    and dec_enc: "dec (enc x @ rest) = x"
begin

lemma dec_enc_exact: "dec (enc x) = x"
  using dec_enc [of x "[]"] by simp

lemma enc_inject: "enc x = enc y \<longleftrightarrow> x = y"
  by (metis dec_enc_exact)

text \<open>Element \<open>i\<close> of a table of encodings sits at byte offset \<open>i * wsize\<close>.\<close>

lemma dec_table: "i < length xs \<Longrightarrow> dec (drop (i * wsize) (concat (map enc xs))) = xs ! i"
proof (induction xs arbitrary: i)
  case (Cons x xs)
  then show ?case
    by (cases i) (auto simp: dec_enc enc_length)
qed simp

text \<open>Writing one encoding into a buffer and reading it back, wherever it is placed.\<close>

lemma dec_overwrite:
  assumes "off + wsize \<le> length buf"
  shows "dec (drop off (overwrite buf off (enc x))) = x"
  using assms by (simp add: overwrite_def enc_length dec_enc)

lemma length_overwrite_enc:
  "off + wsize \<le> length buf \<Longrightarrow> length (overwrite buf off (enc x)) = length buf"
  by (simp add: enc_length)

end

end
