(* ===== verification/Point_To_Point.thy ===== *)
theory Point_To_Point
  imports Process_Group Wire
begin

text \<open>
  Tagged point-to-point messages (\<open>ProcessGroupMCCL::send\<close> and \<open>ProcessGroupMCCL::recv\<close>): an 8-byte
  header with the tag and the byte count precedes the payload on the peer's stream. A stream that
  ends early makes \<open>PeerMesh::recv\<close> fail.
\<close>

definition bad_rank :: "string \<Rightarrow> int \<Rightarrow> int \<Rightarrow> int \<Rightarrow> mccl_error + unit" where
  "bad_rank msg peer world rank =
     (if 0 \<le> peer \<and> peer < world \<and> peer \<noteq> rank then Inr () else Inl (MCCLError msg))"

definition int_string :: "int \<Rightarrow> string" where
  "int_string i = (if i < 0 then CHR ''-'' # to_string (nat (- i)) else to_string (nat i))"

definition send_one :: "int \<Rightarrow> u8 list \<Rightarrow> u8 list" where
  "send_one tag data =
     (let nbytes = (of_nat (length data) :: u32) in
      to_bytes 4 (of_int tag :: 32 word) @ to_bytes 4 nbytes @ take (unat nbytes) data)"

definition send_tensors :: "int \<Rightarrow> (tensor_meta \<times> u8 list) list \<Rightarrow> u8 list \<times> mccl_error option" where
  "send_tensors tag tds =
     map_prod concat id
       (until_error (\<lambda>(t, d). case stage_check t ''send'' of Inl e \<Rightarrow> Inl e | Inr _ \<Rightarrow> Inr (send_one tag d)) tds)"

definition p2p_send :: "int \<Rightarrow> int \<Rightarrow> int \<Rightarrow> int \<Rightarrow> (tensor_meta \<times> u8 list) list \<Rightarrow> mccl_error + u8 list \<times> mccl_error option" where
  "p2p_send dst world rank tag tds =
     (case bad_rank ''send: bad dst_rank'' dst world rank of Inl e \<Rightarrow> Inl e | Inr _ \<Rightarrow> Inr (send_tensors tag tds))"

definition recv_one :: "int \<Rightarrow> tensor_meta \<Rightarrow> u8 list \<Rightarrow> (mccl_error + u8 list) \<times> u8 list" where
  "recv_one tag t stream =
     (case check_mps t ''recv'' of Inl e \<Rightarrow> (Inl e, stream) | Inr _ \<Rightarrow>
      if length stream < 8 then (Inl (MCCLError ''PeerMesh: recv failed''), [])
      else let got = sint (of_bytes (take 4 stream) :: 32 word);
               n = unat (of_bytes (take 4 (drop 4 stream)) :: u32);
               rest = drop 8 stream in
        if \<not> (tag < 0 \<or> got = tag)
        then (Inl (MCCLError (''recv: tag mismatch (expected '' @ int_string tag @ '' got '' @ int_string got @ '')'')), rest)
        else if n \<noteq> tensor_nbytes t
        then (Inl (MCCLError (''recv: size mismatch (expected '' @ to_string (tensor_nbytes t) @ '' got '' @ to_string n @ '')'')), rest)
        else if length rest < n then (Inl (MCCLError ''PeerMesh: recv failed''), [])
        else case unstage_check t n of Inl e \<Rightarrow> (Inl e, drop n rest) | Inr _ \<Rightarrow> (Inr (take n rest), drop n rest))"

fun recv_tensors :: "int \<Rightarrow> tensor_meta list \<Rightarrow> u8 list \<Rightarrow> (mccl_error + u8 list list) \<times> u8 list" where
  "recv_tensors tag [] stream = (Inr [], stream)"
| "recv_tensors tag (t # ts) stream =
     (case recv_one tag t stream of
        (Inl e, rest) \<Rightarrow> (Inl e, rest)
      | (Inr d, rest) \<Rightarrow>
         (case recv_tensors tag ts rest of
            (Inl e, rest') \<Rightarrow> (Inl e, rest')
          | (Inr ds, rest') \<Rightarrow> (Inr (d # ds), rest')))"

definition p2p_recv :: "int \<Rightarrow> int \<Rightarrow> int \<Rightarrow> int \<Rightarrow> tensor_meta list \<Rightarrow> u8 list \<Rightarrow> mccl_error + (mccl_error + u8 list list) \<times> u8 list" where
  "p2p_recv src world rank tag ts stream =
     (case bad_rank ''recv: bad src_rank'' src world rank of Inl e \<Rightarrow> Inl e | Inr _ \<Rightarrow> Inr (recv_tensors tag ts stream))"

definition int32_range :: "int \<Rightarrow> bool" where
  "int32_range i \<longleftrightarrow> - (2 ^ 31) \<le> i \<and> i < 2 ^ 31"

lemma sint_of_int32: "int32_range i \<Longrightarrow> sint (of_int i :: 32 word) = i"
  by (simp add: int32_range_def signed_take_bit_int_eq_self sint_sbintrunc')

lemma header_fields:
  assumes "int32_range tag" and "length data < 2 ^ 32"
  shows "sint (of_bytes (take 4 (send_one tag data @ rest)) :: 32 word) = tag"
    and "unat (of_bytes (take 4 (drop 4 (send_one tag data @ rest))) :: u32) = length data"
    and "drop 8 (send_one tag data @ rest) = data @ rest"
    and "8 \<le> length (send_one tag data @ rest)"
  using assms
  by (simp_all add: send_one_def Let_def of_to_bytes sint_of_int32 unat_word_of_nat_less)

lemma recv_one_stream:
  assumes "sint (of_bytes (take 4 s) :: 32 word) = got" and "unat (of_bytes (take 4 (drop 4 s)) :: u32) = length data"
    and "drop 8 s = data @ rest" and "8 \<le> length s" and "mps_tensor t"
  shows "want < 0 \<or> want = got \<Longrightarrow> length data = tensor_nbytes t \<Longrightarrow> recv_one want t s = (Inr data, rest)"
    and "0 \<le> want \<and> want \<noteq> got \<or> length data \<noteq> tensor_nbytes t \<Longrightarrow> \<exists>e. recv_one want t s = (Inl e, data @ rest)"
  using assms checks_ok [OF assms(5)] by (auto simp: recv_one_def Let_def)

lemma recv_one_send_one:
  assumes "int32_range tag" and "length data < 2 ^ 32" and "want < 0 \<or> want = tag" and "mps_tensor t" and "length data = tensor_nbytes t"
  shows "recv_one want t (send_one tag data @ rest) = (Inr data, rest)"
  by (rule recv_one_stream(1) [OF header_fields [OF assms(1,2)] assms(4,3,5)])



text \<open>
  A receive that rejects a message leaves the stream inside it: after a tag or size mismatch the
  payload of the rejected message is still unread, so the next receive from that peer takes payload
  bytes for a header.
\<close>

theorem recv_mismatch_desync:
  assumes "int32_range tag" and "length data < 2 ^ 32" and "mps_tensor t" and "0 \<le> want \<and> want \<noteq> tag \<or> length data \<noteq> tensor_nbytes t"
  shows "\<exists>e. recv_one want t (send_one tag data @ rest) = (Inl e, data @ rest)"
  by (rule recv_one_stream(2) [OF header_fields [OF assms(1,2)] assms(3,4)])

theorem recv_mismatch_desync_witness:
  "\<exists>e. recv_one 7 example_tensor (send_one 5 [1, 2, 3] @ []) = (Inl e, [1, 2, 3])"
  using recv_mismatch_desync [of 5 "[1, 2, 3]" example_tensor 7 "[]"] example_mps by (simp add: int32_range_def)

end
