(* ===== verification/Peer_Mesh.thy ===== *)
theory Peer_Mesh
  imports Errors "HOL-Library.Sublist"
begin

text \<open>
  The TCP mesh of \<open>csrc/backend/PeerMesh.cpp\<close>: complete reads and writes over a socket that transfers
  partial amounts, the interface priority list, the endpoint string that ranks publish in the store
  and parse from each other, the choice of reachable addresses, and the acceptor thread. The
  operating system's answers (how many bytes a call moves, which connections arrive) are arguments.
\<close>

section \<open>Complete reads and writes\<close>

text \<open>
  What the peer's bytes look like to \<open>::recv\<close>: a sequence of deliveries, of which each call hands out
  at most as much as it was asked for. An empty delivery is the end of the stream or an error.
\<close>

fun read_all :: "nat \<Rightarrow> u8 list list \<Rightarrow> (u8 list \<times> u8 list list) option" where
  "read_all 0 ds = Some ([], ds)"
| "read_all (Suc n) [] = None"
| "read_all (Suc n) (d # ds) =
     (if d = [] then None
      else if length d \<le> Suc n
      then map_option (\<lambda>(bs, rest). (d @ bs, rest)) (read_all (Suc n - length d) ds)
      else Some (take (Suc n) d, drop (Suc n) d # ds))"

text \<open>\<open>::send\<close> accepts some of the bytes: a positive count, at most what is left, or failure.\<close>

fun write_all :: "u8 list \<Rightarrow> int list \<Rightarrow> u8 list \<times> bool" where
  "write_all [] ns = ([], True)"
| "write_all (b # bs) [] = ([], False)"
| "write_all (b # bs) (n # ns) =
     (if n \<le> 0 then ([], False)
      else let k = min (nat n) (length (b # bs));
               (w, ok) = write_all (drop k (b # bs)) ns in (take k (b # bs) @ w, ok))"

lemma read_all_sound: "read_all n ds = Some (bs, rest) \<Longrightarrow> concat ds = bs @ concat rest \<and> length bs = n"
proof (induction n ds arbitrary: bs rest rule: read_all.induct)
  case (3 n d ds)
  show ?case
  proof (cases "length d \<le> Suc n")
    case True
    then obtain bs' where "read_all (Suc n - length d) ds = Some (bs', rest)" "bs = d @ bs'" "d \<noteq> []"
      using 3(2) by (auto split: if_splits)
    with True 3(1) [of bs' rest] show ?thesis by simp
  next
    case False
    then have "bs = take (Suc n) d" "rest = drop (Suc n) d # ds" using 3(2) by (auto split: if_splits)
    with False show ?thesis using append_take_drop_id [of "Suc n" d]
      by (metis append_assoc concat.simps(2) length_take min_absorb2 nat_le_linear)
  qed
qed auto

lemma read_all_complete:
  "[] \<notin> set ds \<Longrightarrow> n \<le> length (concat ds) \<Longrightarrow> \<exists>bs rest. read_all n ds = Some (bs, rest) \<and> [] \<notin> set rest"
proof (induction n ds rule: read_all.induct)
  case (3 n d ds)
  show ?case
  proof (cases "length d \<le> Suc n")
    case True
    with 3 show ?thesis by fastforce
  next
    case False
    with 3 show ?thesis by auto
  qed
qed auto

text \<open>
  However the network cuts the stream, \<open>read_all\<close> of \<open>n\<close> available bytes returns exactly the next
  \<open>n\<close> bytes and leaves exactly the following ones; it never mixes up or loses bytes. This is what
  the streams of the collectives rely on.
\<close>

theorem read_all_exact:
  assumes "[] \<notin> set ds" and "n \<le> length (concat ds)"
  shows "\<exists>rest. read_all n ds = Some (take n (concat ds), rest) \<and> concat rest = drop n (concat ds) \<and> [] \<notin> set rest"
proof -
  obtain bs rest where r: "read_all n ds = Some (bs, rest)" "[] \<notin> set rest"
    using read_all_complete [OF assms] by blast
  then have "concat ds = bs @ concat rest" "length bs = n" using read_all_sound by blast+
  with r show ?thesis by auto
qed

theorem read_all_exact_witness:
  "\<exists>rest. read_all 3 [[1, 2], [3, 4], [5]] = Some ([1, 2, 3], rest) \<and> concat rest = [4, 5] \<and> [] \<notin> set rest"
  using read_all_exact [of "[[1, 2], [3, 4], [5]]" 3] by simp

lemma write_all_prefix: "write_all bs ns = (w, ok) \<Longrightarrow> prefix w bs \<and> (ok \<longrightarrow> w = bs)"
proof (induction bs ns arbitrary: w ok rule: write_all.induct)
  case (3 b bs n ns)
  define k where "k = min (nat n) (length (b # bs))"
  obtain w' ok' where w': "write_all (drop k (b # bs)) ns = (w', ok')" by (meson surj_pair)
  show ?case
  proof (cases "n \<le> 0")
    case True
    with 3(2) show ?thesis by auto
  next
    case False
    with 3(2) w' have w: "w = take k (b # bs) @ w'" "ok = ok'" by (auto simp: k_def Let_def)
    have "prefix w' (drop k (b # bs)) \<and> (ok' \<longrightarrow> w' = drop k (b # bs))"
      using 3(1) [OF False k_def w'] .
    then show ?thesis unfolding w by (metis append_take_drop_id same_prefix_prefix)
  qed
qed auto

section \<open>Interface priority\<close>

lemma length_after_comma: "s \<noteq> [] \<Longrightarrow> length (dropWhile P s) - Suc 0 < length s"
  using length_dropWhile_le [of P s] by (cases s) (auto simp: less_Suc_eq_le)

text \<open>\<open>prefix_priority\<close>: the non-empty entries of a comma-separated list.\<close>

function split_nonempty :: "string \<Rightarrow> string list" where
  "split_nonempty s =
     (if s = [] then []
      else let tok = takeWhile (\<lambda>c. c \<noteq> CHR '','') s in
        (if tok \<noteq> [] then [tok] else []) @ split_nonempty (tl (dropWhile (\<lambda>c. c \<noteq> CHR '','') s)))"
  by pat_completeness auto
termination
  by (relation "measure length") (auto simp: length_after_comma)

declare split_nonempty.simps [simp del]

definition prefix_priority :: "string option \<Rightarrow> string list" where
  "prefix_priority env = (case env of None \<Rightarrow> [] | Some s \<Rightarrow> split_nonempty s)"

text \<open>\<open>score\<close>: the index of the first prefix that matches, the number of prefixes when none does.\<close>

fun score_from :: "nat \<Rightarrow> string list \<Rightarrow> string \<Rightarrow> nat" where
  "score_from i [] ip = i"
| "score_from i (p # ps) ip = (if prefix p ip then i else score_from (Suc i) ps ip)"

definition score :: "string list \<Rightarrow> string \<Rightarrow> nat" where
  "score pri ip = score_from 0 pri ip"

text \<open>\<open>subnet24\<close>: what precedes the third dot; the whole string when there are fewer.\<close>

fun subnet_before :: "nat \<Rightarrow> string \<Rightarrow> string" where
  "subnet_before dots [] = []"
| "subnet_before dots (c # cs) =
     (if c = CHR ''.'' then (if Suc dots = 3 then [] else c # subnet_before (Suc dots) cs)
      else c # subnet_before dots cs)"

definition subnet24 :: "string \<Rightarrow> string" where
  "subnet24 ip = subnet_before 0 ip"

text \<open>The addresses that a rank advertises: all of them without a list, otherwise the listed ones.\<close>

definition in_priority :: "string list \<Rightarrow> string \<Rightarrow> bool" where
  "in_priority pri ip \<longleftrightarrow> (\<exists>p \<in> set pri. prefix p ip)"

definition advertised :: "string list \<Rightarrow> string list \<Rightarrow> mccl_error + string list" where
  "advertised pri local_ips =
     (let ips = filter (\<lambda>ip. pri = [] \<or> in_priority pri ip) local_ips in
      if ips = [] then Inl (MCCLError (''PeerMesh: no local IP matches MCCL_IFACE_PRIORITY; check '' @
        ''that Thunderbolt interfaces are up and the priority list covers their subnets''))
      else Inr ips)"

text \<open>
  The candidates of a peer that are tried: on one of our subnets and, with a list, on the list;
  best score first. Equal scores keep their order here; \<open>std::sort\<close> leaves it open.
\<close>

definition reachable :: "string list \<Rightarrow> string list \<Rightarrow> string list \<Rightarrow> string list" where
  "reachable pri my_subnets cands =
     sort_key (score pri)
       (filter (\<lambda>ip. subnet24 ip \<in> set my_subnets \<and> (pri = [] \<or> in_priority pri ip)) cands)"

lemma score_from_spec:
  "score_from i pri ip = i + (if in_priority pri ip then LEAST j. j < length pri \<and> prefix (pri ! j) ip else length pri)"
proof (induction pri arbitrary: i)
  case (Cons p ps)
  show ?case
  proof (cases "prefix p ip")
    case True
    then have "(LEAST j. j < length (p # ps) \<and> prefix ((p # ps) ! j) ip) = 0" by (intro Least_eq_0) simp
    with True show ?thesis by (simp add: in_priority_def)
  next
    case False
    show ?thesis
    proof (cases "in_priority ps ip")
      case True
      then obtain j where j: "j < length ps" "prefix (ps ! j) ip" by (auto simp: in_priority_def in_set_conv_nth)
      have "(LEAST j. j < length (p # ps) \<and> prefix ((p # ps) ! j) ip) =
          Suc (LEAST j. Suc j < length (p # ps) \<and> prefix ((p # ps) ! Suc j) ip)"
        by (rule Least_Suc [of _ "Suc j"]) (use j False in simp_all)
      with Cons.IH [of "Suc i"] True False show ?thesis by (simp add: in_priority_def)
    next
      case ps: False
      with Cons.IH [of "Suc i"] False show ?thesis by (simp add: in_priority_def)
    qed
  qed
qed (simp add: in_priority_def)

lemma score_less_iff: "score pri ip < length pri \<longleftrightarrow> in_priority pri ip"
proof (cases "in_priority pri ip")
  case True
  then obtain j where "j < length pri \<and> prefix (pri ! j) ip" by (auto simp: in_priority_def in_set_conv_nth)
  then have "(LEAST j. j < length pri \<and> prefix (pri ! j) ip) < length pri"
    using LeastI [of "\<lambda>j. j < length pri \<and> prefix (pri ! j) ip"] by blast
  with True show ?thesis by (simp add: score_def score_from_spec)
qed (simp add: score_def score_from_spec)

text \<open>
  A connection never uses an interface outside the priority list: with a list given, every
  address that is tried, like every address that is advertised, matches one of its prefixes and, for
  a peer, shares a subnet with us; addresses are tried in the order of the list.
\<close>

theorem reachable_in_priority:
  assumes "pri \<noteq> []"
  shows "(\<forall>ip \<in> set (reachable pri subnets cands).
            in_priority pri ip \<and> subnet24 ip \<in> set subnets \<and> ip \<in> set cands) \<and>
     sorted (map (score pri) (reachable pri subnets cands)) \<and>
     (\<forall>ips. advertised pri local_ips = Inr ips \<longrightarrow> ips \<noteq> [] \<and> (\<forall>ip \<in> set ips. score pri ip < length pri))"
  using assms by (auto simp: reachable_def advertised_def Let_def score_less_iff split: if_splits)

theorem reachable_in_priority_witness:
  "in_priority [''10.'', ''192.168.''] ''10.0.0.2'' \<and>
   ''10.0.0.2'' \<in> set (reachable [''10.'', ''192.168.''] [''10.0.0''] [''192.168.1.5'', ''10.0.0.2''])"
proof -
  have m: "''10.0.0.2'' \<in> set (reachable [''10.'', ''192.168.''] [''10.0.0''] [''192.168.1.5'', ''10.0.0.2''])"
    by (simp add: reachable_def subnet24_def in_priority_def)
  with reachable_in_priority [of "[''10.'', ''192.168.'']" "[''10.0.0'']" "[''192.168.1.5'', ''10.0.0.2'']" "[]"]
  show ?thesis by blast
qed

section \<open>Endpoints\<close>

text \<open>The endpoint string that a rank stores: addresses separated by commas, a colon and the port.\<close>

fun join_commas :: "string list \<Rightarrow> string" where
  "join_commas [] = []"
| "join_commas [ip] = ip"
| "join_commas (ip # ips) = ip @ '','' @ join_commas ips"

definition endpoint :: "string list \<Rightarrow> nat \<Rightarrow> string" where
  "endpoint ips port = join_commas ips @ '':'' @ to_string port"

text \<open>The parser of the connecting side: the last colon ends the list of addresses.\<close>

function split_cands :: "string \<Rightarrow> string list" where
  "split_cands s =
     (if s = [] then []
      else takeWhile (\<lambda>c. c \<noteq> CHR '','') s # split_cands (tl (dropWhile (\<lambda>c. c \<noteq> CHR '','') s)))"
  by pat_completeness auto
termination
  by (relation "measure length") (auto simp: length_after_comma)

declare split_cands.simps [simp del]

definition atoi :: "string \<Rightarrow> int" where
  "atoi s =
     (let s1 = dropWhile is_space s;
          s2 = (if s1 \<noteq> [] \<and> (hd s1 = CHR ''-'' \<or> hd s1 = CHR ''+'') then tl s1 else s1);
          v = int (dec_value (takeWhile is_digit s2)) in
      if s1 \<noteq> [] \<and> hd s1 = CHR ''-'' then - v else v)"

definition parse_endpoint :: "string \<Rightarrow> mccl_error + string list \<times> int" where
  "parse_endpoint s =
     (if CHR '':'' \<notin> set s then Inl (MCCLError ''PeerMesh: bad endpoint'')
      else let r = rev s;
               port = rev (takeWhile (\<lambda>c. c \<noteq> CHR '':'') r);
               addrs = rev (tl (dropWhile (\<lambda>c. c \<noteq> CHR '':'') r)) in
        Inr (split_cands addrs, atoi port))"

lemma atoi_to_string: "atoi (to_string n) = int n"
  by (simp add: atoi_def Let_def to_string_scan del: takeWhile_eq_all_conv)

lemma split_cands_join:
  "\<forall>ip \<in> set ips. ip \<noteq> [] \<and> CHR '','' \<notin> set ip \<Longrightarrow> split_cands (join_commas ips) = ips"
proof (induction ips rule: join_commas.induct)
  case (2 ip)
  then have "takeWhile (\<lambda>c. c \<noteq> CHR '','') ip = ip" "dropWhile (\<lambda>c. c \<noteq> CHR '','') ip = []"
    by (auto simp: takeWhile_eq_all_conv)
  with 2 show ?case by (subst split_cands.simps) (simp del: dropWhile_eq_Nil_conv add: split_cands.simps [of "[]"])
next
  case (3 ip ip2 ips)
  let ?rest = "join_commas (ip2 # ips)"
  have "\<forall>c \<in> set ip. c \<noteq> CHR '',''" using 3 by auto
  then have "takeWhile (\<lambda>c. c \<noteq> CHR '','') (ip @ '','' @ ?rest) = ip"
      "dropWhile (\<lambda>c. c \<noteq> CHR '','') (ip @ '','' @ ?rest) = '','' @ ?rest"
    by (simp_all add: takeWhile_append2 dropWhile_append2)
  with 3 show ?case by (subst split_cands.simps) simp
qed (simp add: split_cands.simps)

text \<open>
  What a rank publishes is what its peers read: parsing an endpoint string gives back the
  addresses, in order, and the port.
\<close>

theorem endpoint_roundtrip:
  assumes "\<forall>ip \<in> set ips. ip \<noteq> [] \<and> CHR '','' \<notin> set ip"
  shows "parse_endpoint (endpoint ips port) = Inr (ips, int port)"
proof -
  have p: "\<forall>c \<in> set (rev (to_string port)). c \<noteq> CHR '':''"
    using not_digit_in_to_string [OF digit_facts(1), of port] by auto
  have r: "rev (endpoint ips port) = rev (to_string port) @ '':'' @ rev (join_commas ips)"
    by (simp add: endpoint_def)
  have "takeWhile (\<lambda>c. c \<noteq> CHR '':'') (rev (endpoint ips port)) = rev (to_string port)"
    "dropWhile (\<lambda>c. c \<noteq> CHR '':'') (rev (endpoint ips port)) = '':'' @ rev (join_commas ips)"
    unfolding r using p takeWhile_append2 [of "rev (to_string port)" "\<lambda>c. c \<noteq> CHR '':''"]
      dropWhile_append2 [of "rev (to_string port)" "\<lambda>c. c \<noteq> CHR '':''"] by auto
  moreover have "CHR '':'' \<in> set (endpoint ips port)" by (simp add: endpoint_def)
  ultimately show ?thesis using split_cands_join [OF assms] by (simp add: parse_endpoint_def Let_def atoi_to_string)
qed

theorem endpoint_roundtrip_witness:
  "parse_endpoint (endpoint [''10.0.0.2'', ''10.0.1.2''] 5001) = Inr ([''10.0.0.2'', ''10.0.1.2''], 5001)"
  using endpoint_roundtrip [of "[''10.0.0.2'', ''10.0.1.2'']" 5001] by simp

section \<open>Accepting connections\<close>

text \<open>
  What the acceptor thread can meet: \<open>accept\<close> fails, the hello is not read, or a hello with a rank
  arrives and the answer is written or not.
\<close>

datatype arrival = AcceptFailed | HelloFailed | Hello int bool

type_synonym fds = "int list"

fun accept_one :: "nat \<Rightarrow> int \<Rightarrow> arrival \<Rightarrow> fds \<Rightarrow> fds" where
  "accept_one rank fd AcceptFailed fds = fds"
| "accept_one rank fd HelloFailed fds = fds"
| "accept_one rank fd (Hello peer answered) fds =
     (if peer < 0 \<or> int rank \<le> peer then fds
      else if \<not> answered then fds
      else fds[nat peer := fd])"

text \<open>The acceptor serves exactly as many arrivals as there are lower ranks. Descriptors are positive.\<close>

definition acceptor :: "nat \<Rightarrow> (int \<times> arrival) list \<Rightarrow> fds \<Rightarrow> fds" where
  "acceptor rank arrivals fds = fold (\<lambda>(fd, a). accept_one rank fd a) (take rank arrivals) fds"

definition missing_socket :: "nat \<Rightarrow> nat \<Rightarrow> fds \<Rightarrow> mccl_error + unit" where
  "missing_socket rank world fds =
     (case find (\<lambda>p. p \<noteq> rank \<and> fds ! p < 0) [0..<world] of
        Some p \<Rightarrow> Inl (MCCLError (''PeerMesh: missing socket for peer '' @ to_string p))
      | None \<Rightarrow> Inr ())"

text \<open>A useful arrival is an answered hello of a lower rank.\<close>

fun useful :: "nat \<Rightarrow> arrival \<Rightarrow> nat set" where
  "useful rank (Hello peer True) = (if 0 \<le> peer \<and> peer < int rank then {nat peer} else {})"
| "useful rank _ = {}"

lemma length_accept_one [simp]: "length (accept_one rank fd a fds) = length fds"
  by (cases a) auto

lemma accept_one_nth:
  "p < length fds \<Longrightarrow> accept_one rank fd a fds ! p = (if p \<in> useful rank a then fd else fds ! p)"
  by (cases "(rank, a)" rule: useful.cases) (auto simp: nth_list_update)

lemma fold_accept_connected:
  assumes "\<forall>(fd, a) \<in> set as. useful rank a \<noteq> {} \<longrightarrow> 0 \<le> fd" and "p < length fds"
  shows "0 \<le> fold (\<lambda>(fd, a). accept_one rank fd a) as fds ! p \<longleftrightarrow>
         0 \<le> fds ! p \<or> p \<in> (\<Union>(fd, a) \<in> set as. useful rank a)"
  using assms
proof (induction as arbitrary: fds)
  case (Cons x as)
  obtain fd a where x: "x = (fd, a)" by (cases x)
  have "0 \<le> fold (\<lambda>(fd, a). accept_one rank fd a) as (accept_one rank fd a fds) ! p \<longleftrightarrow>
      0 \<le> accept_one rank fd a fds ! p \<or> p \<in> (\<Union>(fd, a) \<in> set as. useful rank a)"
    using Cons by (intro Cons.IH) auto
  then show ?case using Cons.prems x by (auto simp: accept_one_nth)
qed simp

lemma card_useful_less:
  fixes as :: "(int \<times> arrival) list"
  assumes "length as \<le> rank" and "\<exists>x \<in> set as. useful rank (snd x) = {}" and "0 < rank"
  shows "card (\<Union>(fd, a) \<in> set as. useful rank a) < rank"
proof -
  have card1: "card (useful rank a) \<le> 1" and fin: "finite (useful rank a)" for a
    by (cases "(rank, a)" rule: useful.cases; simp)+
  have le: "card (\<Union>(fd, a) \<in> set xs. useful rank a) \<le> length xs" for xs :: "(int \<times> arrival) list"
  proof (induction xs)
    case (Cons x xs)
    obtain fd a where "x = (fd, a)" by (cases x)
    then show ?case using Cons card1 [of a] card_Un_le [of "useful rank a" "\<Union>(fd, a) \<in> set xs. useful rank a"] by simp
  qed simp
  from assms(2) obtain ys x zs where split: "as = ys @ x # zs" "useful rank (snd x) = {}" by (metis split_list)
  then have "(\<Union>(fd, a) \<in> set as. useful rank a) = (\<Union>(fd, a) \<in> set (ys @ zs). useful rank a)"
    by (auto simp: case_prod_beta)
  moreover have "length (ys @ zs) < rank" using split(1) assms(1) by simp
  ultimately show ?thesis using le [of "ys @ zs"] by simp
qed

lemma missing_socket_ok: "missing_socket rank world fds = Inr () \<longleftrightarrow> (\<forall>p < world. p \<noteq> rank \<longrightarrow> 0 \<le> fds ! p)"
proof -
  have "missing_socket rank world fds = Inr () \<longleftrightarrow> find (\<lambda>p. p \<noteq> rank \<and> fds ! p < 0) [0..<world] = None"
    by (simp add: missing_socket_def split: option.split)
  then show ?thesis by (simp add: find_None_iff not_less) (metis linorder_not_le)
qed

text \<open>
  The acceptor does not recover from a lost arrival: every arrival counts against the number of
  lower ranks, a failed one too, so a single connection that is dropped, malformed or repeated
  among the first \<open>rank\<close> ones makes the constructor fail, even though the peer tries again.
\<close>

theorem acceptor_lost_arrival:
  assumes "0 < rank" and "rank < world" and "length fds = world" and "\<forall>p < rank. fds ! p < 0"
    and "\<forall>(fd, a) \<in> set arrivals. 0 \<le> fd"
    and "\<exists>x \<in> set (take rank arrivals). useful rank (snd x) = {}"
  shows "missing_socket rank world (acceptor rank arrivals fds) \<noteq> Inr ()"
proof
  let ?as = "take rank arrivals"
  assume "missing_socket rank world (acceptor rank arrivals fds) = Inr ()"
  then have "\<forall>p < rank. 0 \<le> acceptor rank arrivals fds ! p" using assms(2) by (simp add: missing_socket_ok)
  then have "{..<rank} \<subseteq> (\<Union>(fd, a) \<in> set ?as. useful rank a)"
    using fold_accept_connected [of ?as rank _ fds] assms(2-5) by (force simp: acceptor_def dest: in_set_takeD)
  moreover have "finite (\<Union>(fd, a) \<in> set ?as. useful rank a)"
  proof -
    have "finite (useful rank a)" for a by (cases "(rank, a)" rule: useful.cases) simp_all
    then show ?thesis by auto
  qed
  ultimately have "rank \<le> card (\<Union>(fd, a) \<in> set ?as. useful rank a)"
    using card_mono [of _ "{..<rank}"] by fastforce
  then show False using card_useful_less [of ?as rank] assms(1,6) by simp
qed

theorem acceptor_lost_arrival_witness:
  "missing_socket 2 3 (acceptor 2 [(7, HelloFailed), (8, Hello 0 True), (9, Hello 1 True)] [- 1, - 1, - 1]) \<noteq> Inr ()"
  using acceptor_lost_arrival [of 2 3 "[- 1, - 1, - 1]" "[(7, HelloFailed), (8, Hello 0 True), (9, Hello 1 True)]"]
  by (simp add: less_Suc_eq numeral_2_eq_2 numeral_3_eq_3 all_conj_distrib)

end
