(* ===== verification/Mesh_Construction.thy ===== *)
theory Mesh_Construction
  imports Peer_Mesh Wire
begin

text \<open>
  The life of a \<open>PeerMesh\<close> (\<open>csrc/backend/PeerMesh.cpp\<close>): the interfaces, the listening socket, the
  exchange of endpoints through the store, the handshakes with the lower ranks (which connect to
  us) and the higher ranks (to which we connect), the final check, the destructor, and \<open>send\<close> and \<open>recv\<close>.
  What the operating system, the network and the store answer is the argument \<open>mesh_env\<close>: the outcome of
  each call, for the connect loop round by round, where the rounds are those the clock lets begin
  before the deadline. Ranks are small enough for \<open>int\<close>.
\<close>

section \<open>Searching with clean-up\<close>

text \<open>
  Both loops of the connecting side run a step on each element until one succeeds and collect
  the descriptors that failing steps closed.
\<close>

fun search :: "('a \<Rightarrow> 'b option \<times> 'c list) \<Rightarrow> 'a list \<Rightarrow> 'b option \<times> 'c list" where
  "search f [] = (None, [])"
| "search f (x # xs) =
     (case f x of
        (Some y, cl) \<Rightarrow> (Some y, cl)
      | (None, cl) \<Rightarrow> (let (r, cl') = search f xs in (r, cl @ cl')))"

lemma search_None_iff: "fst (search f xs) = None \<longleftrightarrow> (\<forall>x \<in> set xs. fst (f x) = None)"
  by (induction xs) (auto split: prod.splits option.splits)

lemma search_Some: "fst (search f xs) = Some y \<Longrightarrow> \<exists>x \<in> set xs. fst (f x) = Some y"
  by (induction xs) (auto split: prod.splits option.splits)

text \<open>The elements that the search looks at: those before the first success, and that one.\<close>

fun visited :: "('a \<Rightarrow> 'b option \<times> 'c list) \<Rightarrow> 'a list \<Rightarrow> 'a list" where
  "visited f [] = []"
| "visited f (x # xs) = x # (if fst (f x) = None then visited f xs else [])"

lemma search_account:
  assumes "\<And>x. x \<in> set xs \<Longrightarrow> snd (f x) @ map g (case fst (f x) of None \<Rightarrow> [] | Some y \<Rightarrow> [y]) = opens x"
  shows "snd (search f xs) @ map g (case fst (search f xs) of None \<Rightarrow> [] | Some y \<Rightarrow> [y]) =
     concat (map opens (visited f xs))"
  using assms
proof (induction xs)
  case (Cons x xs)
  have "snd (search f xs) @ map g (case fst (search f xs) of None \<Rightarrow> [] | Some y \<Rightarrow> [y]) = concat (map opens (visited f xs))"
    using Cons by simp
  moreover have "snd (f x) @ map g (case fst (f x) of None \<Rightarrow> [] | Some y \<Rightarrow> [y]) = opens x" using Cons.prems by simp
  ultimately show ?case by (auto split: prod.splits option.splits)
qed simp

section \<open>The handshake\<close>

text \<open>Each side sends its rank as the four bytes of an \<open>int\<close> and reads the other's.\<close>

definition rank_bytes :: "nat \<Rightarrow> u8 list" where
  "rank_bytes r = to_bytes 4 (word_of_nat r :: i32)"

definition read_rank :: "u8 list list \<Rightarrow> int option" where
  "read_rank ds = map_option (\<lambda>(bs, rest). sint (of_bytes bs :: i32)) (read_all 4 ds)"

lemma length_rank_bytes [simp]: "length (rank_bytes r) = 4"
  by (simp add: rank_bytes_def to_bytes_def)

lemma read_rank_of_bytes: "r < 2 ^ 31 \<Longrightarrow> sint (of_bytes (rank_bytes r) :: i32) = int r"
proof -
  assume r: "r < 2 ^ 31"
  have "sint (of_bytes (rank_bytes r) :: i32) = signed_take_bit 31 (int r)"
    by (simp add: rank_bytes_def of_to_bytes signed_of_nat)
  also have "\<dots> = int r" using r by (simp add: signed_take_bit_int_eq_self)
  finally show ?thesis .
qed

text \<open>However the network cuts it up, a rank that was sent is the rank that is read.\<close>

lemma read_rank_exact:
  assumes "[] \<notin> set ds" and "concat ds = rank_bytes r @ rest" and "r < 2 ^ 31"
  shows "read_rank ds = Some (int r)"
proof -
  obtain rest' where "read_all 4 ds = Some (rank_bytes r, rest')"
    using read_all_complete [OF assms(1), of 4] read_all_sound [of 4 ds] assms(2) by fastforce
  then show ?thesis using assms(3) by (simp add: read_rank_def read_rank_of_bytes)
qed

section \<open>The connecting side\<close>

text \<open>
  What happens to one attempt on one address: no socket, an address that does not parse, a
  refused connection, or a connection with what its \<open>send\<close> calls accept and what it delivers.
\<close>

datatype attempt =
    SocketFailed
  | BadAddress nat
  | ConnectFailed nat
  | Connected nat "int list" "u8 list list"

fun try_one :: "nat \<Rightarrow> nat \<Rightarrow> attempt \<Rightarrow> nat option \<times> nat list" where
  "try_one rank p SocketFailed = (None, [])"
| "try_one rank p (BadAddress s) = (None, [s])"
| "try_one rank p (ConnectFailed s) = (None, [s])"
| "try_one rank p (Connected s sends answer) =
     (if \<not> snd (write_all (rank_bytes rank) sends) then (None, [s])
      else case read_rank answer of
        None \<Rightarrow> (None, [s])
      | Some got \<Rightarrow> if got \<noteq> int p then (None, [s]) else (Some s, []))"

definition try_candidates :: "nat \<Rightarrow> nat \<Rightarrow> u16 \<Rightarrow> string list \<Rightarrow> (string \<Rightarrow> u16 \<Rightarrow> attempt) \<Rightarrow> nat option \<times> nat list" where
  "try_candidates rank p port ips os = search (\<lambda>ip. try_one rank p (os ip port)) ips"

definition connect_loop :: "nat \<Rightarrow> nat \<Rightarrow> u16 \<Rightarrow> string list \<Rightarrow> (string \<Rightarrow> u16 \<Rightarrow> attempt) list \<Rightarrow> nat option \<times> nat list" where
  "connect_loop rank p port ips rounds = search (try_candidates rank p port ips) rounds"

definition connect_peer ::
    "string list \<Rightarrow> string list \<Rightarrow> nat \<Rightarrow> nat \<Rightarrow> string \<Rightarrow> (string \<Rightarrow> u16 \<Rightarrow> attempt) list \<Rightarrow> mccl_error + nat" where
  "connect_peer pri my_subnets rank p ep rounds =
     (case parse_endpoint ep of
        Inl e \<Rightarrow> Inl e
      | Inr (cands, peer_port) \<Rightarrow>
          (let ips = reachable pri my_subnets cands in
           if ips = [] then Inl (MCCLError (''PeerMesh: no MCCL_IFACE_PRIORITY-matching subnet shared with peer '' @
             to_string p @ ''; refusing to fall back to a non-priority interface''))
           else case fst (connect_loop rank p (word_of_int peer_port) ips rounds) of
             None \<Rightarrow> Inl (MCCLError (''PeerMesh: failed to connect to peer '' @ to_string p))
           | Some fd \<Rightarrow> Inr fd))"

text \<open>The loop over the higher ranks, which fills in their descriptors.\<close>

fun connect_all :: "(nat \<Rightarrow> mccl_error + nat) \<Rightarrow> nat list \<Rightarrow> fds \<Rightarrow> mccl_error + fds" where
  "connect_all conn [] fds = Inr fds"
| "connect_all conn (p # ps) fds =
     (case conn p of Inl e \<Rightarrow> Inl e | Inr fd \<Rightarrow> connect_all conn ps (fds[p := int fd]))"

section \<open>The accepting side\<close>

text \<open>An arrival as the operating system presents it: what it delivers and what \<open>send\<close> accepts.\<close>

datatype incoming = AcceptError | Incoming nat "u8 list list" "int list"

fun arrival_of :: "nat \<Rightarrow> incoming \<Rightarrow> int \<times> arrival" where
  "arrival_of rank AcceptError = (- 1, AcceptFailed)"
| "arrival_of rank (Incoming fd hello sends) =
     (int fd, case read_rank hello of
                None \<Rightarrow> HelloFailed
              | Some peer \<Rightarrow> Hello peer (snd (write_all (rank_bytes rank) sends)))"

section \<open>Interfaces\<close>

text \<open>
  An entry of \<open>getifaddrs\<close>: its IPv4 address in network byte order, if it has one, and two of its flags.
  \<open>inet_ntop\<close> prints the address as a dotted quad, which always fits the buffer.
\<close>

record ifaddr =
  ifa_inet :: "u8 list option"
  ifa_up :: bool
  ifa_loopback :: bool

fun inet_ntop :: "u8 list \<Rightarrow> string" where
  "inet_ntop [] = []"
| "inet_ntop [b] = to_string (unat b)"
| "inet_ntop (b # bs) = to_string (unat b) @ ''.'' @ inet_ntop bs"

definition local_ips :: "string list \<Rightarrow> ifaddr list option \<Rightarrow> string list" where
  "local_ips pri ifs =
     (case ifs of None \<Rightarrow> []
      | Some l \<Rightarrow> sort_key (score pri)
          (List.map_filter (\<lambda>i. if ifa_up i \<and> \<not> ifa_loopback i then map_option inet_ntop (ifa_inet i) else None) l))"

section \<open>The constructor\<close>

record mesh_env =
  env_socket :: int
  env_bind :: bool
  env_listen :: bool
  env_port :: "u16 option"
  env_ifaddrs :: "ifaddr list option"
  env_priority :: "string option"
  env_wait :: "string \<Rightarrow> string option"
  env_rounds :: "nat \<Rightarrow> (string \<Rightarrow> u16 \<Rightarrow> attempt) list"
  env_incoming :: "incoming list"

record peer_mesh =
  mesh_rank :: nat
  mesh_world :: nat
  mesh_listen_fd :: int
  mesh_fds :: fds

text \<open>
  How the constructor can end. An exception that leaves it once the acceptor thread runs destroys
  a joinable \<open>std::thread\<close>, which terminates the process; a \<open>join\<close> on an acceptor that still waits for
  connections does not return.
\<close>

datatype mesh_outcome = Constructed peer_mesh | Raised mccl_error | StoreFailed | Terminates | Blocked

definition peer_key :: "nat \<Rightarrow> string" where
  "peer_key p = ''mccl/peer/'' @ to_string p"

definition listener :: "mesh_env \<Rightarrow> mccl_error + u16" where
  "listener env =
     (if env_socket env < 0 then Inl (MCCLError ''PeerMesh socket'')
      else if \<not> env_bind env then Inl (MCCLError ''PeerMesh bind'')
      else if \<not> env_listen env then Inl (MCCLError ''PeerMesh listen'')
      else case env_port env of None \<Rightarrow> Inl (MCCLError ''PeerMesh getsockname'') | Some port \<Rightarrow> Inr port)"

text \<open>Up to the \<open>store->set\<close>: our addresses and the endpoint that is published.\<close>

definition mesh_setup :: "mesh_env \<Rightarrow> mccl_error + string list \<times> string" where
  "mesh_setup env =
     (case listener env of Inl e \<Rightarrow> Inl e
      | Inr port \<Rightarrow>
          (let pri = prefix_priority (env_priority env) in
           case advertised pri (local_ips pri (env_ifaddrs env)) of Inl e \<Rightarrow> Inl e
           | Inr ips \<Rightarrow> Inr (ips, endpoint ips (unat port))))"

text \<open>The endpoints of all ranks; \<open>None\<close> when a \<open>wait\<close> of the store throws.\<close>

definition mesh_endpoints :: "mesh_env \<Rightarrow> nat \<Rightarrow> nat \<Rightarrow> string \<Rightarrow> string list option" where
  "mesh_endpoints env rank world ep =
     those (map (\<lambda>p. if p = rank then Some ep else env_wait env (peer_key p)) [0..<world])"

definition mesh_connections :: "mesh_env \<Rightarrow> nat \<Rightarrow> nat \<Rightarrow> string list \<Rightarrow> string list \<Rightarrow> mccl_error + fds" where
  "mesh_connections env rank world ips eps =
     connect_all
       (\<lambda>p. connect_peer (prefix_priority (env_priority env)) (map subnet24 ips) rank p (eps ! p) (env_rounds env p))
       [Suc rank..<world] (replicate world (- 1))"

text \<open>
  The two threads write to disjoint entries of the descriptor table, so the acceptor's writes are
  applied after those of the connect loop (\<open>acceptor_connect_all\<close> below shows that the order is immaterial).
\<close>

definition mesh_construct :: "mesh_env \<Rightarrow> nat \<Rightarrow> nat \<Rightarrow> (string \<times> string) list \<times> mesh_outcome" where
  "mesh_construct env rank world =
     (case mesh_setup env of
        Inl e \<Rightarrow> ([], Raised e)
      | Inr (ips, ep) \<Rightarrow> ([(peer_key rank, ep)],
          case mesh_endpoints env rank world ep of
            None \<Rightarrow> StoreFailed
          | Some eps \<Rightarrow>
             (case mesh_connections env rank world ips eps of
                Inl e \<Rightarrow> Terminates
              | Inr fds \<Rightarrow>
                  if length (env_incoming env) < rank then Blocked
                  else let fds' = acceptor rank (map (arrival_of rank) (env_incoming env)) fds in
                    (case missing_socket rank world fds' of
                       Inl e \<Rightarrow> Raised e
                     | Inr _ \<Rightarrow> Constructed \<lparr>mesh_rank = rank, mesh_world = world,
                         mesh_listen_fd = env_socket env, mesh_fds = fds'\<rparr>))))"

section \<open>Destructor and transfers\<close>

text \<open>The descriptors that the destructor closes.\<close>

definition mesh_close :: "peer_mesh \<Rightarrow> int list" where
  "mesh_close m = filter (\<lambda>fd. 0 \<le> fd) (mesh_fds m) @ (if 0 \<le> mesh_listen_fd m then [mesh_listen_fd m] else [])"

text \<open>
  \<open>send\<close> and \<open>recv\<close> on the socket of a peer: which bytes the socket takes, and which it delivers. A peer
  outside the table is undefined.
\<close>

definition mesh_send :: "peer_mesh \<Rightarrow> nat \<Rightarrow> u8 list \<Rightarrow> (int \<Rightarrow> int list) \<Rightarrow> (failure, u8 list, unit) res" where
  "mesh_send m peer buf sends =
     (if length (mesh_fds m) \<le> peer then (Inl Undefined, [])
      else let (w, ok) = write_all buf (sends (mesh_fds m ! peer)) in
        distro_check ok ''PeerMesh: send failed'' w)"

definition mesh_recv :: "peer_mesh \<Rightarrow> nat \<Rightarrow> nat \<Rightarrow> (int \<Rightarrow> u8 list list) \<Rightarrow> failure + u8 list \<times> u8 list list" where
  "mesh_recv m peer len deliveries =
     (if length (mesh_fds m) \<le> peer then Inl Undefined
      else case read_all len (deliveries (mesh_fds m ! peer)) of
        None \<Rightarrow> Inl (Thrown (MCCLError ''PeerMesh: recv failed''))
      | Some r \<Rightarrow> Inr r)"

section \<open>The sockets of the connecting side\<close>

fun opened :: "attempt \<Rightarrow> nat list" where
  "opened SocketFailed = []"
| "opened (BadAddress s) = [s]"
| "opened (ConnectFailed s) = [s]"
| "opened (Connected s sends answer) = [s]"

text \<open>The connection that counts: our rank went out and the answer was the rank we meant.\<close>

fun shook_hands :: "nat \<Rightarrow> nat \<Rightarrow> attempt \<Rightarrow> nat option" where
  "shook_hands rank p (Connected s sends answer) =
     (if snd (write_all (rank_bytes rank) sends) \<and> read_rank answer = Some (int p) then Some s else None)"
| "shook_hands rank p _ = None"

lemma fst_try_one: "fst (try_one rank p a) = shook_hands rank p a"
  by (cases a) (auto split: option.splits)

lemma try_one_account:
  "snd (try_one rank p a) @ (case fst (try_one rank p a) of None \<Rightarrow> [] | Some s \<Rightarrow> [s]) = opened a"
  by (cases a) (auto split: option.splits)

lemma connect_loop_Some:
  "fst (connect_loop rank p port ips rounds) = Some s \<Longrightarrow>
     \<exists>os \<in> set rounds. \<exists>ip \<in> set ips. shook_hands rank p (os ip port) = Some s"
  unfolding connect_loop_def try_candidates_def by (blast dest!: search_Some intro: fst_try_one [symmetric, THEN trans])

lemma connect_loop_None_iff:
  "fst (connect_loop rank p port ips rounds) = None \<longleftrightarrow>
     (\<forall>os \<in> set rounds. \<forall>ip \<in> set ips. shook_hands rank p (os ip port) = None)"
  by (simp add: connect_loop_def try_candidates_def search_None_iff fst_try_one)

text \<open>
  The connect loop leaks no descriptor: what it opened is what it closed and, at the end, the one it
  returns.
\<close>

lemma connect_loop_closes:
  "snd (connect_loop rank p port ips rounds) @ (case fst (connect_loop rank p port ips rounds) of None \<Rightarrow> [] | Some s \<Rightarrow> [s]) =
   concat (map (\<lambda>os. concat (map (\<lambda>ip. opened (os ip port)) (visited (\<lambda>ip. try_one rank p (os ip port)) ips)))
     (visited (try_candidates rank p port ips) rounds))"
proof -
  have "snd (try_candidates rank p port ips os) @ map id (case fst (try_candidates rank p port ips os) of None \<Rightarrow> [] | Some s \<Rightarrow> [s]) =
      concat (map (\<lambda>ip. opened (os ip port)) (visited (\<lambda>ip. try_one rank p (os ip port)) ips))" for os
    unfolding try_candidates_def using search_account [where g = id, of ips "\<lambda>ip. try_one rank p (os ip port)"]
    by (simp add: try_one_account)
  then show ?thesis
    unfolding connect_loop_def using search_account [where g = id, of rounds "try_candidates rank p port ips"] by simp
qed

section \<open>The table of descriptors\<close>

lemma connect_all_ok:
  assumes "connect_all conn ps fds = Inr fds'" and "distinct ps"
  shows "length fds' = length fds \<and>
     (\<forall>q < length fds. if q \<in> set ps then \<exists>s. conn q = Inr s \<and> fds' ! q = int s else fds' ! q = fds ! q)"
  using assms
proof (induction ps arbitrary: fds)
  case (Cons p ps)
  then obtain s where s: "conn p = Inr s" "connect_all conn ps (fds[p := int s]) = Inr fds'"
    by (auto split: sum.splits)
  with Cons.IH [OF s(2)] Cons.prems(2) show ?case
    by (auto simp: nth_list_update split: if_splits)
qed simp

lemma connect_all_total: "(\<exists>fds'. connect_all conn ps fds = Inr fds') \<longleftrightarrow> (\<forall>p \<in> set ps. \<exists>s. conn p = Inr s)"
  by (induction ps arbitrary: fds) (auto split: sum.splits)

lemma accept_one_update:
  "rank \<le> p \<Longrightarrow> accept_one rank fd a (fds[p := v]) = (accept_one rank fd a fds)[p := v]"
  by (cases a) (auto simp: list_update_swap)

lemma acceptor_update: "rank \<le> p \<Longrightarrow> acceptor rank as (fds[p := v]) = (acceptor rank as fds)[p := v]"
proof -
  assume p: "rank \<le> p"
  have "fold (\<lambda>(fd, a). accept_one rank fd a) xs (fds[p := v]) = (fold (\<lambda>(fd, a). accept_one rank fd a) xs fds)[p := v]"
    for xs fds by (induction xs arbitrary: fds) (auto simp: accept_one_update [OF p])
  then show ?thesis by (simp add: acceptor_def)
qed

text \<open>The acceptor thread and the connect loop commute, since they write to different entries.\<close>

lemma acceptor_connect_all:
  "\<forall>p \<in> set ps. rank \<le> p \<Longrightarrow>
     connect_all conn ps (acceptor rank as fds) = map_sum id (acceptor rank as) (connect_all conn ps fds)"
  by (induction ps arbitrary: fds) (auto simp: acceptor_update [symmetric] split: sum.splits)

lemma fold_accept_origin:
  assumes "p < length fds"
  shows "(fold (\<lambda>(fd, a). accept_one rank fd a) as fds ! p = fds ! p \<and> (\<forall>(fd, a) \<in> set as. p \<notin> useful rank a)) \<or>
     (\<exists>(fd, a) \<in> set as. p \<in> useful rank a \<and> fold (\<lambda>(fd, a). accept_one rank fd a) as fds ! p = fd)"
  using assms
proof (induction as arbitrary: fds)
  case (Cons x as)
  obtain fd a where x: "x = (fd, a)" by (cases x)
  show ?case
    using Cons.IH [of "accept_one rank fd a fds"] Cons.prems x by (auto simp: accept_one_nth)
qed simp

section \<open>What a constructed mesh has\<close>

text \<open>A greeting of rank \<open>p\<close>: it arrived, said \<open>p\<close>, and was answered.\<close>

fun greeted :: "nat \<Rightarrow> nat \<Rightarrow> incoming \<Rightarrow> nat option" where
  "greeted rank p (Incoming fd hello sends) =
     (if read_rank hello = Some (int p) \<and> snd (write_all (rank_bytes rank) sends) then Some fd else None)"
| "greeted rank p AcceptError = None"

lemma useful_arrival:
  "p \<in> useful rank (snd (arrival_of rank i)) \<longleftrightarrow> p < rank \<and> greeted rank p i = Some (nat (fst (arrival_of rank i)))"
proof (cases i)
  case (Incoming fd hello sends)
  show ?thesis
  proof (cases "read_rank hello")
    case (Some peer)
    show ?thesis using Incoming Some by (cases "snd (write_all (rank_bytes rank) sends)") auto
  qed (use Incoming in simp)
qed simp

text \<open>
  A connection to a higher rank \<open>p\<close>: in some round, to an address that \<open>p\<close> published, on one of our
  subnets and on the priority list if there is one, with a completed handshake.
\<close>

definition reached :: "mesh_env \<Rightarrow> string list \<Rightarrow> nat \<Rightarrow> nat \<Rightarrow> nat \<Rightarrow> bool" where
  "reached env ips rank p s \<longleftrightarrow>
     (\<exists>ep cands port. env_wait env (peer_key p) = Some ep \<and> parse_endpoint ep = Inr (cands, port) \<and>
       (\<exists>os \<in> set (env_rounds env p). \<exists>ip \<in> set cands. subnet24 ip \<in> subnet24 ` set ips \<and>
          (prefix_priority (env_priority env) = [] \<or> in_priority (prefix_priority (env_priority env)) ip) \<and>
          shook_hands rank p (os ip (word_of_int port)) = Some s))"

lemma set_reachable [simp]:
  "set (reachable pri subnets cands) =
     {ip \<in> set cands. subnet24 ip \<in> set subnets \<and> (pri = [] \<or> in_priority pri ip)}"
  by (auto simp: reachable_def)

lemma connect_peer_reached:
  assumes "env_wait env (peer_key p) = Some ep"
    and "connect_peer (prefix_priority (env_priority env)) (map subnet24 ips) rank p ep (env_rounds env p) = Inr s"
  shows "reached env ips rank p s"
proof -
  let ?pri = "prefix_priority (env_priority env)"
  obtain cands port where c: "parse_endpoint ep = Inr (cands, port)"
    "fst (connect_loop rank p (word_of_int port) (reachable ?pri (map subnet24 ips) cands) (env_rounds env p)) = Some s"
    using assms(2) by (auto simp: connect_peer_def Let_def split: sum.splits if_splits option.splits)
  from connect_loop_Some [OF c(2)] assms(1) c(1) show ?thesis by (fastforce simp: reached_def)
qed

lemma reached_connect_peer:
  assumes "env_wait env (peer_key p) = Some ep" and "reached env ips rank p s"
  shows "\<exists>s. connect_peer (prefix_priority (env_priority env)) (map subnet24 ips) rank p ep (env_rounds env p) = Inr s"
proof -
  let ?pri = "prefix_priority (env_priority env)"
  obtain cands port os ip where c0: "parse_endpoint ep = Inr (cands, port)" "os \<in> set (env_rounds env p)"
      "ip \<in> set cands \<and> subnet24 ip \<in> subnet24 ` set ips \<and> (?pri = [] \<or> in_priority ?pri ip)"
      "shook_hands rank p (os ip (word_of_int port)) = Some s"
    using assms unfolding reached_def by (metis option.inject)
  then have c: "parse_endpoint ep = Inr (cands, port)" "os \<in> set (env_rounds env p)"
      "ip \<in> set (reachable ?pri (map subnet24 ips) cands)" "shook_hands rank p (os ip (word_of_int port)) = Some s"
    by simp_all
  then have "fst (connect_loop rank p (word_of_int port) (reachable ?pri (map subnet24 ips) cands) (env_rounds env p)) \<noteq> None"
    unfolding connect_loop_None_iff by auto
  moreover have "reachable ?pri (map subnet24 ips) cands \<noteq> []" using c(3) by force
  ultimately show ?thesis using c(1) by (auto simp: connect_peer_def Let_def)
qed

lemma mesh_endpoints_nth:
  assumes "mesh_endpoints env rank world ep = Some eps" and "p < world" and "p \<noteq> rank"
  shows "env_wait env (peer_key p) = Some (eps ! p)"
proof -
  have those_nth: "those xs = Some ys \<Longrightarrow> i < length xs \<Longrightarrow> xs ! i = Some (ys ! i)"
    for xs :: "string option list" and ys i
    by (induction xs arbitrary: ys i) (auto split: option.splits simp: nth_Cons')
  show ?thesis using those_nth [OF assms(1) [unfolded mesh_endpoints_def], of p] assms(2, 3) by simp
qed

lemma mesh_construct_Constructed:
  "snd (mesh_construct env rank world) = Constructed m \<longleftrightarrow>
     (\<exists>ips ep eps fds. mesh_setup env = Inr (ips, ep) \<and> mesh_endpoints env rank world ep = Some eps \<and>
        mesh_connections env rank world ips eps = Inr fds \<and> rank \<le> length (env_incoming env) \<and>
        m = \<lparr>mesh_rank = rank, mesh_world = world, mesh_listen_fd = env_socket env,
             mesh_fds = acceptor rank (map (arrival_of rank) (env_incoming env)) fds\<rparr> \<and>
        missing_socket rank world (mesh_fds m) = Inr ())"
  by (auto simp: mesh_construct_def Let_def split: sum.splits option.splits if_splits)

lemma mesh_connections_nth:
  assumes "mesh_connections env rank world ips eps = Inr fds" and "mesh_endpoints env rank world ep = Some eps"
  shows "length fds = world \<and>
     (\<forall>p < world. if rank < p then \<exists>s. reached env ips rank p s \<and> fds ! p = int s else fds ! p = - 1)"
proof -
  have ok: "length fds = world" "p < world \<Longrightarrow> if p \<in> set [Suc rank..<world]
      then \<exists>s. connect_peer (prefix_priority (env_priority env)) (map subnet24 ips) rank p (eps ! p) (env_rounds env p) = Inr s \<and>
        fds ! p = int s else fds ! p = - 1" for p
    using connect_all_ok [OF assms(1) [unfolded mesh_connections_def]] by auto
  have "if rank < p then \<exists>s. reached env ips rank p s \<and> fds ! p = int s else fds ! p = - 1" if "p < world" for p
  proof (cases "rank < p")
    case True
    with ok(2) [OF that] that show ?thesis
      using connect_peer_reached [OF mesh_endpoints_nth [OF assms(2) that]] by fastforce
  qed (use ok(2) [OF that] in simp)
  with ok(1) show ?thesis by blast
qed

lemma acceptor_nth:
  assumes "length fds = world" and "p < world"
  shows "acceptor rank (map (arrival_of rank) ins) fds ! p = fds ! p \<and>
       (p < rank \<longrightarrow> (\<forall>i \<in> set (take rank ins). greeted rank p i = None)) \<or>
     p < rank \<and> (\<exists>i \<in> set (take rank ins). \<exists>fd. greeted rank p i = Some fd \<and>
       acceptor rank (map (arrival_of rank) ins) fds ! p = int fd)"
proof -
  have greeted: "p \<in> useful rank (snd (arrival_of rank i)) \<longleftrightarrow> p < rank \<and> greeted rank p i \<noteq> None"
      "greeted rank p i \<noteq> None \<Longrightarrow> greeted rank p i = Some (nat (fst (arrival_of rank i))) \<and> 0 \<le> fst (arrival_of rank i)" for i
    unfolding useful_arrival by (cases i; auto split: if_splits)+
  let ?acc = "acceptor rank (map (arrival_of rank) ins) fds ! p"
  consider "?acc = fds ! p" "\<forall>i \<in> set (take rank ins). p \<notin> useful rank (snd (arrival_of rank i))"
    | i where "i \<in> set (take rank ins)" "p \<in> useful rank (snd (arrival_of rank i))" "?acc = fst (arrival_of rank i)"
    using fold_accept_origin [of p fds rank "map (arrival_of rank) (take rank ins)"] assms
    by (auto simp: acceptor_def take_map case_prod_beta)
  then show ?thesis
  proof cases
    case 1
    then show ?thesis by (simp add: greeted(1))
  next
    case (2 i)
    then have "p < rank" "greeted rank p i = Some (nat ?acc)" "0 \<le> ?acc" using greeted [of i] by auto
    with 2(1) show ?thesis by (metis int_nat_eq)
  qed
qed

text \<open>
  C27. A mesh is what it claims to be: if the constructor returns, then every lower rank's descriptor
  is that of a connection which arrived, announced exactly that rank and was answered, and every
  higher rank's descriptor is that of a connection to an address which that rank published, on one of our
  subnets and within the interface priority list, whose far side identified itself as that rank. Our own entry
  stays empty.
\<close>

theorem mesh_verified:
  assumes "rank < world" and "snd (mesh_construct env rank world) = Constructed m"
  shows "length (mesh_fds m) = world \<and> mesh_fds m ! rank = - 1 \<and>
    (\<forall>p < rank. \<exists>i \<in> set (take rank (env_incoming env)). \<exists>fd. greeted rank p i = Some fd \<and> mesh_fds m ! p = int fd) \<and>
    (\<exists>ips ep. mesh_setup env = Inr (ips, ep) \<and>
       (\<forall>p. rank < p \<and> p < world \<longrightarrow> (\<exists>s. reached env ips rank p s \<and> mesh_fds m ! p = int s)))"
proof -
  obtain ips ep eps fds where c: "mesh_setup env = Inr (ips, ep)" "mesh_endpoints env rank world ep = Some eps"
      "mesh_connections env rank world ips eps = Inr fds"
      "mesh_fds m = acceptor rank (map (arrival_of rank) (env_incoming env)) fds"
      "missing_socket rank world (mesh_fds m) = Inr ()"
    using assms(2) unfolding mesh_construct_Constructed by auto
  have fds: "length fds = world" "p < world \<Longrightarrow> if rank < p then \<exists>s. reached env ips rank p s \<and> fds ! p = int s else fds ! p = - 1" for p
    using mesh_connections_nth [OF c(3, 2)] by auto
  note acc = acceptor_nth [OF fds(1), of _ rank "env_incoming env", folded c(4)]
  have "length (mesh_fds m) = world"
  proof -
    have "length (fold (\<lambda>(fd, a). accept_one rank fd a) as fds) = length fds" for as fds
      by (induction as arbitrary: fds) auto
    then show ?thesis using fds(1) by (simp add: c(4) acceptor_def)
  qed
  moreover have "mesh_fds m ! rank = - 1" using acc [OF assms(1)] fds(2) [OF assms(1)] by simp
  moreover have "\<exists>i \<in> set (take rank (env_incoming env)). \<exists>fd. greeted rank p i = Some fd \<and> mesh_fds m ! p = int fd"
    if "p < rank" for p
  proof -
    have p: "p < world" "0 \<le> mesh_fds m ! p" using c(5) that assms(1) by (auto simp: missing_socket_ok)
    then show ?thesis using acc [OF p(1)] fds(2) [OF p(1)] that by auto
  qed
  moreover have "\<exists>s. reached env ips rank p s \<and> mesh_fds m ! p = int s" if "rank < p" "p < world" for p
    using acc [OF that(2)] fds(2) [OF that(2)] that(1) by auto
  ultimately show ?thesis using c(1) by blast
qed

text \<open>
  A cooperating peer, byte by byte: it takes our rank and delivers its own, in whatever pieces. The same
  for a peer that connects to us.
\<close>

fun answers :: "nat \<Rightarrow> nat \<Rightarrow> attempt \<Rightarrow> bool" where
  "answers rank p (Connected s sends ds) \<longleftrightarrow>
     snd (write_all (rank_bytes rank) sends) \<and> [] \<notin> set ds \<and> prefix (rank_bytes p) (concat ds)"
| "answers rank p _ \<longleftrightarrow> False"

fun calls :: "nat \<Rightarrow> nat \<Rightarrow> incoming \<Rightarrow> bool" where
  "calls rank p (Incoming fd ds sends) \<longleftrightarrow>
     [] \<notin> set ds \<and> prefix (rank_bytes p) (concat ds) \<and> snd (write_all (rank_bytes rank) sends)"
| "calls rank p AcceptError \<longleftrightarrow> False"

lemma answers_shook_hands: "answers rank p a \<Longrightarrow> p < 2 ^ 31 \<Longrightarrow> \<exists>s. shook_hands rank p a = Some s"
  by (cases a) (auto elim!: prefixE dest!: read_rank_exact)

lemma calls_greeted: "calls rank p i \<Longrightarrow> p < 2 ^ 31 \<Longrightarrow> greeted rank p i \<noteq> None"
  by (cases i) (auto elim!: prefixE dest!: read_rank_exact)

lemma mesh_endpoints_total:
  assumes "\<forall>p < world. p \<noteq> rank \<longrightarrow> env_wait env (peer_key p) \<noteq> None"
  shows "\<exists>eps. mesh_endpoints env rank world ep = Some eps"
proof -
  have "None \<notin> set xs \<Longrightarrow> \<exists>ys. those xs = Some ys" for xs :: "string option list"
    by (induction xs) (auto split: option.splits, metis not_None_eq)
  moreover have "None \<notin> set (map (\<lambda>p. if p = rank then Some ep else env_wait env (peer_key p)) [0..<world])"
    using assms by (auto simp: eq_commute [of None])
  ultimately show ?thesis unfolding mesh_endpoints_def by blast
qed

lemma published_reached:
  assumes "env_wait env (peer_key p) = Some (endpoint addrs (unat port))"
    and "\<forall>ip \<in> set addrs. ip \<noteq> [] \<and> CHR '','' \<notin> set ip" and "p < 2 ^ 31"
    and "\<exists>os \<in> set (env_rounds env p). \<exists>ip \<in> set addrs. subnet24 ip \<in> subnet24 ` set ips \<and>
       (prefix_priority (env_priority env) = [] \<or> in_priority (prefix_priority (env_priority env)) ip) \<and>
       answers rank p (os ip port)"
  shows "\<exists>s. reached env ips rank p s"
proof -
  have "parse_endpoint (endpoint addrs (unat port)) = Inr (addrs, int (unat port))"
    using assms(2) by (rule endpoint_roundtrip)
  moreover have "word_of_int (int (unat port)) = port" by simp
  ultimately show ?thesis
    unfolding reached_def using assms(1, 4) answers_shook_hands [OF _ assms(3)] by metis
qed

text \<open>
  C28. The mesh comes up: when the listening socket and an advertised address are there, every rank has
  published its addresses and port, each higher rank takes part in a handshake at one of its addresses that we share
  a subnet with, in some round before the deadline, and the first \<open>rank\<close> connections that arrive bring a
  handshake of each lower rank, then the constructor returns a mesh, having published our endpoint under our
  key. The handshakes are byte streams, cut up in any way.
\<close>

theorem mesh_constructs:
  assumes "rank < world" and "world \<le> 2 ^ 31" and "mesh_setup env = Inr (ips, ep)"
    and "\<forall>p < world. p \<noteq> rank \<longrightarrow> env_wait env (peer_key p) = Some (endpoint (addrs p) (unat (port p))) \<and>
       (\<forall>ip \<in> set (addrs p). ip \<noteq> [] \<and> CHR '','' \<notin> set ip)"
    and "\<forall>p < world. rank < p \<longrightarrow> (\<exists>os \<in> set (env_rounds env p). \<exists>ip \<in> set (addrs p). subnet24 ip \<in> subnet24 ` set ips \<and>
       (prefix_priority (env_priority env) = [] \<or> in_priority (prefix_priority (env_priority env)) ip) \<and>
       answers rank p (os ip (port p)))"
    and "rank \<le> length (env_incoming env)"
    and "\<forall>p < rank. \<exists>i \<in> set (take rank (env_incoming env)). calls rank p i"
  shows "\<exists>m. mesh_construct env rank world = ([(peer_key rank, ep)], Constructed m)"
proof -
  obtain eps where eps: "mesh_endpoints env rank world ep = Some eps"
    using mesh_endpoints_total [of world rank env] assms(4) by fastforce
  have "\<exists>s. connect_peer (prefix_priority (env_priority env)) (map subnet24 ips) rank p (eps ! p) (env_rounds env p) = Inr s"
    if p: "p \<in> set [Suc rank..<world]" for p
    using published_reached [of env p "addrs p" "port p" ips rank] assms(2, 4, 5) p
      reached_connect_peer [OF mesh_endpoints_nth [OF eps]] by auto
  then obtain fds where fds: "mesh_connections env rank world ips eps = Inr fds"
    using connect_all_total [of _ "[Suc rank..<world]" "replicate world (- 1)"] unfolding mesh_connections_def by blast
  let ?fds = "acceptor rank (map (arrival_of rank) (env_incoming env)) fds"
  have "0 \<le> ?fds ! p" if "p < world" "p \<noteq> rank" for p
  proof (cases "p < rank")
    case True
    then obtain i where "i \<in> set (take rank (env_incoming env))" "greeted rank p i \<noteq> None"
      using assms(1, 2, 7) calls_greeted [of rank p] by fastforce
    then show ?thesis using acceptor_nth [of fds world p rank "env_incoming env"] mesh_connections_nth [OF fds eps] that True
      by fastforce
  next
    case False
    then show ?thesis using acceptor_nth [of fds world p rank "env_incoming env"] mesh_connections_nth [OF fds eps] that
      by (metis linorder_neqE_nat of_nat_0_le_iff)
  qed
  then have "missing_socket rank world ?fds = Inr ()" by (simp add: missing_socket_ok)
  then show ?thesis using assms(3, 6) eps fds by (simp add: mesh_construct_def Let_def)
qed

text \<open>
  Every failure of the connecting side takes the process down: the exception that would report the
  bad endpoint, the missing subnet or the peer that did not answer leaves the constructor while the acceptor thread
  is joinable, whatever the acceptor has seen.
\<close>

theorem mesh_failure_terminates:
  assumes "mesh_setup env = Inr (ips, ep)" and "\<forall>q < world. q \<noteq> rank \<longrightarrow> env_wait env (peer_key q) \<noteq> None"
    and "rank < p" and "p < world" and "\<forall>s. \<not> reached env ips rank p s"
  shows "snd (mesh_construct env rank world) = Terminates"
proof -
  obtain eps where eps: "mesh_endpoints env rank world ep = Some eps" using mesh_endpoints_total [OF assms(2)] by blast
  have "\<nexists>fds. mesh_connections env rank world ips eps = Inr fds"
    using mesh_connections_nth [OF _ eps] assms(3-5) by fastforce
  then show ?thesis using assms(1) eps by (cases "mesh_connections env rank world ips eps") (auto simp: mesh_construct_def)
qed

section \<open>A mesh of three ranks, seen by the middle one\<close>

definition sample_env :: mesh_env where
  "sample_env = \<lparr>env_socket = 3, env_bind = True, env_listen = True, env_port = Some 71,
     env_ifaddrs = Some [\<lparr>ifa_inet = Some [127, 0, 0, 1], ifa_up = True, ifa_loopback = True\<rparr>,
       \<lparr>ifa_inet = Some [10, 0, 0, 2], ifa_up = True, ifa_loopback = False\<rparr>],
     env_priority = Some ''10.'',
     env_wait = (\<lambda>k. if k = ''mccl/peer/0'' then Some ''10.0.0.1:70''
                     else if k = ''mccl/peer/2'' then Some ''10.0.0.3:72'' else None),
     env_rounds = (\<lambda>p. [\<lambda>ip port. ConnectFailed 4, \<lambda>ip port. Connected 5 [4] [[2, 0], [0, 0]]]),
     env_incoming = [Incoming 6 [[0, 0, 0, 0]] [3, 1]]\<rparr>"

lemma sample_setup: "mesh_setup sample_env = Inr ([''10.0.0.2''], ''10.0.0.2:71'')"
  by code_simp

lemma sample_construct:
  "snd (mesh_construct sample_env 1 3) =
     Constructed \<lparr>mesh_rank = 1, mesh_world = 3, mesh_listen_fd = 3, mesh_fds = [6, - 1, 5]\<rparr>"
  by code_simp

lemma sample_endpoints:
  "env_wait sample_env (peer_key 0) = Some (endpoint [''10.0.0.1''] (unat (70 :: u16)))"
  "env_wait sample_env (peer_key 2) = Some (endpoint [''10.0.0.3''] (unat (72 :: u16)))"
  by code_simp+

lemma sample_handshakes:
  "answers 1 2 (Connected 5 [4] [[2, 0], [0, 0]])" "calls 1 0 (Incoming 6 [[0, 0, 0, 0]] [3, 1])"
  by code_simp+

theorem mesh_verified_witness:
  "\<exists>m. snd (mesh_construct sample_env 1 3) = Constructed m \<and> length (mesh_fds m) = 3 \<and> mesh_fds m ! 1 = - 1 \<and>
     (\<exists>s. reached sample_env [''10.0.0.2''] 1 2 s \<and> mesh_fds m ! 2 = int s)"
  using mesh_verified [OF _ sample_construct] sample_construct by (auto simp: sample_setup)

lemma sample_peers:
  "\<forall>p < 3. p \<noteq> 1 \<longrightarrow> env_wait sample_env (peer_key p) =
       Some (endpoint ((\<lambda>p. if p = 0 then [''10.0.0.1''] else [''10.0.0.3'']) p) (unat ((\<lambda>p. if p = 0 then 70 else 72 :: u16) p))) \<and>
       (\<forall>ip \<in> set ((\<lambda>p. if p = (0 :: nat) then [''10.0.0.1''] else [''10.0.0.3'']) p). ip \<noteq> [] \<and> CHR '','' \<notin> set ip)"
  using sample_endpoints by (auto simp: numeral_3_eq_3 less_Suc_eq numeral_2_eq_2)

theorem mesh_constructs_witness:
  "\<exists>m. mesh_construct sample_env 1 3 = ([(peer_key 1, ''10.0.0.2:71'')], Constructed m)"
proof (rule mesh_constructs [OF _ _ sample_setup sample_peers])
  show "\<forall>p < 3. 1 < p \<longrightarrow> (\<exists>os \<in> set (env_rounds sample_env p).
      \<exists>ip \<in> set (if p = 0 then [''10.0.0.1''] else [''10.0.0.3'']). subnet24 ip \<in> subnet24 ` set [''10.0.0.2''] \<and>
       (prefix_priority (env_priority sample_env) = [] \<or> in_priority (prefix_priority (env_priority sample_env)) ip) \<and>
       answers 1 p (os ip (if p = 0 then 70 else 72)))"
  proof -
    have "subnet24 ''10.0.0.3'' \<in> subnet24 ` set [''10.0.0.2'']" by (simp add: subnet24_def)
    moreover have "in_priority (prefix_priority (env_priority sample_env)) ''10.0.0.3''" by code_simp
    moreover have "p < 3 \<and> 1 < p \<longleftrightarrow> p = 2" for p :: nat by auto
    ultimately show ?thesis using sample_handshakes(1) unfolding imp_conjL [symmetric] by (simp add: sample_env_def)
  qed
  show "\<forall>p < 1. \<exists>i \<in> set (take 1 (env_incoming sample_env)). calls 1 p i"
    using sample_handshakes(2) by (simp add: sample_env_def)
qed (simp_all add: sample_env_def)

end
