(* ===== verification/Fifo_Engine.thy ===== *)
theory Fifo_Engine
  imports Prelude "HOL-Library.Sublist"
begin

text \<open>
  The contract that the two single-threaded engines of the program share (\<open>Progress\<close> and
  \<open>ProgressEngine\<close>): work is accepted at the back of a queue and finished from its front. The locale
  takes the step relation of an engine and derives, for every interleaving of submitters, worker and
  shutdown, that work is finished exactly once, in the order of acceptance, and stays finished.
\<close>

locale fifo_engine =
  fixes init :: 's and step :: "'s \<Rightarrow> 's \<Rightarrow> bool"
    and accepted finished pending :: "'s \<Rightarrow> 't list"
  assumes init_empty: "accepted init = []" "finished init = []" "pending init = []"
    and step_cases: "step s s' \<Longrightarrow>
       (\<exists>t. accepted s' = accepted s @ [t] \<and> pending s' = pending s @ [t] \<and> finished s' = finished s) \<or>
       (\<exists>t. pending s = t # pending s' \<and> finished s' = finished s @ [t] \<and> accepted s' = accepted s) \<or>
       (accepted s' = accepted s \<and> pending s' = pending s \<and> finished s' = finished s)"
begin

lemma fifo_order: "step\<^sup>*\<^sup>* init s \<Longrightarrow> accepted s = finished s @ pending s"
proof (induction rule: rtranclp_induct)
  case base
  then show ?case by (simp add: init_empty)
next
  case (step s s')
  then show ?case using step_cases [of s s'] by auto
qed

lemma finished_prefix: "step\<^sup>*\<^sup>* init s \<Longrightarrow> prefix (finished s) (accepted s)"
  using fifo_order by simp

lemma finished_stable: "step\<^sup>*\<^sup>* s s' \<Longrightarrow> prefix (finished s) (finished s')"
proof (induction rule: rtranclp_induct)
  case (step s' s'')
  then show ?case using step_cases [of s' s''] by (auto intro: prefix_order.trans)
qed simp

lemma accepted_stable: "step\<^sup>*\<^sup>* s s' \<Longrightarrow> prefix (accepted s) (accepted s')"
proof (induction rule: rtranclp_induct)
  case (step s' s'')
  then show ?case using step_cases [of s' s''] by (auto intro: prefix_order.trans)
qed simp

text \<open>What was accepted first is finished first.\<close>

lemma finished_in_order:
  assumes "step\<^sup>*\<^sup>* init s" and "i < j" and "j < length (finished s)"
  shows "finished s ! i = accepted s ! i \<and> finished s ! j = accepted s ! j"
  using fifo_order [OF assms(1)] assms(2,3) by (simp add: nth_append)

lemma finished_all: "step\<^sup>*\<^sup>* init s \<Longrightarrow> pending s = [] \<Longrightarrow> finished s = accepted s"
  using fifo_order by simp

end

end
