(* ===== verification/Work_MCCL.thy ===== *)
theory Work_MCCL
  imports Fifo_Engine Errors
begin

text \<open>
  Asynchronous work: \<open>csrc/backend/WorkMCCL.cpp\<close> (the future-like handle of a collective),
  \<open>csrc/backend/Progress.cpp\<close> (the engine thread with its task queue) and \<open>async_submit_\<close> of
  \<open>csrc/backend/ProcessGroupMCCL.cpp\<close>, which ties the two together. What a user function (the body of a
  task, a synchronisation callback) does besides raising an exception or not is outside this theory.
\<close>

section \<open>The work handle\<close>

datatype 'e future = Pending | Value | Error 'e

record 'e work =
  completed :: bool
  wexception :: "'e option"
  wfuture :: "'e future"

definition fresh_work :: "'e work" where
  "fresh_work = \<lparr>completed = False, wexception = None, wfuture = Pending\<rparr>"

text \<open>The outcome of calling a function: \<^term>\<open>None\<close> when it returns, the exception otherwise.\<close>

type_synonym 'e outcome = "'e option"

definition finishWithException :: "'e \<Rightarrow> 'e work \<Rightarrow> 'e work" where
  "finishWithException e w =
     (if completed w then w
      else let w1 = w\<lparr>completed := True, wexception := Some e\<rparr> in
        if wfuture w1 = Pending then w1\<lparr>wfuture := Error e\<rparr> else w1)"

text \<open>\<open>cb\<close> is the outcome of the synchronisation callback, when there is one.\<close>

definition finish :: "'e outcome option \<Rightarrow> 'e work \<Rightarrow> 'e work" where
  "finish cb w =
     (case cb of
        Some (Some e) \<Rightarrow> finishWithException e w
      | _ \<Rightarrow>
         if completed w then w
         else let w1 = w\<lparr>completed := True\<rparr> in
           if wfuture w1 = Pending then w1\<lparr>wfuture := Value\<rparr> else w1)"

definition isCompleted :: "'e work \<Rightarrow> bool" where "isCompleted w = completed w"

definition isSuccess :: "'e work \<Rightarrow> bool" where
  "isSuccess w \<longleftrightarrow> completed w \<and> wexception w = None"

definition work_exception :: "'e work \<Rightarrow> 'e option" where "work_exception w = wexception w"

definition getFuture :: "'e work \<Rightarrow> 'e future" where "getFuture w = wfuture w"

datatype 'e wait_outcome = Blocks | TimedOut | Rethrows 'e | Done

text \<open>\<open>wait\<close>, at a moment when the handle is \<open>w\<close>; \<open>timed\<close> says whether the timeout has elapsed.\<close>

definition wait :: "bool \<Rightarrow> 'e work \<Rightarrow> 'e wait_outcome" where
  "wait timed w =
     (if completed w then (case wexception w of Some e \<Rightarrow> Rethrows e | None \<Rightarrow> Done)
      else if timed then TimedOut else Blocks)"

definition work_ok :: "'e work \<Rightarrow> bool" where
  "work_ok w \<longleftrightarrow>
     wfuture w = (if \<not> completed w then Pending else case wexception w of None \<Rightarrow> Value | Some e \<Rightarrow> Error e) \<and>
     (wexception w \<noteq> None \<longrightarrow> completed w)"

text \<open>The handle and the future that PyTorch sees agree.\<close>

lemma future_agrees:
  assumes "work_ok w"
  shows "isSuccess w \<longleftrightarrow> getFuture w = Value" and "work_exception w = Some e \<longleftrightarrow> getFuture w = Error e"
    and "isCompleted w \<longleftrightarrow> getFuture w \<noteq> Pending"
  using assms by (auto simp: work_ok_def isSuccess_def getFuture_def work_exception_def isCompleted_def split: option.splits if_splits)

lemma work_ok_fresh: "work_ok fresh_work" by (simp add: work_ok_def fresh_work_def)

lemma work_ok_finish: "work_ok w \<Longrightarrow> work_ok (finishWithException e w)" "work_ok w \<Longrightarrow> work_ok (finish cb w)"
  by (auto simp: work_ok_def finish_def finishWithException_def Let_def split: option.splits if_splits)

lemma finish_completed [simp]: "completed (finishWithException e w)" "completed (finish cb w)"
  by (auto simp: finish_def finishWithException_def Let_def split: option.splits)

lemma finish_again: "completed w \<Longrightarrow> finishWithException e w = w" "completed w \<Longrightarrow> finish cb w = w"
  by (auto simp: finish_def finishWithException_def split: option.splits)

section \<open>Tasks and the engine thread\<close>

text \<open>
  A task of \<open>async_submit_\<close>: the number of its work handle, the outcome of waiting for the GPU and running
  the body, and the outcome of the callback that \<open>finish\<close> runs.
\<close>

record 'e task =
  task_work :: nat
  task_body :: "'e outcome"
  task_cb :: "'e outcome option"

definition run_task :: "'e task \<Rightarrow> 'e work \<Rightarrow> 'e work" where
  "run_task t w = (case task_body t of None \<Rightarrow> finish (task_cb t) w | Some e \<Rightarrow> finishWithException e w)"

record 'e progress =
  pq :: "'e task list"
  pstop :: bool
  pexited :: bool
  works :: "nat \<Rightarrow> 'e work"
  submitted :: "'e task list"
  executed :: "'e task list"

definition new_progress :: "'e progress" where
  "new_progress = \<lparr>pq = [], pstop = False, pexited = False, works = (\<lambda>_. fresh_work), submitted = [], executed = []\<rparr>"

definition psubmit :: "'e task \<Rightarrow> 'e progress \<Rightarrow> 'e progress" where
  "psubmit t s = s\<lparr>pq := pq s @ [t], submitted := submitted s @ [t]\<rparr>"

text \<open>
  \<open>async_submit_\<close> makes a new work handle, numbered by how many were made before it, and queues the task.
  Nothing refuses a task after \<open>shutdown\<close>.
\<close>

definition async_submit :: "'e outcome \<Rightarrow> 'e outcome option \<Rightarrow> 'e progress \<Rightarrow> 'e progress" where
  "async_submit body cb s =
     (let t = \<lparr>task_work = length (submitted s), task_body = body, task_cb = cb\<rparr> in
      psubmit t (s\<lparr>works := (works s)(task_work t := fresh_work)\<rparr>))"

definition pshutdown :: "'e progress \<Rightarrow> 'e progress" where "pshutdown s = s\<lparr>pstop := True\<rparr>"

text \<open>One iteration of \<open>run\<close>: \<^term>\<open>None\<close> while the thread waits on the condition variable.\<close>

definition prun :: "'e progress \<Rightarrow> 'e progress option" where
  "prun s =
     (if pexited s then None
      else case pq s of
        [] \<Rightarrow> if pstop s then Some (s\<lparr>pexited := True\<rparr>) else None
      | t # q \<Rightarrow> Some (s\<lparr>pq := q, executed := executed s @ [t],
                      works := (works s)(task_work t := run_task t (works s (task_work t)))\<rparr>))"

inductive progress_step :: "'e progress \<Rightarrow> 'e progress \<Rightarrow> bool" where
  submit_step: "progress_step s (async_submit body cb s)"
| run_step: "prun s = Some s' \<Longrightarrow> progress_step s s'"
| stop_step: "progress_step s (pshutdown s)"

inductive_cases progress_stepE: "progress_step s s'"

lemma prun_cases:
  assumes "prun s = Some s'"
  obtains (task) t q where "\<not> pexited s" "pq s = t # q"
      "s' = s\<lparr>pq := q, executed := executed s @ [t], works := (works s)(task_work t := run_task t (works s (task_work t)))\<rparr>"
    | (exit) "\<not> pexited s" "pq s = []" "pstop s" "s' = s\<lparr>pexited := True\<rparr>"
  using assms by (auto simp: prun_def split: if_splits list.splits)

interpretation progress: fifo_engine new_progress progress_step submitted executed pq
proof unfold_locales
  fix s s' :: "'e progress" assume "progress_step s s'"
  then show "(\<exists>t. submitted s' = submitted s @ [t] \<and> pq s' = pq s @ [t] \<and> executed s' = executed s) \<or>
       (\<exists>t. pq s = t # pq s' \<and> executed s' = executed s @ [t] \<and> submitted s' = submitted s) \<or>
       (submitted s' = submitted s \<and> pq s' = pq s \<and> executed s' = executed s)"
    by (cases rule: progress_step.cases) (auto simp: async_submit_def psubmit_def pshutdown_def Let_def elim!: prun_cases)
qed (simp_all add: new_progress_def)

section \<open>Every work is settled once, by its own task\<close>

definition progress_inv :: "'e progress \<Rightarrow> bool" where
  "progress_inv s \<longleftrightarrow> map task_work (submitted s) = [0..<length (submitted s)] \<and>
     (\<forall>t \<in> set (executed s). works s (task_work t) = run_task t fresh_work) \<and>
     (\<forall>t \<in> set (pq s). works s (task_work t) = fresh_work) \<and> submitted s = executed s @ pq s"

lemma progress_inv_new: "progress_inv new_progress" by (simp add: progress_inv_def new_progress_def)

lemma progress_inv_numbers:
  assumes "progress_inv s"
  shows "distinct (map task_work (executed s @ pq s))" and "\<forall>t \<in> set (executed s @ pq s). task_work t < length (submitted s)"
proof -
  have m: "map task_work (executed s @ pq s) = [0..<length (submitted s)]"
    using assms unfolding progress_inv_def by metis
  show "distinct (map task_work (executed s @ pq s))" by (subst m) simp
  have "task_work ` set (executed s @ pq s) = {0..<length (submitted s)}" by (metis m set_map set_upt)
  then show "\<forall>t \<in> set (executed s @ pq s). task_work t < length (submitted s)" by fastforce
qed

lemma progress_inv_step:
  assumes "progress_inv s" and "progress_step s s'"
  shows "progress_inv s'"
  using assms(2)
proof (cases rule: progress_step.cases)
  case (submit_step body cb)
  let ?n = "length (submitted s)"
  have old: "t \<in> set (executed s) \<or> t \<in> set (pq s) \<Longrightarrow> task_work t \<noteq> ?n" for t
    using progress_inv_numbers(2) [OF assms(1)] by (metis UnI1 UnI2 less_irrefl set_append)
  show ?thesis
    using assms(1) old unfolding submit_step progress_inv_def async_submit_def psubmit_def Let_def by auto
next
  case run_step
  then show ?thesis
  proof (cases rule: prun_cases)
    case (task t q)
    have "task_work t \<notin> task_work ` set (executed s @ q)" using progress_inv_numbers(1) [OF assms(1)] task(2) by auto
    then have "u \<in> set (executed s) \<or> u \<in> set q \<Longrightarrow> task_work u \<noteq> task_work t" for u by (metis UnI1 UnI2 imageI set_append)
    with assms(1) task(2,3) show ?thesis by (auto simp: progress_inv_def)
  next
    case exit
    with assms(1) show ?thesis unfolding progress_inv_def by auto
  qed
next
  case stop_step
  with assms(1) show ?thesis unfolding progress_inv_def pshutdown_def by auto
qed

lemma progress_inv_reachable: "progress_step\<^sup>*\<^sup>* new_progress s \<Longrightarrow> progress_inv s"
  by (induction rule: rtranclp_induct) (blast intro: progress_inv_new progress_inv_step)+

lemma run_task_fresh: "completed (run_task t w)"
  by (simp add: run_task_def split: option.split)

lemma run_task_result:
  "wait b (run_task t fresh_work) =
     (case task_body t of Some e \<Rightarrow> Rethrows e | None \<Rightarrow> (case task_cb t of Some (Some e) \<Rightarrow> Rethrows e | _ \<Rightarrow> Done))"
  by (simp add: run_task_def finish_def finishWithException_def fresh_work_def wait_def Let_def split: option.split)

text \<open>
  C20. Collectives run in submission order and every handle is settled once. In every reachable state of the engine
  the submitted tasks are the executed ones followed by the queued ones; the handle of an executed task
  reports exactly the outcome of its own body and callback, its future agrees with it, and the
  handle of a queued task is still open.
\<close>

theorem progress_fifo:
  assumes "progress_step\<^sup>*\<^sup>* new_progress s"
  shows "submitted s = executed s @ pq s \<and>
     (\<forall>t \<in> set (executed s). work_ok (works s (task_work t)) \<and>
        wait b (works s (task_work t)) =
          (case task_body t of Some e \<Rightarrow> Rethrows e | None \<Rightarrow> (case task_cb t of Some (Some e) \<Rightarrow> Rethrows e | _ \<Rightarrow> Done))) \<and>
     (\<forall>t \<in> set (pq s). \<not> isCompleted (works s (task_work t)))"
proof (intro conjI ballI)
  note inv = progress_inv_reachable [OF assms, unfolded progress_inv_def]
  show "submitted s = executed s @ pq s" by (rule progress.fifo_order [OF assms])
  show "work_ok (works s (task_work t))" if "t \<in> set (executed s)" for t
    using inv that by (simp add: run_task_def work_ok_finish work_ok_fresh split: option.split)
  show "wait b (works s (task_work t)) =
      (case task_body t of Some e \<Rightarrow> Rethrows e | None \<Rightarrow> (case task_cb t of Some (Some e) \<Rightarrow> Rethrows e | _ \<Rightarrow> Done))"
    if "t \<in> set (executed s)" for t using inv that run_task_result by metis
  show "\<not> isCompleted (works s (task_work t))" if "t \<in> set (pq s)" for t
    using inv that by (simp add: isCompleted_def fresh_work_def)
qed

definition two_tasks :: "string progress" where
  "two_tasks = async_submit (Some ''bad'') None (async_submit None (Some None) new_progress)"

lemma two_tasks_reachable: "progress_step\<^sup>*\<^sup>* new_progress (the (prun two_tasks))"
proof -
  have "progress_step\<^sup>*\<^sup>* new_progress two_tasks"
    unfolding two_tasks_def by (meson rtranclp.rtrancl_into_rtrancl rtranclp.rtrancl_refl submit_step)
  moreover have "prun two_tasks = Some (the (prun two_tasks))"
    by (simp add: prun_def two_tasks_def async_submit_def psubmit_def new_progress_def Let_def)
  ultimately show ?thesis by (meson rtranclp.rtrancl_into_rtrancl run_step)
qed

theorem progress_fifo_witness:
  "wait False (works (the (prun two_tasks)) 0) = Done \<and> \<not> isCompleted (works (the (prun two_tasks)) 1)"
proof -
  let ?s = "the (prun two_tasks)"
  have "executed ?s = [\<lparr>task_work = 0, task_body = None, task_cb = Some None\<rparr>]"
    "pq ?s = [\<lparr>task_work = 1, task_body = Some ''bad'', task_cb = None\<rparr>]"
    by (simp_all add: prun_def two_tasks_def async_submit_def psubmit_def new_progress_def Let_def)
  with progress_fifo [OF two_tasks_reachable, of False] show ?thesis by simp
qed

section \<open>Draining\<close>

text \<open>The worker alone: iterations until it would wait or has exited.\<close>

fun drain :: "nat \<Rightarrow> 'e progress \<Rightarrow> 'e progress" where
  "drain 0 s = s"
| "drain (Suc n) s = (case prun s of None \<Rightarrow> s | Some s' \<Rightarrow> drain n s')"

lemma drain_steps: "progress_step\<^sup>*\<^sup>* s (drain n s)"
proof (induction n arbitrary: s)
  case (Suc n)
  then show ?case by (auto split: option.split intro: converse_rtranclp_into_rtranclp run_step)
qed simp

lemma drain_exits:
  "pstop s \<Longrightarrow> \<not> pexited s \<Longrightarrow>
   pexited (drain (Suc (length (pq s))) s) \<and> pq (drain (Suc (length (pq s))) s) = [] \<and> submitted (drain (Suc (length (pq s))) s) = submitted s"
proof (induction "length (pq s)" arbitrary: s)
  case 0
  then show ?case by (simp add: prun_def)
next
  case (Suc n)
  then obtain t q where q: "pq s = t # q" by (cases "pq s") auto
  let ?s = "s\<lparr>pq := q, executed := executed s @ [t], works := (works s)(task_work t := run_task t (works s (task_work t)))\<rparr>"
  have "prun s = Some ?s" using Suc.prems q by (simp add: prun_def)
  then show ?case using Suc.hyps(1) [of ?s] Suc.hyps(2) Suc.prems q by simp
qed



text \<open>After the thread has exited nothing is executed any more; a task submitted then is never settled.\<close>

lemma exited_never_runs:
  assumes "progress_step\<^sup>*\<^sup>* s s'" and "pexited s"
  shows "pexited s' \<and> executed s' = executed s"
  using assms
proof (induction rule: rtranclp_induct)
  case (step s' s'')
  from step.hyps(2) step.IH [OF step.prems] show ?case
    by (cases rule: progress_step.cases) (auto simp: async_submit_def psubmit_def pshutdown_def prun_def Let_def)
qed simp

end
