(* ===== verification/Double.thy ===== *)
theory Double
  imports Complex_Main "HOL-Library.Log_Nat"
begin

text \<open>
  Double precision arithmetic as the scheduler and the metrics use it, on non-negative values in range: an
  operation is the exact one on rationals followed by rounding. Rounding is monotone and keeps the integers below \<open>2 ^ 53\<close>. Rounding to a significand of any
  length, for the element types and \<open>float\<close>, with its relative error.
\<close>

section \<open>Rounding\<close>

text \<open>IEEE double precision on positive rationals in range: nearest, ties to even, 53 significant bits.\<close>

definition grid :: "int \<Rightarrow> rat" where
  "grid e = (if 0 \<le> e then 2 ^ nat e else 1 / 2 ^ nat (- e))"

definition round_half_even :: "rat \<Rightarrow> int" where
  "round_half_even q =
     (let f = \<lfloor>q\<rfloor>; r = q - of_int f in
      if r < 1 / 2 then f else if 1 / 2 < r then f + 1 else if even f then f else f + 1)"

definition round53 :: "rat \<Rightarrow> rat" where
  "round53 x =
     (if x \<le> 0 then 0
      else let (a, b) = quotient_of x;
               e0 = bitlen a - bitlen b;
               e = (if x < grid e0 then e0 - 1 else e0) - 52 in
        of_int (round_half_even (x / grid e)) * grid e)"

section \<open>Rounding to an integer\<close>

lemma round_half_even_of_int [simp]: "round_half_even (of_int n) = n"
  by (simp add: round_half_even_def)

lemma round_half_even_near: "\<lfloor>q\<rfloor> \<le> round_half_even q \<and> round_half_even q \<le> \<lfloor>q\<rfloor> + 1"
  by (simp add: round_half_even_def Let_def)

lemma round_half_even_mono:
  assumes "p \<le> q"
  shows "round_half_even p \<le> round_half_even q"
proof (cases "\<lfloor>p\<rfloor> = \<lfloor>q\<rfloor>")
  case True
  then show ?thesis using assms by (auto simp: round_half_even_def Let_def)
next
  case False
  then have "\<lfloor>p\<rfloor> + 1 \<le> \<lfloor>q\<rfloor>" using floor_mono [OF assms] by linarith
  then show ?thesis using round_half_even_near [of p] round_half_even_near [of q] by linarith
qed

section \<open>The binade of a number\<close>

lemma grid_powi: "grid e = 2 powi e"
  by (simp add: grid_def power_int_def inverse_eq_divide power_one_over)

lemma grid_pos: "0 < grid e"
  by (simp add: grid_powi)

lemma grid_add: "grid (a + b) = grid a * grid b"
  by (simp add: grid_powi power_int_add)

lemma grid_mono: "a \<le> b \<Longrightarrow> grid a \<le> grid b"
  by (simp add: grid_powi power_int_increasing)

definition binade :: "rat \<Rightarrow> int" where
  "binade x = (let (a, b) = quotient_of x; e0 = bitlen a - bitlen b in if x < grid e0 then e0 - 1 else e0)"

lemma round53_binade: "0 < x \<Longrightarrow> round53 x = of_int (round_half_even (x / grid (binade x - 52))) * grid (binade x - 52)"
  by (simp add: round53_def binade_def Let_def split: prod.split)

lemma bitlen_grid:
  assumes "0 < a"
  shows "grid (bitlen a - 1) \<le> of_int a" and "of_int a < grid (bitlen a)"
proof -
  have l: "0 < bitlen a" using assms bitlen_bounds [of a] by (simp add: bitlen_eq_zero_iff order.strict_iff_order bitlen_nonneg)
  have "(2::int) ^ nat (bitlen a - 1) \<le> a" "a < 2 ^ nat (bitlen a)" using bitlen_bounds [OF assms] by auto
  then have "(of_int (2 ^ nat (bitlen a - 1)) :: rat) \<le> of_int a" "(of_int a :: rat) < of_int (2 ^ nat (bitlen a))" by linarith+
  then show "grid (bitlen a - 1) \<le> of_int a" "of_int a < grid (bitlen a)" using l by (simp_all add: grid_def)
qed

lemma binade_bounds:
  assumes "0 < x"
  shows "grid (binade x) \<le> x" and "x < grid (binade x + 1)"
proof -
  obtain a b where q: "quotient_of x = (a, b)" by fastforce
  have b: "0 < b" and x: "x = of_int a / of_int b" using quotient_of_denom_pos [OF q] quotient_of_div [OF q] by auto
  then have a: "0 < a" using assms by (simp add: zero_less_divide_iff)
  let ?e = "bitlen a - bitlen b"
  have pos: "(0 :: rat) < of_int b" using b by simp
  have "x * of_int b = of_int a" using pos x by simp
  then have lower: "grid (?e - 1) < x" and upper: "x < grid (?e + 1)"
  proof -
    assume xb: "x * of_int b = of_int a"
    have "grid (?e - 1) * of_int b < grid (?e - 1) * grid (bitlen b)" using bitlen_grid(2) [OF b] grid_pos by simp
    also have "\<dots> = grid (bitlen a - 1)" by (simp flip: grid_add)
    also have "\<dots> \<le> x * of_int b" using bitlen_grid(1) [OF a] xb by simp
    finally show "grid (?e - 1) < x" using pos by simp
    have "x * of_int b < grid (bitlen a)" using bitlen_grid(2) [OF a] xb by simp
    also have "\<dots> = grid (?e + 1) * grid (bitlen b - 1)" by (simp flip: grid_add)
    also have "\<dots> \<le> grid (?e + 1) * of_int b" using bitlen_grid(1) [OF b] grid_pos [of "?e + 1"] by simp
    finally show "x < grid (?e + 1)" using pos by simp
  qed
  show "grid (binade x) \<le> x" "x < grid (binade x + 1)" using lower upper by (auto simp: binade_def q Let_def)
qed

section \<open>Rounding is monotone and exact on small integers\<close>

lemma round53_nonneg: "0 \<le> round53 x"
proof (cases "0 < x")
  case True
  have "0 \<le> x / grid (binade x - 52)" using True grid_pos [of "binade x - 52"] by simp
  then have "round_half_even 0 \<le> round_half_even (x / grid (binade x - 52))" by (rule round_half_even_mono)
  then have "0 \<le> round_half_even (x / grid (binade x - 52))" using round_half_even_of_int [of 0] by simp
  then show ?thesis using grid_pos [of "binade x - 52"] by (simp add: round53_binade [OF True])
qed (simp add: round53_def)

lemma round53_in_binade:
  assumes "0 < x"
  shows "grid (binade x) \<le> round53 x" and "round53 x \<le> grid (binade x + 1)"
proof -
  let ?g = "grid (binade x - 52)"
  have lo: "grid (binade x) = 2 ^ 52 * ?g" and hi: "grid (binade x + 1) = 2 ^ 53 * ?g"
    using grid_add [of "binade x - 52" 52] grid_add [of "binade x - 52" 53] by (simp_all add: grid_def [of 52] grid_def [of 53] algebra_simps)
  have "of_int (2 ^ 52) \<le> x / ?g" "x / ?g \<le> of_int (2 ^ 53)"
    using binade_bounds [OF assms] grid_pos [of "binade x - 52"] unfolding lo hi by (simp_all add: pos_le_divide_eq pos_divide_le_eq)
  then have "round_half_even (of_int (2 ^ 52)) \<le> round_half_even (x / ?g)" "round_half_even (x / ?g) \<le> round_half_even (of_int (2 ^ 53))"
    by (blast intro: round_half_even_mono)+
  then have "2 ^ 52 \<le> round_half_even (x / ?g)" "round_half_even (x / ?g) \<le> 2 ^ 53" unfolding round_half_even_of_int .
  then have "(2 ^ 52 :: rat) \<le> of_int (round_half_even (x / ?g))" "(of_int (round_half_even (x / ?g)) :: rat) \<le> 2 ^ 53"
    by (metis of_int_le_iff of_int_numeral of_int_power)+
  then show "grid (binade x) \<le> round53 x" "round53 x \<le> grid (binade x + 1)"
    unfolding round53_binade [OF assms] lo hi using grid_pos [of "binade x - 52"] by (simp_all add: mult_right_mono)
qed

lemma binade_mono:
  assumes "0 < x" and "x \<le> y"
  shows "binade x \<le> binade y"
proof (rule ccontr)
  assume "\<not> binade x \<le> binade y"
  then have "grid (binade y + 1) \<le> grid (binade x)" by (intro grid_mono) simp
  then show False using binade_bounds [of x] binade_bounds [of y] assms by linarith
qed

lemma round53_mono:
  assumes "x \<le> y"
  shows "round53 x \<le> round53 y"
proof (cases "0 < x")
  case False
  then show ?thesis using round53_nonneg [of y] by (simp add: round53_def)
next
  case True
  then have y: "0 < y" using assms by linarith
  show ?thesis
  proof (cases "binade x = binade y")
    case True
    have "x / grid (binade y - 52) \<le> y / grid (binade y - 52)" using assms grid_pos [of "binade y - 52"] by (simp add: divide_right_mono)
    from round_half_even_mono [OF this] show ?thesis
      unfolding round53_binade [OF \<open>0 < x\<close>] round53_binade [OF y] True using grid_pos [of "binade y - 52"] by simp
  next
    case False
    then have "grid (binade x + 1) \<le> grid (binade y)" using binade_mono [OF \<open>0 < x\<close> assms] by (intro grid_mono) simp
    then show ?thesis using round53_in_binade [OF \<open>0 < x\<close>] round53_in_binade [OF y] by linarith
  qed
qed

section \<open>Rounding to a significand\<close>

definition round_pos :: "nat \<Rightarrow> rat \<Rightarrow> rat" where
  "round_pos p x = (let g = grid (binade x + 1 - int p) in of_int (round_half_even (x / g)) * g)"

definition round_to :: "nat \<Rightarrow> rat \<Rightarrow> rat" where
  "round_to p x = (if x = 0 then 0 else if 0 < x then round_pos p x else - round_pos p (- x))"

lemma round_half_even_error: "\<bar>of_int (round_half_even q) - q\<bar> \<le> 1 / 2"
proof -
  have floor: "of_int \<lfloor>q\<rfloor> \<le> q" "q < of_int \<lfloor>q\<rfloor> + 1" by linarith+
  define r where "r = q - of_int \<lfloor>q\<rfloor>"
  have "round_half_even q = (if r < 1 / 2 then \<lfloor>q\<rfloor> else if 1 / 2 < r then \<lfloor>q\<rfloor> + 1 else if even \<lfloor>q\<rfloor> then \<lfloor>q\<rfloor> else \<lfloor>q\<rfloor> + 1)"
    by (simp add: round_half_even_def Let_def r_def)
  moreover have "q = of_int \<lfloor>q\<rfloor> + r" "0 \<le> r" "r < 1" using floor by (simp_all add: r_def)
  ultimately show ?thesis by (cases "r < 1 / 2"; cases "1 / 2 < r") (auto simp: abs_if)
qed

lemma round_pos_error:
  assumes "0 < x"
  shows "\<bar>round_pos p x - x\<bar> \<le> x / 2 ^ p"
proof -
  let ?g = "grid (binade x + 1 - int p)"
  have g: "0 < ?g" by (rule grid_pos)
  have "round_pos p x - x = (of_int (round_half_even (x / ?g)) - x / ?g) * ?g" using g by (simp add: round_pos_def Let_def left_diff_distrib)
  then have "\<bar>round_pos p x - x\<bar> = \<bar>of_int (round_half_even (x / ?g)) - x / ?g\<bar> * ?g" using g by (simp add: abs_mult)
  also have "\<dots> \<le> 1 / 2 * ?g" using round_half_even_error g by (intro mult_right_mono) simp_all
  also have "1 / 2 * ?g = grid (binade x) / 2 ^ p"
  proof -
    have "?g * grid (int p - 1) = grid (binade x)" by (simp flip: grid_add)
    moreover have "grid (int p - 1) * 2 = 2 ^ p" using grid_add [of "int p - 1" 1] by (simp add: grid_def [of "int p"] grid_def [of 1])
    ultimately have "?g * 2 ^ p = grid (binade x) * 2" by (metis mult.assoc)
    then show ?thesis by (simp add: field_simps)
  qed
  also have "\<dots> \<le> x / 2 ^ p" using binade_bounds(1) [OF assms] by (simp add: divide_right_mono)
  finally show ?thesis .
qed

lemma round_to_error: "\<bar>round_to p x - x\<bar> \<le> \<bar>x\<bar> / 2 ^ p"
  using round_pos_error [of x p] round_pos_error [of "- x" p] by (auto simp: round_to_def abs_minus_commute)

lemma round53_pos: "0 < x \<Longrightarrow> round53 x = round_pos 53 x"
  by (simp add: round53_binade round_pos_def Let_def)

lemma round_pos_of_nat:
  assumes "n < 2 ^ p" and "0 < n"
  shows "round_pos p (of_nat n) = of_nat n"
proof -
  let ?x = "of_nat n :: rat" and ?e = "binade (of_nat n :: rat) + 1 - int p"
  have x: "0 < ?x" using assms(2) by simp
  have "binade ?x < int p"
  proof (rule ccontr)
    assume "\<not> binade ?x < int p"
    then have "grid (int p) \<le> grid (binade ?x)" by (intro grid_mono) simp
    moreover have "?x < of_nat (2 ^ p)" using assms(1) by (simp only: of_nat_less_iff)
    then have "?x < grid (int p)" by (simp add: grid_def)
    ultimately show False using binade_bounds(1) [OF x] by linarith
  qed
  then have "grid (- ?e) = 2 ^ nat (- ?e)" by (simp add: grid_def)
  then have "grid ?e * 2 ^ nat (- ?e) = 1" using grid_add [of ?e "- ?e"] by (simp add: grid_def [of 0] del: minus_diff_eq)
  then have g: "?x / grid ?e = of_int (int n * 2 ^ nat (- ?e))" using grid_pos [of ?e] by (simp add: field_simps)
  have "round_pos p ?x = ?x / grid ?e * grid ?e" unfolding round_pos_def Let_def by (metis g round_half_even_of_int)
  then show ?thesis using grid_pos [of ?e] by simp
qed

lemma round53_of_nat: "n < 2 ^ 53 \<Longrightarrow> round53 (of_nat n) = of_nat n"
  using round_pos_of_nat [of n 53] round53_pos [of "of_nat n"] by (cases "n = 0") (simp_all add: round53_def)

end
