(* ===== verification/Group_Construction.thy ===== *)
theory Group_Construction
  imports Mesh_Construction Work_MCCL Double
begin

text \<open>
  Construction of a process group and the handles it returns without its engine
  (\<open>csrc/backend/ProcessGroupMCCL.cpp\<close>, constructor, \<open>create\<close>, \<open>make_completed\<close>, \<open>make_failed\<close>, \<open>make_unimplemented\<close>). Whether the
  Metal kernels initialise is an argument: \<open>None\<close>, or the exception.
\<close>

section \<open>Handles that are settled at once\<close>

definition make_completed :: "'e work" where
  "make_completed = finish None fresh_work"

definition make_failed :: "'e \<Rightarrow> 'e work" where
  "make_failed e = finishWithException e fresh_work"

definition make_unimplemented :: "string \<Rightarrow> mccl_error work" where
  "make_unimplemented title = make_failed (MCCLError (title @ '': not implemented''))"

lemma settled_handles:
  "work_ok make_completed" "work_ok (make_failed e)"
  "wait timed make_completed = Done" "wait timed (make_failed e) = Rethrows e"
  by (simp_all add: make_completed_def make_failed_def finish_def finishWithException_def fresh_work_def work_ok_def wait_def)

section \<open>The constructor\<close>

text \<open>A group has a rendezvous, a mesh and an engine when it has more than one rank, and nothing otherwise.\<close>

record process_group =
  pg_rank :: nat
  pg_size :: nat
  pg_mesh :: "peer_mesh option"

datatype group_outcome = Group process_group | NoGroup mesh_outcome

definition new_process_group ::
    "mccl_error option \<Rightarrow> mesh_env \<Rightarrow> int \<Rightarrow> int \<Rightarrow> (string \<times> string) list \<times> group_outcome" where
  "new_process_group kernels env rank world =
     (if \<not> (0 \<le> rank \<and> rank < world) then ([], NoGroup (Raised (MCCLError ''rank/size invalid'')))
      else case kernels of
        Some e \<Rightarrow> ([], NoGroup (Raised e))
      | None \<Rightarrow>
          if 1 < world
          then (case mesh_construct env (nat rank) (nat world) of
                  (pub, Constructed m) \<Rightarrow> (pub, Group \<lparr>pg_rank = nat rank, pg_size = nat world, pg_mesh = Some m\<rparr>)
                | (pub, bad) \<Rightarrow> (pub, NoGroup bad))
          else ([], Group \<lparr>pg_rank = nat rank, pg_size = nat world, pg_mesh = None\<rparr>))"

text \<open>
  A group that exists has a valid rank, publishes nothing and needs no network when it is alone, and otherwise has a mesh with a
  descriptor for every other rank and none for itself.
\<close>

lemma new_process_group_ok:
  assumes "new_process_group kernels env rank world = (pub, Group g)"
  shows "0 \<le> rank \<and> rank < world \<and> pg_rank g = nat rank \<and> pg_size g = nat world \<and>
     (if world = 1 then pub = [] \<and> pg_mesh g = None
      else \<exists>m. pg_mesh g = Some m \<and> mesh_construct env (nat rank) (nat world) = (pub, Constructed m) \<and>
        (\<forall>p < nat world. p \<noteq> nat rank \<longrightarrow> 0 \<le> mesh_fds m ! p))"
proof -
  have r: "0 \<le> rank" "rank < world" "kernels = None"
    using assms by (auto simp: new_process_group_def split: if_splits option.splits)
  show ?thesis
  proof (cases "world = 1")
    case False
    with r assms obtain m where m: "mesh_construct env (nat rank) (nat world) = (pub, Constructed m)"
        "g = \<lparr>pg_rank = nat rank, pg_size = nat world, pg_mesh = Some m\<rparr>"
      by (auto simp: new_process_group_def split: prod.splits mesh_outcome.splits)
    then have "missing_socket (nat rank) (nat world) (mesh_fds m) = Inr ()"
      using mesh_construct_Constructed [of env "nat rank" "nat world" m] by auto
    with m r False show ?thesis by (simp add: missing_socket_ok)
  qed (use r assms in \<open>auto simp: new_process_group_def\<close>)
qed

lemma single_rank_group:
  "new_process_group None env 0 1 = ([], Group \<lparr>pg_rank = 0, pg_size = 1, pg_mesh = None\<rparr>)"
  by (simp add: new_process_group_def)

section \<open>The factory\<close>

text \<open>
  \<open>ProcessGroupMCCL::create\<close> is given the timeout in seconds as a \<open>float\<close>: it is multiplied by 1000 in \<open>float\<close> and truncated to 64 bits. A product outside their range is undefined
  behaviour (\<open>None\<close>).
\<close>

definition timeout_ms :: "rat \<Rightarrow> int option" where
  "timeout_ms seconds =
     (let ms = round_to 24 (seconds * 1000); n = (if 0 \<le> ms then \<lfloor>ms\<rfloor> else \<lceil>ms\<rceil>) in
      if - (2 ^ 63) \<le> n \<and> n < 2 ^ 63 then Some n else None)"

definition create_group ::
    "mccl_error option \<Rightarrow> mesh_env \<Rightarrow> int \<Rightarrow> int \<Rightarrow> rat \<Rightarrow> (int \<times> (string \<times> string) list \<times> group_outcome) option" where
  "create_group kernels env rank world timeout =
     map_option (\<lambda>ms. (ms, new_process_group kernels env rank world)) (timeout_ms timeout)"

text \<open>Whole seconds up to more than four hours arrive exactly, the default of half an hour among them.\<close>

lemma timeout_seconds:
  assumes "n \<le> 16777"
  shows "timeout_ms (of_nat n) = Some (1000 * int n)"
proof (cases "n = 0")
  case False
  have "round_pos 24 (of_nat (1000 * n)) = of_nat (1000 * n)" using assms False by (intro round_pos_of_nat) simp_all
  then have ms: "round_to 24 (of_nat n * 1000) = of_int (1000 * int n)" using False by (simp add: round_to_def mult.commute)
  have "\<lfloor>of_int (1000 * int n) :: rat\<rfloor> = 1000 * int n" by (rule floor_of_int)
  then show ?thesis using assms unfolding timeout_ms_def ms by (simp add: Let_def)
qed (simp add: timeout_ms_def round_to_def)

text \<open>An unlimited timeout does not: a \<open>float\<close> of \<open>10 ^ 16\<close> seconds is outside the range.\<close>

lemma timeout_undefined: "timeout_ms (10 ^ 16) = None"
proof -
  have "\<bar>round_to 24 (10 ^ 16 * 1000) - 10 ^ 19\<bar> \<le> 10 ^ 19 / 2 ^ 24" using round_to_error [of 24 "10 ^ 19"] by simp
  then have "10 ^ 19 - 10 ^ 19 / 2 ^ 24 \<le> round_to 24 (10 ^ 16 * 1000)" by linarith
  moreover have "(2 ^ 63 :: rat) \<le> 10 ^ 19 - 10 ^ 19 / 2 ^ 24" by simp
  ultimately have big: "2 ^ 63 \<le> round_to 24 (10 ^ 16 * 1000)" by (rule order_trans [rotated])
  then have "of_int (2 ^ 63) \<le> round_to 24 (10 ^ 16 * 1000)" by simp
  then have "2 ^ 63 \<le> \<lfloor>round_to 24 (10 ^ 16 * 1000)\<rfloor>" by (simp only: le_floor_iff)
  with big show ?thesis by (simp add: timeout_ms_def Let_def)
qed

end
