(* ===== verification/Rendezvous.thy ===== *)
theory Rendezvous
  imports Errors
begin

text \<open>
  Store-based rendezvous (\<open>csrc/runtime/Rendezvous.cpp\<close>) and the barrier of the process group
  (\<open>ProcessGroupMCCL::barrier\<close>). The key-value store is the one that \<open>torch.distributed\<close> provides: a table of
  byte strings, on which \<open>set\<close> writes, \<open>wait\<close> returns once the key is present or fails, and \<open>get\<close>
  reads. Whether a \<open>wait\<close> fails, and with which message, is an argument.
\<close>

section \<open>Keys\<close>

definition endpoint_key :: "nat \<Rightarrow> string" where
  "endpoint_key rank = ''mccl/endpoint/'' @ to_string rank"

definition barrier_key :: "string \<Rightarrow> nat \<Rightarrow> string" where
  "barrier_key tag rank = ''mccl/barrier/'' @ tag @ ''/'' @ to_string rank"

definition pg_barrier_tag :: "nat \<Rightarrow> string" where
  "pg_barrier_tag n = ''pg_barrier_'' @ to_string n"

section \<open>Endpoint exchange\<close>

type_synonym store = "string \<rightharpoonup> string"

text \<open>
  The loop over the peers, on the store as each \<open>wait\<close> finds it: \<open>sees r\<close> is what rank \<open>r\<close>'s key holds when
  the wait returns, \<open>Inl\<close> the message when it fails.
\<close>

definition collect_endpoint :: "nat \<Rightarrow> (nat \<Rightarrow> string + string) \<Rightarrow> nat \<Rightarrow> mccl_error + string" where
  "collect_endpoint rank sees r =
     (case sees r of Inr v \<Rightarrow> Inr v
      | Inl msg \<Rightarrow> Inl (TimeoutError (''Rank '' @ to_string rank @ '' timed out waiting for endpoint from rank '' @ to_string r @ '': '' @ msg)))"

definition exchange_endpoints :: "nat \<Rightarrow> nat \<Rightarrow> string \<Rightarrow> (nat \<Rightarrow> string + string) \<Rightarrow> mccl_error + string list" where
  "exchange_endpoints rank world my_endpoint sees =
     map_res (\<lambda>r. if r = rank then Inr my_endpoint else collect_endpoint rank sees r) [0..<world]"

section \<open>The barrier as a distributed program\<close>

text \<open>
  A rank that runs \<open>barrier(tag)\<close> writes its key, then waits for the key of each other rank in turn. \<open>Outside n\<close>: it has
  returned from \<open>n\<close> barriers; \<open>Inside n r\<close>: it is in its barrier number \<open>n\<close> and waits for rank \<open>r\<close> next.
  \<open>tags n\<close> is the tag of the \<open>n\<close>-th barrier, the same on every rank.
\<close>

datatype position = Outside nat | Inside nat nat

record barrier_state =
  keys :: "string set"
  pos :: "nat \<Rightarrow> position"

definition barrier_init :: barrier_state where
  "barrier_init = \<lparr>keys = {}, pos = (\<lambda>_. Outside 0)\<rparr>"

inductive barrier_step :: "(nat \<Rightarrow> string) \<Rightarrow> nat \<Rightarrow> barrier_state \<Rightarrow> barrier_state \<Rightarrow> bool" for tags world where
  enter: "rank < world \<Longrightarrow> pos s rank = Outside n \<Longrightarrow>
     barrier_step tags world s (s\<lparr>keys := insert (barrier_key (tags n) rank) (keys s), pos := (pos s)(rank := Inside n 0)\<rparr>)"
| pass: "rank < world \<Longrightarrow> pos s rank = Inside n r \<Longrightarrow> r < world \<Longrightarrow> r = rank \<or> barrier_key (tags n) r \<in> keys s \<Longrightarrow>
     barrier_step tags world s (s\<lparr>pos := (pos s)(rank := Inside n (Suc r))\<rparr>)"
| leave: "rank < world \<Longrightarrow> pos s rank = Inside n world \<Longrightarrow>
     barrier_step tags world s (s\<lparr>pos := (pos s)(rank := Outside (Suc n))\<rparr>)"

inductive_cases barrier_stepE: "barrier_step tags world s s'"

text \<open>How many barriers a rank has entered, and left.\<close>

fun entered :: "position \<Rightarrow> nat" where
  "entered (Outside n) = n" | "entered (Inside n r) = Suc n"

fun left :: "position \<Rightarrow> nat" where
  "left (Outside n) = n" | "left (Inside n r) = n"

section \<open>Keys are distinct\<close>

lemma slash_not_in_number: "CHR ''/'' \<notin> set (to_string n)"
  by (rule not_digit_in_to_string) (simp add: is_digit_def)

lemma barrier_key_inject:
  assumes "barrier_key t r = barrier_key t' r'"
  shows "t = t' \<and> r = r'"
proof -
  let ?f = "takeWhile (\<lambda>c. c \<noteq> CHR ''/'')" and ?g = "dropWhile (\<lambda>c. c \<noteq> CHR ''/'')"
  have "rev (to_string r) @ ''/'' @ rev t = rev (to_string r') @ ''/'' @ rev t'"
    using arg_cong [OF assms, of rev] by (simp add: barrier_key_def)
  moreover have "?f (rev (to_string n) @ ''/'' @ xs) = rev (to_string n)" "?g (rev (to_string n) @ ''/'' @ xs) = ''/'' @ xs" for n xs
    using slash_not_in_number [of n] takeWhile_append2 [of "rev (to_string n)" "\<lambda>c. c \<noteq> CHR ''/''" "''/'' @ xs"]
      dropWhile_append2 [of "rev (to_string n)" "\<lambda>c. c \<noteq> CHR ''/''" "''/'' @ xs"] by fastforce+
  ultimately have "rev (to_string r) = rev (to_string r')" "''/'' @ rev t = ''/'' @ rev t'" by metis+
  then show ?thesis by simp
qed

lemma pg_barrier_tag_inject: "inj pg_barrier_tag"
  by (rule injI) (simp add: pg_barrier_tag_def)

section \<open>Properties\<close>

definition barrier_inv :: "(nat \<Rightarrow> string) \<Rightarrow> nat \<Rightarrow> barrier_state \<Rightarrow> bool" where
  "barrier_inv tags world s \<longleftrightarrow>
     (\<forall>q < world. \<forall>n. barrier_key (tags n) q \<in> keys s \<longrightarrow> n < entered (pos s q)) \<and>
     (\<forall>p < world. \<forall>q < world. left (pos s p) \<le> entered (pos s q)) \<and>
     (\<forall>p < world. \<forall>n r. pos s p = Inside n r \<longrightarrow> r \<le> world \<and> (\<forall>q < r. n < entered (pos s q)))"

lemma barrier_inv_init: "barrier_inv tags world barrier_init"
  by (simp add: barrier_inv_def barrier_init_def)

lemma barrier_inv_step:
  assumes "inj tags" and inv: "barrier_inv tags world s" and "barrier_step tags world s s'"
  shows "barrier_inv tags world s'"
  using assms(3)
proof (cases rule: barrier_step.cases)
  case (enter rank n)
  have key: "barrier_key (tags m) q = barrier_key (tags n) rank \<longleftrightarrow> m = n \<and> q = rank" for m q
    using barrier_key_inject [of "tags m" q "tags n" rank] assms(1) by (auto simp: inj_eq)
  have mono: "entered (pos s q) \<le> entered (pos s' q)" and same: "left (pos s' q) = left (pos s q)" for q using enter by auto
  note I = inv [unfolded barrier_inv_def]
  show ?thesis
    unfolding barrier_inv_def
  proof (intro conjI allI impI)
    fix q m assume q: "q < world" "barrier_key (tags m) q \<in> keys s'"
    show "m < entered (pos s' q)"
    proof (cases "m = n \<and> q = rank")
      case False
      then have "barrier_key (tags m) q \<in> keys s" using q(2) enter key [of m q] by auto
      then show ?thesis using I q(1) mono [of q] by (metis less_le_trans)
    qed (use enter in simp)
  next
    fix p q assume "p < world" "q < world"
    then show "left (pos s' p) \<le> entered (pos s' q)" using I same [of p] mono [of q] by (metis le_trans)
  next
    fix p m r assume p: "p < world" "pos s' p = Inside m r"
    show "r \<le> world" using I p enter by (auto split: if_splits)
    fix q assume q: "q < r"
    then have "pos s p = Inside m r" using p(2) enter by (auto split: if_splits)
    then show "m < entered (pos s' q)" using I p(1) q mono [of q] by (metis less_le_trans)
  qed
next
  case (pass rank n r)
  have same: "entered (pos s' q) = entered (pos s q)" "left (pos s' q) = left (pos s q)" for q using pass by auto
  have "n < entered (pos s r)" using pass inv by (auto simp: barrier_inv_def)
  then show ?thesis using inv pass same unfolding barrier_inv_def by (auto simp: less_Suc_eq)
next
  case (leave rank n)
  have same: "entered (pos s' q) = entered (pos s q)" for q using leave by auto
  have "\<forall>q < world. n < entered (pos s q)" using leave inv unfolding barrier_inv_def by blast
  then show ?thesis using inv leave same unfolding barrier_inv_def by (auto simp: Suc_le_eq)
qed

lemma barrier_inv_reachable:
  "inj tags \<Longrightarrow> (barrier_step tags world)\<^sup>*\<^sup>* barrier_init s \<Longrightarrow> barrier_inv tags world s"
  by (rotate_tac, induction rule: rtranclp_induct) (blast intro: barrier_inv_init barrier_inv_step)+

text \<open>
  C24. The barrier of the process group separates: with the tags it uses, no rank returns from its \<open>n\<close>-th barrier before
  every rank has entered its \<open>n\<close>-th barrier, however the ranks are scheduled.
\<close>

theorem barrier_separates:
  assumes "(barrier_step pg_barrier_tag world)\<^sup>*\<^sup>* barrier_init s" and "p < world" and "q < world"
  shows "left (pos s p) \<le> entered (pos s q)"
  using barrier_inv_reachable [OF pg_barrier_tag_inject assms(1)] assms(2,3) unfolding barrier_inv_def by blast

definition one_inside :: barrier_state where
  "one_inside = \<lparr>keys = {barrier_key (pg_barrier_tag 0) 0}, pos = (\<lambda>_. Outside 0)(0 := Inside 0 1)\<rparr>"

theorem barrier_separates_witness: "left (pos one_inside 0) \<le> entered (pos one_inside 1)"
proof -
  let ?s = "barrier_init\<lparr>keys := insert (barrier_key (pg_barrier_tag 0) 0) (keys barrier_init), pos := (pos barrier_init)(0 := Inside 0 0)\<rparr>"
  have "barrier_step pg_barrier_tag 2 barrier_init ?s" by (rule enter) (simp_all add: barrier_init_def)
  moreover have "barrier_step pg_barrier_tag 2 ?s (?s\<lparr>pos := (pos ?s)(0 := Inside 0 (Suc 0))\<rparr>)" by (rule pass) simp_all
  moreover have "one_inside = ?s\<lparr>pos := (pos ?s)(0 := Inside 0 (Suc 0))\<rparr>" by (simp add: one_inside_def barrier_init_def)
  ultimately have "(barrier_step pg_barrier_tag 2)\<^sup>*\<^sup>* barrier_init one_inside" by (metis r_into_rtranclp rtranclp_trans)
  from barrier_separates [OF this, of 0 1] show ?thesis by simp
qed

text \<open>A rank inside a barrier that every rank has entered is never stuck.\<close>

lemma barrier_progress:
  assumes "rank < world" and "pos s rank = Inside n r" and "r \<le> world"
    and "\<forall>q < world. barrier_key (tags n) q \<in> keys s"
  shows "\<exists>s'. barrier_step tags world s s' \<and> pos s' rank \<noteq> pos s rank"
proof (cases "r = world")
  case True
  then have "barrier_step tags world s (s\<lparr>pos := (pos s)(rank := Outside (Suc n))\<rparr>)" using assms by (intro leave) auto
  then show ?thesis using assms(2) by (intro exI conjI) auto
next
  case False
  then have "barrier_step tags world s (s\<lparr>pos := (pos s)(rank := Inside n (Suc r))\<rparr>)" using assms by (intro pass) auto
  then show ?thesis using assms(2) by (intro exI conjI) auto
qed

text \<open>
  A tag is good for one barrier only: keys are never removed, so when a tag is used again, as the default argument of
  \<open>Rendezvous::barrier\<close> invites, a rank can return from the second barrier that the other rank has not entered.
\<close>

theorem barrier_tag_reuse:
  "\<exists>s. (barrier_step (\<lambda>_. ''mccl_barrier'') 2)\<^sup>*\<^sup>* barrier_init s \<and> left (pos s 0) = 2 \<and> entered (pos s 1) = 1"
proof -
  let ?k = "barrier_key ''mccl_barrier''"
  define st where "st ks p0 p1 = \<lparr>keys = ks, pos = (\<lambda>_. Outside 0)(0 := p0, 1 := p1)\<rparr>" for ks :: "string set" and p0 p1
  let ?step = "barrier_step (\<lambda>_. ''mccl_barrier'') 2"
  have enter0: "?step (st ks (Outside n) p1) (st (insert (?k 0) ks) (Inside n 0) p1)"
    and pass0: "r = 0 \<or> ?k r \<in> ks \<Longrightarrow> r < 2 \<Longrightarrow> ?step (st ks (Inside n r) p1) (st ks (Inside n (Suc r)) p1)"
    and leave0: "?step (st ks (Inside n 2) p1) (st ks (Outside (Suc n)) p1)"
    and enter1: "?step (st ks p0 (Outside n)) (st (insert (?k 1) ks) p0 (Inside n 0))" for ks n r p0 p1
    using enter [of 0 2 "st ks (Outside n) p1" n "\<lambda>_. ''mccl_barrier''"] pass [of 0 2 "st ks (Inside n r) p1" n r "\<lambda>_. ''mccl_barrier''"]
      leave [of 0 2 "st ks (Inside n 2) p1" n "\<lambda>_. ''mccl_barrier''"] enter [of 1 2 "st ks p0 (Outside n)" n "\<lambda>_. ''mccl_barrier''"]
    by (simp_all add: st_def fun_upd_twist)
  let ?ks = "{?k 0, ?k 1}"
  have k: "insert (?k 1) {?k 0} = ?ks" "insert (?k 0) ?ks = ?ks" by auto
  have "?step\<^sup>*\<^sup>* (st {} (Outside 0) (Outside 0)) (st ?ks (Inside 0 0) (Inside 0 0))"
    using enter0 [of "{}" 0 "Outside 0"] enter1 [of "{?k 0}" "Inside 0 0" 0] unfolding k by (meson r_into_rtranclp rtranclp_trans)
  moreover have round: "?step\<^sup>*\<^sup>* (st ?ks (Inside n 0) p1) (st ?ks (Outside (Suc n)) p1)" for n p1
  proof -
    have "?step (st ?ks (Inside n 0) p1) (st ?ks (Inside n 1) p1)" using pass0 [of 0 ?ks n p1] by simp
    moreover have "?step (st ?ks (Inside n 1) p1) (st ?ks (Inside n 2) p1)" using pass0 [of 1 ?ks n p1] by (simp add: numeral_2_eq_2)
    moreover have "?step (st ?ks (Inside n 2) p1) (st ?ks (Outside (Suc n)) p1)" by (rule leave0)
    ultimately show ?thesis by (meson r_into_rtranclp rtranclp_trans)
  qed
  moreover have "?step\<^sup>*\<^sup>* (st ?ks (Outside 1) (Inside 0 0)) (st ?ks (Inside 1 0) (Inside 0 0))"
    using enter0 [of ?ks 1 "Inside 0 0"] unfolding k by blast
  ultimately have "?step\<^sup>*\<^sup>* (st {} (Outside 0) (Outside 0)) (st ?ks (Outside (Suc 1)) (Inside 0 0))"
    using round [of 0 "Inside 0 0"] round [of 1 "Inside 0 0"] unfolding One_nat_def by (meson rtranclp_trans)
  moreover have "st {} (Outside 0) (Outside 0) = barrier_init" by (auto simp: st_def barrier_init_def)
  ultimately show ?thesis by (intro exI [of _ "st ?ks (Outside (Suc 1)) (Inside 0 0)"]) (simp add: st_def)
qed

text \<open>
  Endpoint exchange: when every wait succeeds and shows what the peer has set, all ranks return the same list, entry \<open>r\<close>
  of which is the endpoint of rank \<open>r\<close>; otherwise a rank fails with a timeout that names a rank whose key it did not see.
\<close>

theorem exchange_endpoints_agree:
  assumes "\<forall>r < world. r \<noteq> rank \<longrightarrow> (\<exists>msg. sees r = Inl msg) \<or> sees r = Inr (ep r)" and "rank < world"
  shows "exchange_endpoints rank world (ep rank) sees = Inr (map ep [0..<world]) \<or>
     (\<exists>r < world. \<exists>msg. r \<noteq> rank \<and> sees r = Inl msg \<and>
        exchange_endpoints rank world (ep rank) sees =
          Inl (TimeoutError (''Rank '' @ to_string rank @ '' timed out waiting for endpoint from rank '' @ to_string r @ '': '' @ msg)))"
proof -
  let ?g = "\<lambda>r. if r = rank then Inr (ep rank) else collect_endpoint rank sees r"
  have "map_res ?g xs = Inr (map ep xs) \<or>
     (\<exists>r < world. \<exists>msg. r \<noteq> rank \<and> sees r = Inl msg \<and>
        map_res ?g xs = Inl (TimeoutError (''Rank '' @ to_string rank @ '' timed out waiting for endpoint from rank '' @ to_string r @ '': '' @ msg)))"
    if "set xs \<subseteq> {..<world}" for xs
    using that
  proof (induction xs)
    case (Cons x xs)
    then have x: "x < world" "x = rank \<or> (\<exists>msg. sees x = Inl msg) \<or> sees x = Inr (ep x)" using assms(1) by auto
    show ?case
    proof (cases "\<exists>msg. x \<noteq> rank \<and> sees x = Inl msg")
      case True
      then obtain msg where "x \<noteq> rank" "sees x = Inl msg" by blast
      then show ?thesis using x(1) by (intro disjI2 exI [of _ x] exI [of _ msg]) (simp add: collect_endpoint_def)
    next
      case False
      then have "?g x = Inr (ep x)" using x(2) by (auto simp: collect_endpoint_def)
      then show ?thesis using Cons by auto
    qed
  qed simp
  from this [of "[0..<world]"] show ?thesis unfolding exchange_endpoints_def by fastforce
qed

theorem exchange_endpoints_agree_witness:
  "exchange_endpoints 1 3 ''b'' (\<lambda>r. Inr (if r = 0 then ''a'' else ''c'')) = Inr [''a'', ''b'', ''c''] \<or>
     (\<exists>r < 3. \<exists>msg. r \<noteq> 1 \<and> (Inr (if r = 0 then ''a'' else ''c'') :: string + string) = Inl msg \<and>
        exchange_endpoints 1 3 ''b'' (\<lambda>r. Inr (if r = 0 then ''a'' else ''c'')) =
          Inl (TimeoutError (''Rank '' @ to_string 1 @ '' timed out waiting for endpoint from rank '' @ to_string r @ '': '' @ msg)))"
  using exchange_endpoints_agree [of 3 1 "\<lambda>r. Inr (if r = 0 then ''a'' else ''c'')" "\<lambda>r. [''a'', ''b'', ''c''] ! r"]
  by (simp add: upt_rec less_Suc_eq numeral_3_eq_3)

end
