(* ===== verification/Registration.thy ===== *)
theory Registration
  imports Group_Construction Rendezvous
begin

text \<open>
  How the group is reached from PyTorch: the options and the factory of \<open>csrc/backend/Registration.cpp\<close> and \<open>csrc/backend/ProcessGroupMCCL.hpp\<close>, the sequence number of a
  group, its store keys, and the re-dispatch of c10d's operators from the MPS to the CPU key in \<open>csrc/backend/MPSFallback.cpp\<close>. PyTorch's dispatcher is an argument: \<open>pick\<close>
  chooses a key out of a key set.
\<close>

section \<open>Options and factory\<close>

record Options =
  timeout :: nat

definition default_options :: Options where
  "default_options = \<lparr>timeout = 30 * 60 * 1000\<rparr>"

text \<open>The factory that Python calls; the timeout argument, in milliseconds, has a default. The mesh's deadline is the timeout of the options.\<close>

definition create_process_group_mccl ::
    "mccl_error option \<Rightarrow> (nat \<Rightarrow> mesh_env) \<Rightarrow> int \<Rightarrow> int \<Rightarrow> nat option \<Rightarrow> (string \<times> string) list \<times> group_outcome" where
  "create_process_group_mccl kernels env rank world t =
     (let opts = default_options\<lparr>timeout := (case t of None \<Rightarrow> 30 * 60 * 1000 | Some ms \<Rightarrow> ms)\<rparr> in
      new_process_group kernels (env (timeout opts)) rank world)"

lemma factory_default:
  "create_process_group_mccl kernels env rank world None = new_process_group kernels (env (timeout default_options)) rank world"
  by (simp add: create_process_group_mccl_def default_options_def Let_def)

definition getBackendName :: string where
  "getBackendName = ''mccl''"

definition next_seq :: "u64 \<Rightarrow> u64 \<times> u64" where
  "next_seq seq = (seq, seq + 1)"

definition store_key :: "string \<Rightarrow> nat \<Rightarrow> nat \<Rightarrow> string" where
  "store_key op seq r = ''mccl/'' @ op @ ''/'' @ to_string seq @ ''/'' @ to_string r"

definition new_rendezvous :: "bool \<Rightarrow> mccl_error + unit" where
  "new_rendezvous has_store = (if has_store then Inr () else Inl (MCCLError ''Store must not be null''))"

text \<open>The numbers of successive calls are those of the model of the barrier, until the counter wraps.\<close>

lemma next_seq_counts: "n < 2 ^ 64 \<Longrightarrow> unat (fst (next_seq (((\<lambda>s. snd (next_seq s)) ^^ n) 0))) = n"
proof -
  have "((\<lambda>s. snd (next_seq s)) ^^ n) 0 = word_of_nat n"
    by (induction n) (simp_all add: next_seq_def)
  then show "n < 2 ^ 64 \<Longrightarrow> ?thesis" by (simp add: next_seq_def unsigned_of_nat take_bit_nat_eq_self)
qed

section \<open>Re-dispatch\<close>

datatype DispatchKey = CPU_key | MPS_key

text \<open>The operators registered for the MPS key.\<close>

definition mps_ops :: "string list" where
  "mps_ops = [''allreduce_'', ''broadcast_'', ''_allgather_base_'', ''allgather_'', ''_reduce_scatter_base_'', ''reduce_scatter_'',
     ''alltoall_base_'', ''alltoall_'', ''send'', ''recv_'', ''barrier'']"

text \<open>
  \<open>mps_native_redispatch_boxed\<close> calls the operator again with the key set that \<open>next_keys\<close> gives for the one it was called with: in the code, CPU alone. A call reaches c10d's
  shim for the CPU key, which calls the process group (\<^term>\<open>True\<close>), finds no kernel (\<^term>\<open>False\<close>), or never returns (\<^term>\<open>None\<close>).
\<close>

partial_function (option) call_op :: "(DispatchKey set \<Rightarrow> DispatchKey) \<Rightarrow> (DispatchKey set \<Rightarrow> DispatchKey set) \<Rightarrow> string \<Rightarrow> DispatchKey set \<Rightarrow> bool option" where
  "call_op pick next_keys opname ks =
     (case pick ks of
        CPU_key \<Rightarrow> Some True
      | MPS_key \<Rightarrow> if opname \<in> set mps_ops then call_op pick next_keys opname (next_keys ks) else Some False)"

definition mps_native_redispatch_boxed :: "DispatchKey set \<Rightarrow> DispatchKey set" where
  "mps_native_redispatch_boxed ks = {CPU_key}"

text \<open>
  A collective on MPS tensors reaches the process group: for every registered operator and whatever the key set of the call, the re-dispatch ends in the shim of the CPU
  key, given only that the dispatcher picks CPU when nothing else is in the set.
\<close>

theorem redispatch_reaches_group:
  assumes "pick {CPU_key} = CPU_key" and "opname \<in> set mps_ops"
  shows "call_op pick mps_native_redispatch_boxed opname ks = Some True"
  using assms by (cases "pick ks")
    (simp_all add: call_op.simps [of pick _ opname ks] call_op.simps [of pick _ opname "{CPU_key}"] mps_native_redispatch_boxed_def)

definition priority_pick :: "DispatchKey set \<Rightarrow> DispatchKey" where
  "priority_pick ks = (if MPS_key \<in> ks then MPS_key else CPU_key)"

theorem redispatch_reaches_group_witness:
  "call_op priority_pick mps_native_redispatch_boxed ''barrier'' {CPU_key, MPS_key} = Some True \<and> priority_pick {CPU_key, MPS_key} = MPS_key"
  using redispatch_reaches_group [of priority_pick "''barrier''" "{CPU_key, MPS_key}"] by (simp add: priority_pick_def mps_ops_def)

text \<open>The remark in the source: with the key set of the call instead, the operator would be dispatched to itself for ever.\<close>

lemma same_keys_loop:
  assumes "pick ks = MPS_key" and "opname \<in> set mps_ops"
  shows "call_op pick (\<lambda>ks. ks) opname ks = None"
proof -
  have "n = (\<lambda>ks. ks) \<longrightarrow> \<not> (p k = MPS_key \<and> oper \<in> set mps_ops)" if "call_op p n oper k = Some r" for p n oper k r
    using that by (rule call_op.raw_induct [rotated]) (auto split: DispatchKey.splits if_splits)
  then show ?thesis using assms by (cases "call_op pick (\<lambda>ks. ks) opname ks") auto
qed

end
