(* ===== verification/Agent.thy ===== *)
theory Agent
  imports Errors Wire
begin

text \<open>
  The agent's control connection: \<open>csrc/agent/Protocol.hpp\<close> and \<open>handle_connection\<close> of
  \<open>csrc/agent/Agent.cpp\<close>. The structures travel as their memory image, cut off at \<open>WIRE_SIZE\<close>; the layout is
  that of the platform ABI (fields aligned to their size). The client's bytes are one stream; when it
  ends, every further receive fails. The distributed memory manager and the GPU are reached through
  the outcomes of the calls, which are arguments. Answers are assumed to be delivered.
\<close>

section \<open>Commands and structures\<close>

datatype AgentCmd = PING | REGISTER | DEREGISTER | SHADER_LOAD | SHADER_RUN | SHADER_SYNC | STATS | SHUTDOWN

fun cmd_code :: "AgentCmd \<Rightarrow> u16" where
  "cmd_code PING = 0x0001"
| "cmd_code REGISTER = 0x0010"
| "cmd_code DEREGISTER = 0x0011"
| "cmd_code SHADER_LOAD = 0x0020"
| "cmd_code SHADER_RUN = 0x0021"
| "cmd_code SHADER_SYNC = 0x0022"
| "cmd_code STATS = 0x0030"
| "cmd_code SHUTDOWN = 0xFFFF"

datatype AgentStatus = OK | ERR_NOT_FOUND | ERR_MEMORY | ERR_METAL | ERR_RDMA | ERR_INTERNAL

fun status_code :: "AgentStatus \<Rightarrow> u16" where
  "status_code OK = 0x0000"
| "status_code ERR_NOT_FOUND = 0x0001"
| "status_code ERR_MEMORY = 0x0002"
| "status_code ERR_METAL = 0x0003"
| "status_code ERR_RDMA = 0x0004"
| "status_code ERR_INTERNAL = 0xFFFF"

record AgentHeader =
  hdr_cmd :: u16
  hdr_status :: u16
  payload_len :: u32

definition HEADER_WIRE_SIZE :: nat where "HEADER_WIRE_SIZE = 8"

definition header_bytes :: "AgentHeader \<Rightarrow> u8 list" where
  "header_bytes h = to_bytes 2 (hdr_cmd h) @ to_bytes 2 (hdr_status h) @ to_bytes 4 (payload_len h)"

definition read_header :: "u8 list \<Rightarrow> AgentHeader" where
  "read_header bs = \<lparr>hdr_cmd = of_bytes (slice 0 2 bs), hdr_status = of_bytes (slice 2 2 bs), payload_len = of_bytes (slice 4 4 bs)\<rparr>"

interpretation agent_header: wire_codec header_bytes read_header HEADER_WIRE_SIZE
  by unfold_locales (simp_all add: header_bytes_def read_header_def HEADER_WIRE_SIZE_def slice_def of_to_bytes)

text \<open>Fields at offsets 0, 8 and 16; the wire form ends after the flags.\<close>

record RegisterRequest =
  buffer_addr :: u64
  reg_length :: u64
  reg_flags :: u8

definition REGISTER_WIRE_SIZE :: nat where "REGISTER_WIRE_SIZE = 8 + 8 + 1"

definition register_bytes :: "RegisterRequest \<Rightarrow> u8 list" where
  "register_bytes r = to_bytes 8 (buffer_addr r) @ to_bytes 8 (reg_length r) @ to_bytes 1 (reg_flags r)"

definition read_register :: "u8 list \<Rightarrow> RegisterRequest" where
  "read_register bs = \<lparr>buffer_addr = of_bytes (slice 0 8 bs), reg_length = of_bytes (slice 8 8 bs), reg_flags = of_bytes (slice 16 1 bs)\<rparr>"

interpretation register_request: wire_codec register_bytes read_register REGISTER_WIRE_SIZE
  by unfold_locales (simp_all add: register_bytes_def read_register_def REGISTER_WIRE_SIZE_def slice_def of_to_bytes)

record RegisterResponse =
  rr_region_id :: u32
  rr_rkey :: u32

definition REGISTER_RESPONSE_WIRE_SIZE :: nat where "REGISTER_RESPONSE_WIRE_SIZE = 4 + 4"

definition register_response_bytes :: "RegisterResponse \<Rightarrow> u8 list" where
  "register_response_bytes r = to_bytes 4 (rr_region_id r) @ to_bytes 4 (rr_rkey r)"

definition read_register_response :: "u8 list \<Rightarrow> RegisterResponse" where
  "read_register_response bs = \<lparr>rr_region_id = of_bytes (slice 0 4 bs), rr_rkey = of_bytes (slice 4 4 bs)\<rparr>"

interpretation register_response: wire_codec register_response_bytes read_register_response REGISTER_RESPONSE_WIRE_SIZE
  by unfold_locales (simp_all add: register_response_bytes_def read_register_response_def REGISTER_RESPONSE_WIRE_SIZE_def slice_def of_to_bytes)

definition SHADER_RUN_WIRE_SIZE :: nat where "SHADER_RUN_WIRE_SIZE = 64 + 4 + 8 + 4 + 1"

text \<open>
  \<open>ShaderRunRequest\<close> in memory: the name at 0, the region at 64, the element count at 72, the scale at 80, the operation at
  84, 88 bytes in all. \<open>pad\<close> gives the contents of the padding (at 68 and at 85).
\<close>

record ShaderRunRequest =
  kernel_name :: "u8 list"
  sr_region_id :: u32
  element_count :: u64
  scale :: u32
  sr_op :: u8

definition SHADER_RUN_SIZEOF :: nat where "SHADER_RUN_SIZEOF = 88"

definition shader_run_image :: "u8 list \<Rightarrow> u8 list \<Rightarrow> ShaderRunRequest \<Rightarrow> u8 list" where
  "shader_run_image pad1 pad2 r =
     kernel_name r @ to_bytes 4 (sr_region_id r) @ pad1 @ to_bytes 8 (element_count r) @ to_bytes 4 (scale r) @ [sr_op r] @ pad2"

text \<open>
  \<open>StatsResponse\<close> in memory: four counters, the region count at 32, the free memory at 40, the temperature at 48 and the
  link state at 52; the wire form is the first 49 bytes.
\<close>

record StatsResponse =
  total_put_bytes :: u64
  total_get_bytes :: u64
  total_put_ops :: u64
  total_get_ops :: u64
  region_count :: u32
  free_memory :: u64
  gpu_temp_celsius :: u32
  link_state :: u8

definition STATS_WIRE_SIZE :: nat where "STATS_WIRE_SIZE = 8 + 8 + 8 + 8 + 4 + 8 + 4 + 1"

definition stats_image :: "u8 list \<Rightarrow> u8 list \<Rightarrow> StatsResponse \<Rightarrow> u8 list" where
  "stats_image pad1 pad2 s =
     to_bytes 8 (total_put_bytes s) @ to_bytes 8 (total_get_bytes s) @ to_bytes 8 (total_put_ops s) @ to_bytes 8 (total_get_ops s) @
     to_bytes 4 (region_count s) @ pad1 @ to_bytes 8 (free_memory s) @ to_bytes 4 (gpu_temp_celsius s) @ [link_state s] @ pad2"

section \<open>The connection handler\<close>

text \<open>
  What the handler's calls meet: the region number that registering and resolving returns (or an exception), whether unregistering and
  the GPU synchronisation return, the counters, and whether the memory manager was created at all.
\<close>

record agent_env =
  dmem_present :: bool
  register_outcome :: "u64 \<Rightarrow> u64 \<Rightarrow> u8 \<Rightarrow> u32 option"
  unregister_returns :: "u32 \<Rightarrow> bool"
  metal_sync_returns :: bool
  dm_stats :: "u64 \<times> u64 \<times> u64 \<times> u64"
  stats_pad :: "u8 list"

datatype agent_call = Register u64 u64 u8 | Unregister u32 | MetalSync | ReadStats

record agent =
  g_running :: bool
  sent_bytes :: "u8 list"
  agent_calls :: "agent_call list"

definition reply :: "u16 \<Rightarrow> AgentStatus \<Rightarrow> u32 \<Rightarrow> u8 list \<Rightarrow> agent \<Rightarrow> agent" where
  "reply cmd st len payload a =
     a\<lparr>sent_bytes := sent_bytes a @ header_bytes \<lparr>hdr_cmd = cmd, hdr_status = status_code st, payload_len = len\<rparr> @ payload\<rparr>"

definition note_call :: "agent_call \<Rightarrow> agent \<Rightarrow> agent" where
  "note_call c a = a\<lparr>agent_calls := agent_calls a @ [c]\<rparr>"

text \<open>\<open>recv_all\<close>: all the bytes, or failure at the end of the stream, which is then used up.\<close>

definition recv_all :: "nat \<Rightarrow> u8 list \<Rightarrow> (u8 list \<times> u8 list) option" where
  "recv_all n stream = (if length stream < n then None else Some (take n stream, drop n stream))"

definition handle_register :: "agent_env \<Rightarrow> u16 \<Rightarrow> u8 list \<Rightarrow> agent \<Rightarrow> failure + agent \<times> u8 list" where
  "handle_register env cmd stream a =
     (case recv_all REGISTER_WIRE_SIZE stream of
        None \<Rightarrow> Inr (reply cmd ERR_MEMORY 0 [] a, [])
      | Some (bs, rest) \<Rightarrow>
          let req = read_register bs in
          if buffer_addr req = 0 \<or> reg_length req = 0 then Inr (reply cmd ERR_MEMORY 0 [] a, rest)
          else if \<not> dmem_present env then Inl Undefined
          else let a1 = note_call (Register (buffer_addr req) (reg_length req) (reg_flags req)) a in
            case register_outcome env (buffer_addr req) (reg_length req) (reg_flags req) of
              None \<Rightarrow> Inr (reply cmd ERR_MEMORY 0 [] a1, rest)
            | Some rid \<Rightarrow> Inr (reply cmd OK (word_of_nat REGISTER_RESPONSE_WIRE_SIZE)
                             (register_response_bytes \<lparr>rr_region_id = rid, rr_rkey = 0\<rparr>) a1, rest))"

definition stats_reply :: "agent_env \<Rightarrow> StatsResponse" where
  "stats_reply env =
     (let (pb, gb, po, go) = dm_stats env in
      \<lparr>total_put_bytes = pb, total_get_bytes = gb, total_put_ops = po, total_get_ops = go,
       region_count = 0, free_memory = 0, gpu_temp_celsius = 0, link_state = 1\<rparr>)"

text \<open>One iteration of the loop: \<^term>\<open>None\<close> when no further header arrives.\<close>

definition handle_command :: "agent_env \<Rightarrow> u8 list \<Rightarrow> agent \<Rightarrow> (failure + agent \<times> u8 list) option" where
  "handle_command env stream a =
     (case recv_all HEADER_WIRE_SIZE stream of
        None \<Rightarrow> None
      | Some (hb, rest) \<Rightarrow>
          let cmd = hdr_cmd (read_header hb) in
          Some (if cmd = cmd_code PING then Inr (reply cmd OK 0 [] a, rest)
            else if cmd = cmd_code REGISTER then handle_register env cmd rest a
            else if cmd = cmd_code DEREGISTER then
              (case recv_all 4 rest of
                 None \<Rightarrow> Inr (a, [])
               | Some (bs, rest') \<Rightarrow>
                   if \<not> dmem_present env \<or> \<not> unregister_returns env (of_bytes bs) then Inl Undefined
                   else Inr (reply cmd OK 0 [] (note_call (Unregister (of_bytes bs)) a), rest'))
            else if cmd = cmd_code SHADER_RUN then
              (case recv_all SHADER_RUN_WIRE_SIZE rest of
                 None \<Rightarrow> Inr (reply cmd ERR_METAL 0 [] a, [])
               | Some (bs, rest') \<Rightarrow> Inr (reply cmd OK 0 [] a, rest'))
            else if cmd = cmd_code SHADER_SYNC then
              Inr (reply cmd (if metal_sync_returns env then OK else ERR_METAL) 0 [] (note_call MetalSync a), rest)
            else if cmd = cmd_code STATS then
              (if \<not> dmem_present env then Inl Undefined
               else Inr (reply cmd OK (word_of_nat STATS_WIRE_SIZE)
                      (take STATS_WIRE_SIZE (stats_image (stats_pad env) [] (stats_reply env))) (note_call ReadStats a), rest))
            else if cmd = cmd_code SHUTDOWN then Inr (reply cmd OK 0 [] (a\<lparr>g_running := False\<rparr>), rest)
            else Inr (reply cmd ERR_INTERNAL 0 [] a, rest)))"

lemma recv_all_length: "recv_all n s = Some (bs, rest) \<Longrightarrow> length bs = n \<and> length rest = length s - n \<and> n \<le> length s"
  by (auto simp: recv_all_def split: if_splits)

lemma handle_command_shorter:
  "handle_command env stream a = Some (Inr (a', rest)) \<Longrightarrow> length rest < length stream"
  by (auto simp: handle_command_def handle_register_def Let_def HEADER_WIRE_SIZE_def
      split: option.splits if_splits prod.splits dest!: recv_all_length)

text \<open>The whole loop. Every iteration takes at least a header off the stream, so it ends.\<close>

function handle_connection :: "agent_env \<Rightarrow> u8 list \<Rightarrow> agent \<Rightarrow> failure + agent" where
  "handle_connection env stream a =
     (if \<not> g_running a then Inr a
      else case handle_command env stream a of
        None \<Rightarrow> Inr a
      | Some (Inl f) \<Rightarrow> Inl f
      | Some (Inr (a', rest)) \<Rightarrow> handle_connection env rest a')"
  by pat_completeness auto
termination
  by (relation "measure (\<lambda>(env, stream, a). length stream)") (auto dest: handle_command_shorter)

declare handle_connection.simps [simp del]

section \<open>Serving a sequence of requests\<close>

text \<open>What a client may send, with the payload the handler expects, and what it is owed.\<close>

datatype request = RPing | RRegister RegisterRequest | RDeregister u32 | RShaderRun "u8 list" | RSync | RStats

fun request_cmd :: "request \<Rightarrow> u16" where
  "request_cmd RPing = cmd_code PING"
| "request_cmd (RRegister _) = cmd_code REGISTER"
| "request_cmd (RDeregister _) = cmd_code DEREGISTER"
| "request_cmd (RShaderRun _) = cmd_code SHADER_RUN"
| "request_cmd RSync = cmd_code SHADER_SYNC"
| "request_cmd RStats = cmd_code STATS"

fun request_payload :: "request \<Rightarrow> u8 list" where
  "request_payload (RRegister r) = register_bytes r"
| "request_payload (RDeregister rid) = to_bytes 4 rid"
| "request_payload (RShaderRun bs) = bs"
| "request_payload _ = []"

fun request_ok :: "agent_env \<Rightarrow> request \<Rightarrow> bool" where
  "request_ok env (RRegister _) = dmem_present env"
| "request_ok env (RDeregister rid) = (dmem_present env \<and> unregister_returns env rid)"
| "request_ok env (RShaderRun bs) = (length bs = SHADER_RUN_WIRE_SIZE)"
| "request_ok env RStats = dmem_present env"
| "request_ok env _ = True"

definition request_bytes :: "request \<Rightarrow> u8 list" where
  "request_bytes r =
     header_bytes \<lparr>hdr_cmd = request_cmd r, hdr_status = 0, payload_len = word_of_nat (length (request_payload r))\<rparr> @ request_payload r"

fun answer :: "agent_env \<Rightarrow> request \<Rightarrow> AgentStatus \<times> u8 list" where
  "answer env (RRegister r) =
     (if buffer_addr r = 0 \<or> reg_length r = 0 then (ERR_MEMORY, [])
      else case register_outcome env (buffer_addr r) (reg_length r) (reg_flags r) of
        None \<Rightarrow> (ERR_MEMORY, [])
      | Some rid \<Rightarrow> (OK, register_response_bytes \<lparr>rr_region_id = rid, rr_rkey = 0\<rparr>))"
| "answer env RSync = (if metal_sync_returns env then OK else ERR_METAL, [])"
| "answer env RStats = (OK, take STATS_WIRE_SIZE (stats_image (stats_pad env) [] (stats_reply env)))"
| "answer env _ = (OK, [])"

definition answer_bytes :: "agent_env \<Rightarrow> request \<Rightarrow> u8 list" where
  "answer_bytes env r =
     (let (st, payload) = answer env r in
      header_bytes \<lparr>hdr_cmd = request_cmd r, hdr_status = status_code st, payload_len = word_of_nat (length payload)\<rparr> @ payload)"

fun request_calls :: "request \<Rightarrow> agent_call list" where
  "request_calls (RRegister r) = (if buffer_addr r = 0 \<or> reg_length r = 0 then [] else [Register (buffer_addr r) (reg_length r) (reg_flags r)])"
| "request_calls (RDeregister rid) = [Unregister rid]"
| "request_calls RSync = [MetalSync]"
| "request_calls RStats = [ReadStats]"
| "request_calls _ = []"

lemma recv_all_append: "length xs = n \<Longrightarrow> recv_all n (xs @ ys) = Some (xs, ys)"
  by (simp add: recv_all_def)

lemma length_stats_image:
  "length pad1 = 4 \<Longrightarrow> min (length (stats_image pad1 [] s)) STATS_WIRE_SIZE = STATS_WIRE_SIZE"
  by (simp add: stats_image_def STATS_WIRE_SIZE_def)

lemma handle_command_request:
  assumes "request_ok env r" and "length (stats_pad env) = 4"
  shows "handle_command env (request_bytes r @ rest) a =
     Some (Inr (a\<lparr>sent_bytes := sent_bytes a @ answer_bytes env r, agent_calls := agent_calls a @ request_calls r\<rparr>, rest))"
proof -
  have h: "recv_all HEADER_WIRE_SIZE (header_bytes h @ xs) = Some (header_bytes h, xs)" for h xs
    by (simp add: recv_all_append agent_header.enc_length)
  note simps = handle_command_def handle_register_def request_bytes_def answer_bytes_def reply_def note_call_def Let_def
    h agent_header.dec_enc_exact recv_all_append register_request.enc_length register_request.dec_enc_exact
    register_response.enc_length of_to_bytes length_stats_image assms(2)
  show ?thesis using assms(1) by (cases r) (auto simp: simps split: option.split)
qed

definition agent_running :: agent where
  "agent_running = \<lparr>g_running = True, sent_bytes = [], agent_calls = []\<rparr>"

lemma handle_connection_command:
  assumes "g_running a"
  shows "handle_connection env [] a = Inr a"
    and "handle_command env stream a = Some (Inr (a', rest)) \<Longrightarrow> handle_connection env stream a = handle_connection env rest a'"
    and "handle_command env stream a = Some (Inl f) \<Longrightarrow> handle_connection env stream a = Inl f"
  using assms by (subst handle_connection.simps, simp add: handle_command_def recv_all_def HEADER_WIRE_SIZE_def)+

lemma handle_connection_requests:
  assumes "\<forall>r \<in> set rs. request_ok env r" and "length (stats_pad env) = 4" and "g_running a"
  shows "handle_connection env (concat (map request_bytes rs) @ rest) a =
     handle_connection env rest (a\<lparr>sent_bytes := sent_bytes a @ concat (map (answer_bytes env) rs),
       agent_calls := agent_calls a @ concat (map request_calls rs)\<rparr>)"
  using assms(1,3)
proof (induction rs arbitrary: a)
  case (Cons r rs)
  let ?a = "a\<lparr>sent_bytes := sent_bytes a @ answer_bytes env r, agent_calls := agent_calls a @ request_calls r\<rparr>"
  have "handle_connection env (request_bytes r @ concat (map request_bytes rs) @ rest) a =
     handle_connection env (concat (map request_bytes rs) @ rest) ?a"
    using Cons.prems assms(2) by (intro handle_connection_command(2) handle_command_request) auto
  then show ?case using Cons.IH [of ?a] Cons.prems by simp
qed simp

definition shutdown_request :: "u8 list" where
  "shutdown_request = header_bytes \<lparr>hdr_cmd = cmd_code SHUTDOWN, hdr_status = 0, payload_len = 0\<rparr>"

lemma handle_connection_shutdown:
  assumes "g_running a"
  shows "handle_connection env (shutdown_request @ rest) a = Inr (reply (cmd_code SHUTDOWN) OK 0 [] (a\<lparr>g_running := False\<rparr>))"
proof -
  have "handle_command env (shutdown_request @ rest) a = Some (Inr (reply (cmd_code SHUTDOWN) OK 0 [] (a\<lparr>g_running := False\<rparr>), rest))"
    by (simp add: shutdown_request_def handle_command_def recv_all_append agent_header.enc_length agent_header.dec_enc_exact)
  moreover have "handle_connection env rest (reply c st l p (a\<lparr>g_running := False\<rparr>)) = Inr (reply c st l p (a\<lparr>g_running := False\<rparr>))" for c st l p
    by (subst handle_connection.simps) (simp add: reply_def)
  ultimately show ?thesis using handle_connection_command(2) [OF assms] by metis
qed


definition example_env :: agent_env where
  "example_env = \<lparr>dmem_present = True, register_outcome = (\<lambda>_ _ _. Some 7), unregister_returns = (\<lambda>_. True),
     metal_sync_returns = False, dm_stats = (1, 2, 3, 4), stats_pad = [0, 0, 0, 0]\<rparr>"

definition example_register :: RegisterRequest where
  "example_register = \<lparr>buffer_addr = 4096, reg_length = 64, reg_flags = 3\<rparr>"


text \<open>
  The payload length of a request is never used: a command that the switch does not handle, \<open>SHADER_LOAD\<close> among them, is
  answered with \<open>ERR_INTERNAL\<close> and its payload is then read as the next commands.
\<close>

theorem unhandled_payload_executed:
  assumes "cmd \<notin> cmd_code ` (UNIV - {SHADER_LOAD})" and "g_running a"
  shows "handle_connection env (header_bytes \<lparr>hdr_cmd = cmd, hdr_status = st, payload_len = n\<rparr> @ payload @ rest) a =
     handle_connection env (payload @ rest) (reply cmd ERR_INTERNAL 0 [] a)"
proof -
  have "cmd \<noteq> cmd_code c" if "c \<noteq> SHADER_LOAD" for c using assms(1) that by blast
  from this [of PING] this [of REGISTER] this [of DEREGISTER] this [of SHADER_RUN] this [of SHADER_SYNC] this [of STATS] this [of SHUTDOWN]
  have "handle_command env (header_bytes \<lparr>hdr_cmd = cmd, hdr_status = st, payload_len = n\<rparr> @ xs) a =
      Some (Inr (reply cmd ERR_INTERNAL 0 [] a, xs))" for xs
    by (simp add: handle_command_def recv_all_append agent_header.enc_length agent_header.dec_enc_exact)
  then show ?thesis using handle_connection_command(2) [OF assms(2)] by blast
qed

theorem unhandled_payload_executed_witness:
  "handle_connection example_env (header_bytes \<lparr>hdr_cmd = cmd_code SHADER_LOAD, hdr_status = 0, payload_len = 8\<rparr> @ shutdown_request) agent_running =
     Inr \<lparr>g_running = False, sent_bytes = header_bytes \<lparr>hdr_cmd = 32, hdr_status = 0xFFFF, payload_len = 0\<rparr> @ shutdown_request, agent_calls = []\<rparr>"
proof -
  have "cmd_code SHADER_LOAD \<notin> cmd_code ` (UNIV - {SHADER_LOAD})"
  proof
    assume "cmd_code SHADER_LOAD \<in> cmd_code ` (UNIV - {SHADER_LOAD})"
    then obtain c where "c \<noteq> SHADER_LOAD" "cmd_code c = 0x0020" by force
    then show False by (cases c) auto
  qed
  from unhandled_payload_executed [OF this, of agent_running example_env 0 8 shutdown_request "[]"] handle_connection_shutdown [of "reply 32 ERR_INTERNAL 0 [] agent_running" example_env "[]"]
  show ?thesis by (simp add: agent_running_def reply_def shutdown_request_def)
qed

text \<open>A client that copies the payload into a zeroed \<open>StatsResponse\<close>, as the wire size invites.\<close>

definition read_stats :: "u8 list \<Rightarrow> StatsResponse" where
  "read_stats bs =
     (let m = bs @ replicate (56 - length bs) 0 in
      \<lparr>total_put_bytes = of_bytes (slice 0 8 m), total_get_bytes = of_bytes (slice 8 8 m),
       total_put_ops = of_bytes (slice 16 8 m), total_get_ops = of_bytes (slice 24 8 m),
       region_count = of_bytes (slice 32 4 m), free_memory = of_bytes (slice 40 8 m),
       gpu_temp_celsius = of_bytes (slice 48 4 m), link_state = m ! 52\<rparr>)"

text \<open>
  The statistics arrive except for the link state: the wire size counts the fields but the bytes sent are the structure's
  memory, padding included, so the last field is cut off and reads as 0 (down) although the agent sets it to 1 (up).
\<close>

theorem stats_lose_link_state:
  assumes "length (stats_pad env) = 4"
  shows "read_stats (take STATS_WIRE_SIZE (stats_image (stats_pad env) [] (stats_reply env))) = (stats_reply env)\<lparr>link_state := 0\<rparr> \<and>
     link_state (stats_reply env) = 1"
proof -
  obtain pb gb po go where "dm_stats env = (pb, gb, po, go)" by (metis prod_cases4)
  with assms show ?thesis
    by (simp add: read_stats_def stats_image_def stats_reply_def STATS_WIRE_SIZE_def slice_def of_to_bytes Let_def nth_append flip: replicate_add)
qed

theorem stats_lose_link_state_witness:
  "link_state (read_stats (take STATS_WIRE_SIZE (stats_image [0, 0, 0, 0] [] (stats_reply example_env)))) = 0 \<and> link_state (stats_reply example_env) = 1"
  using stats_lose_link_state [of example_env] by (simp add: example_env_def)

end
