(* ===== verification/Global_Address.thy ===== *)
theory Global_Address
  imports Wire
begin

text \<open>
  Cluster-wide addresses and region descriptors: \<open>csrc/dmem/GlobalAddress.hpp\<close>.
\<close>

record GlobalAddress =
  ga_node_id :: u16
  ga_region_id :: u32
  ga_offset :: u64

definition GA_WIRE_SIZE :: nat where
  "GA_WIRE_SIZE = 2 + 4 + 8"

definition ga_serialize :: "GlobalAddress \<Rightarrow> u8 list" where
  "ga_serialize ga =
     to_bytes 2 (ga_node_id ga) @ to_bytes 4 (ga_region_id ga) @ to_bytes 8 (ga_offset ga)"

definition ga_deserialize :: "u8 list \<Rightarrow> GlobalAddress" where
  "ga_deserialize buf =
     \<lparr>ga_node_id = of_bytes (slice 0 2 buf),
      ga_region_id = of_bytes (slice 2 4 buf),
      ga_offset = of_bytes (slice 6 8 buf)\<rparr>"

definition pack :: "GlobalAddress \<Rightarrow> u64" where
  "pack ga = push_bit 48 (ucast (ga_node_id ga)) OR push_bit 16 (ucast (ga_region_id ga))"

record MemoryRegion =
  mr_gaddr :: GlobalAddress
  mr_local_addr :: u64
  mr_length :: u64
  mr_rkey :: u32
  mr_lkey :: u32
  mr_flags :: u8

definition READABLE :: u8 where "READABLE = 1"
definition WRITABLE :: u8 where "WRITABLE = 2"
definition SHARED_FLAG :: u8 where "SHARED_FLAG = 4"
definition PRIVATE :: u8 where "PRIVATE = 8"

definition is_remote_readable :: "MemoryRegion \<Rightarrow> bool" where
  "is_remote_readable r \<longleftrightarrow> mr_flags r AND READABLE \<noteq> 0"

definition is_remote_writable :: "MemoryRegion \<Rightarrow> bool" where
  "is_remote_writable r \<longleftrightarrow> mr_flags r AND WRITABLE \<noteq> 0"

text \<open>The value-initialised region that fills unused slots of the region table.\<close>

definition null_region :: MemoryRegion where
  "null_region =
     \<lparr>mr_gaddr = \<lparr>ga_node_id = 0, ga_region_id = 0, ga_offset = 0\<rparr>,
      mr_local_addr = 0, mr_length = 0, mr_rkey = 0, mr_lkey = 0, mr_flags = 0\<rparr>"

record AddrResolution =
  is_local :: bool
  local_ptr :: u64
  remote_addr :: u64
  remote_rkey :: u32
  local_lkey :: u32
  res_length :: u64

definition no_resolution :: AddrResolution where
  "no_resolution =
     \<lparr>is_local = False, local_ptr = 0, remote_addr = 0, remote_rkey = 0, local_lkey = 0, res_length = 0\<rparr>"

section \<open>Wire format\<close>

interpretation ga: wire_codec ga_serialize ga_deserialize GA_WIRE_SIZE
  by unfold_locales
    (simp_all add: ga_serialize_def ga_deserialize_def GA_WIRE_SIZE_def slice_def of_to_bytes)

text \<open>
  A global address survives serialisation: the 14 bytes written by \<open>serialize\<close> are read back
  by \<open>deserialize\<close> as the same address, whatever follows them in the buffer, and two addresses
  with the same bytes are equal.
\<close>

theorem ga_roundtrip:
  "length (ga_serialize a) = 14 \<and> ga_deserialize (ga_serialize a @ rest) = a \<and>
   (ga_serialize a = ga_serialize b \<longleftrightarrow> a = b)"
  using ga.enc_length [of a] ga.dec_enc [of a rest] ga.enc_inject [of a b]
  by (simp add: GA_WIRE_SIZE_def)

section \<open>The packed key\<close>

text \<open>The two fields of a packed key occupy disjoint bit ranges, so each can be read back.\<close>

lemma packed_node:
  "(ucast (drop_bit 48 (push_bit 48 (ucast (n :: u16)) OR push_bit 16 (ucast (r :: u32)) :: u64)) :: u16) = n"
  by (rule bit_word_eqI) (auto simp: bit_simps dest: bit_imp_le_length)

lemma packed_region:
  "(ucast (drop_bit 16 (push_bit 48 (ucast (n :: u16)) OR push_bit 16 (ucast (r :: u32)) :: u64) AND 0xFFFFFFFF) :: u32) = r"
  by (rule bit_word_eqI) (auto simp: mask32_u64 bit_simps dest: bit_imp_le_length)

lemma packed_inject:
  "(push_bit 48 (ucast (n :: u16)) OR push_bit 16 (ucast (r :: u32)) :: u64) =
   push_bit 48 (ucast n') OR push_bit 16 (ucast r') \<longleftrightarrow> n = n' \<and> r = r'"
  by (metis packed_node packed_region)

text \<open>
  The packed key identifies the node and the region and nothing else: two addresses have the
  same key exactly when node and region agree, so all offsets, hence all 64 KB pages, of one
  region share one key.
\<close>

theorem pack_eq_iff:
  "pack a = pack b \<longleftrightarrow> ga_node_id a = ga_node_id b \<and> ga_region_id a = ga_region_id b"
  by (simp add: pack_def packed_inject)

end
