(* ===== verification/Memory_Catalog.thy ===== *)
theory Memory_Catalog
  imports Global_Address
begin

text \<open>
  The replicated region directory: \<open>csrc/dmem/MemoryCatalog.hpp\<close> and \<open>MemoryCatalog.cpp\<close>. The hash
  table is a mapping; loops that visit it take the visiting order as an argument (any enumeration
  of the table, \<^term>\<open>enumerates\<close>), since the order of an \<open>unordered_map\<close> is not specified. Every
  public method holds the catalog mutex for its whole body, so each is one atomic operation.
\<close>

section \<open>Entries\<close>

record RegionDirectoryEntry =
  rde_local_addr :: u64
  rde_length :: u64
  rde_rkey :: u32
  rde_flags :: u32
  rde_epoch :: u64

definition RDE_WIRE_SIZE :: nat where
  "RDE_WIRE_SIZE = 8 + 8 + 4 + 4 + 8"

definition rde_serialize :: "RegionDirectoryEntry \<Rightarrow> u8 list" where
  "rde_serialize e =
     to_bytes 8 (rde_local_addr e) @ to_bytes 8 (rde_length e) @ to_bytes 4 (rde_rkey e) @
     to_bytes 4 (rde_flags e) @ to_bytes 8 (rde_epoch e)"

definition rde_deserialize :: "u8 list \<Rightarrow> RegionDirectoryEntry" where
  "rde_deserialize buf =
     \<lparr>rde_local_addr = of_bytes (slice 0 8 buf),
      rde_length = of_bytes (slice 8 8 buf),
      rde_rkey = of_bytes (slice 16 4 buf),
      rde_flags = of_bytes (slice 20 4 buf),
      rde_epoch = of_bytes (slice 24 8 buf)\<rparr>"

interpretation rde: wire_codec rde_serialize rde_deserialize RDE_WIRE_SIZE
  by unfold_locales
    (simp_all add: rde_serialize_def rde_deserialize_def RDE_WIRE_SIZE_def slice_def of_to_bytes)

section \<open>The catalog and its operations\<close>

record MemoryCatalog =
  cat_entries :: "(u64, RegionDirectoryEntry) mapping"
  cat_version :: u64

definition MAX_REGIONS_PER_NODE :: nat where "MAX_REGIONS_PER_NODE = 256"

definition CATALOG_BUF_SIZE :: nat where
  "CATALOG_BUF_SIZE = MAX_REGIONS_PER_NODE * RDE_WIRE_SIZE"

definition empty_catalog :: MemoryCatalog where
  "empty_catalog = \<lparr>cat_entries = Mapping.empty, cat_version = 0\<rparr>"

definition catalog_key :: "u16 \<Rightarrow> u32 \<Rightarrow> u64" where
  "catalog_key node_id region_id = push_bit 48 (ucast node_id) OR push_bit 16 (ucast region_id)"

definition upsert :: "u32 \<Rightarrow> RegionDirectoryEntry \<Rightarrow> MemoryCatalog \<Rightarrow> MemoryCatalog" where
  "upsert region_id entry c =
     c\<lparr>cat_entries := Mapping.update (catalog_key 0 region_id) entry (cat_entries c),
       cat_version := cat_version c + 1\<rparr>"

definition catalog_remove :: "u32 \<Rightarrow> MemoryCatalog \<Rightarrow> MemoryCatalog" where
  "catalog_remove region_id c =
     c\<lparr>cat_entries := Mapping.delete (catalog_key 0 region_id) (cat_entries c),
       cat_version := cat_version c + 1\<rparr>"

definition remove_node :: "u16 \<Rightarrow> MemoryCatalog \<Rightarrow> MemoryCatalog" where
  "remove_node node_id c =
     (let prefix = catalog_key node_id 0 AND 0xFFFFFFFFFFFF0000 in
      c\<lparr>cat_entries := Mapping.filter (\<lambda>k _. k AND 0xFFFFFFFFFFFF0000 \<noteq> prefix) (cat_entries c),
        cat_version := cat_version c + 1\<rparr>)"

definition catalog_lookup :: "MemoryCatalog \<Rightarrow> u16 \<Rightarrow> u32 \<Rightarrow> RegionDirectoryEntry option" where
  "catalog_lookup c node_id region_id = Mapping.lookup (cat_entries c) (catalog_key node_id region_id)"

definition deserialize_from :: "u8 list \<Rightarrow> nat \<Rightarrow> u16 \<Rightarrow> MemoryCatalog \<Rightarrow> MemoryCatalog" where
  "deserialize_from buf len source_node c =
     (let count = len div RDE_WIRE_SIZE in
      c\<lparr>cat_entries :=
          fold (\<lambda>i. Mapping.update (catalog_key source_node (word_of_nat i))
                      (rde_deserialize (drop (i * RDE_WIRE_SIZE) buf))) [0..<count] (cat_entries c),
        cat_version := cat_version c + 1\<rparr>)"

fun serialize_loop :: "(u64 \<times> RegionDirectoryEntry) list \<Rightarrow> nat \<Rightarrow> u8 list \<Rightarrow> nat \<Rightarrow> u8 list \<times> nat" where
  "serialize_loop [] max_len buf written = (buf, written)"
| "serialize_loop ((key, entry) # es) max_len buf written =
     (if (ucast (drop_bit 48 key) :: u16) \<noteq> 0 then serialize_loop es max_len buf written
      else let region_id = unat (ucast (drop_bit 16 key AND 0xFFFFFFFF) :: u32) in
        if MAX_REGIONS_PER_NODE \<le> region_id then serialize_loop es max_len buf written
        else let offset = region_id * RDE_WIRE_SIZE in
          if offset + RDE_WIRE_SIZE > max_len then (buf, written)
          else serialize_loop es max_len (overwrite buf offset (rde_serialize entry))
                 (max written (offset + RDE_WIRE_SIZE)))"

text \<open>\<open>es\<close> is the order in which the loop visits \<^term>\<open>cat_entries c\<close>.\<close>

definition serialize_into :: "(u64 \<times> RegionDirectoryEntry) list \<Rightarrow> u8 list \<Rightarrow> nat \<Rightarrow> u8 list \<times> nat" where
  "serialize_into es buf max_len = serialize_loop es max_len buf 0"

definition local_entry_count :: "MemoryCatalog \<Rightarrow> nat" where
  "local_entry_count c =
     Mapping.size (Mapping.filter (\<lambda>k _. (ucast (drop_bit 48 k) :: u16) = 0) (cat_entries c))"

section \<open>Keys\<close>

lemma catalog_key_inject [simp]:
  "catalog_key n r = catalog_key n' r' \<longleftrightarrow> n = n' \<and> r = r'"
  by (simp add: catalog_key_def packed_inject)

lemma catalog_key_node [simp]: "(ucast (drop_bit 48 (catalog_key n r)) :: u16) = n"
  by (simp only: catalog_key_def packed_node)

lemma catalog_key_region [simp]: "(ucast (drop_bit 16 (catalog_key n r) AND 0xFFFFFFFF) :: u32) = r"
  by (simp only: catalog_key_def packed_region)

text \<open>The mask of \<open>remove_node\<close> clears only the low 16 bits, which are zero in every key.\<close>

lemma catalog_key_mask: "catalog_key n r AND 0xFFFFFFFFFFFF0000 = catalog_key n r"
  by (rule bit_word_eqI) (auto simp: catalog_key_def mask_high48_u64 bit_simps)

lemma pack_catalog_key: "pack a = catalog_key (ga_node_id a) (ga_region_id a)"
  by (simp add: pack_def catalog_key_def)

section \<open>Table laws\<close>

text \<open>A well-formed catalog holds only keys built by \<^term>\<open>catalog_key\<close>, and finitely many.\<close>

definition catalog_ok :: "MemoryCatalog \<Rightarrow> bool" where
  "catalog_ok c \<longleftrightarrow> finite (Mapping.keys (cat_entries c)) \<and>
     (\<forall>k \<in> Mapping.keys (cat_entries c). k = catalog_key (ucast (drop_bit 48 k)) (ucast (drop_bit 16 k AND 0xFFFFFFFF)))"

interpretation cat_table: kv_table "\<lambda>c r. catalog_lookup c 0 r" upsert catalog_remove
  by unfold_locales
    (auto simp: catalog_lookup_def upsert_def catalog_remove_def mapping.look_put mapping.look_del)

lemma lookup_upsert:
  "catalog_lookup (upsert r e c) n r' = (if n = 0 \<and> r' = r then Some e else catalog_lookup c n r')"
  by (auto simp: catalog_lookup_def upsert_def mapping.look_put)

lemma lookup_catalog_remove:
  "catalog_lookup (catalog_remove r c) n r' = (if n = 0 \<and> r' = r then None else catalog_lookup c n r')"
  by (auto simp: catalog_lookup_def catalog_remove_def mapping.look_del)

lemma lookup_deserialize_from:
  assumes "len div RDE_WIRE_SIZE \<le> 2 ^ 32"
  shows "catalog_lookup (deserialize_from buf len s c) n r =
     (if n = s \<and> unat r < len div RDE_WIRE_SIZE
      then Some (rde_deserialize (drop (unat r * RDE_WIRE_SIZE) buf)) else catalog_lookup c n r)"
proof -
  let ?cnt = "len div RDE_WIRE_SIZE"
  let ?key = "\<lambda>i. catalog_key s (word_of_nat i)"
  have nat_u32: "unat (word_of_nat i :: u32) = i" if "i < ?cnt" for i
    using that assms by (simp add: unsigned_of_nat take_bit_eq_mod)
  have inj: "inj_on ?key {0..<?cnt}"
    by (rule inj_onI) (metis atLeastLessThan_iff catalog_key_inject nat_u32)
  have mem: "catalog_key n r \<in> ?key ` {0..<?cnt} \<longleftrightarrow> n = s \<and> unat r < ?cnt"
    by (auto simp: nat_u32 image_iff intro!: bexI [of _ "unat r"])
  have inv: "the_inv_into {0..<?cnt} ?key (catalog_key s r) = unat r" if "unat r < ?cnt"
    using the_inv_into_f_f [OF inj, of "unat r"] that by simp
  show ?thesis
    using mapping.look_puts_indexed [of ?key "[0..<?cnt]" "\<lambda>i. rde_deserialize (drop (i * RDE_WIRE_SIZE) buf)"
        "cat_entries c" "catalog_key n r"] inj mem inv
    by (auto simp: catalog_lookup_def deserialize_from_def Let_def)
qed

lemma lookup_remove_node:
  "catalog_lookup (remove_node node c) n r =
     (if n = node \<and> r = 0 then None else catalog_lookup c n r)"
proof -
  have "catalog_key n r AND 0xFFFFFFFFFFFF0000 = catalog_key node 0 AND 0xFFFFFFFFFFFF0000
          \<longleftrightarrow> n = node \<and> r = 0"
    by (simp only: catalog_key_mask catalog_key_inject)
  then show ?thesis
    by (auto simp: catalog_lookup_def remove_node_def Let_def lookup_filter split: option.split)
qed

lemma catalog_ok_empty: "catalog_ok empty_catalog"
  by (simp add: catalog_ok_def empty_catalog_def)

lemma keys_fold_update:
  "Mapping.keys (fold (\<lambda>i. Mapping.update (key i) (val i)) is m) = Mapping.keys m \<union> key ` set is"
  by (induction "is" arbitrary: m) auto

lemma catalog_ok_ops:
  assumes "catalog_ok c"
  shows "catalog_ok (upsert r e c)" "catalog_ok (catalog_remove r c)" "catalog_ok (remove_node n c)"
    "catalog_ok (deserialize_from buf len s c)"
  using assms
  by (auto simp: catalog_ok_def upsert_def catalog_remove_def remove_node_def deserialize_from_def
      Let_def keys_fold_update simp del: upt_Suc dest: keys_filter [THEN subsetD]
      intro: finite_subset [OF keys_filter])

section \<open>Publishing a catalog to a peer\<close>

lemma serialize_loop_length:
  assumes "length buf = CATALOG_BUF_SIZE" and "max_len \<le> CATALOG_BUF_SIZE"
  shows "length (fst (serialize_loop es max_len buf w)) = CATALOG_BUF_SIZE"
  using assms
proof (induction es max_len buf w rule: serialize_loop.induct)
  case (2 key entry es max_len buf written)
  then show ?case
    by (auto simp: Let_def rde.length_overwrite_enc not_less)
qed simp

definition key_ok :: "u64 \<Rightarrow> bool" where
  "key_ok k \<longleftrightarrow> k = catalog_key (ucast (drop_bit 48 k)) (ucast (drop_bit 16 k AND 0xFFFFFFFF))"

lemma key_okE: "key_ok k \<Longrightarrow> (\<And>n r. k = catalog_key n r \<Longrightarrow> P) \<Longrightarrow> P"
  unfolding key_ok_def by blast

text \<open>One iteration, with the key split into its node and region.\<close>

lemma serialize_loop_Cons:
  "serialize_loop ((catalog_key n q, e) # es) CATALOG_BUF_SIZE buf w =
     (if n = 0 \<and> unat q < 256
      then serialize_loop es CATALOG_BUF_SIZE (overwrite buf (unat q * 32) (rde_serialize e))
             (max w (unat q * 32 + 32))
      else serialize_loop es CATALOG_BUF_SIZE buf w)"
  by (simp add: Let_def MAX_REGIONS_PER_NODE_def CATALOG_BUF_SIZE_def RDE_WIRE_SIZE_def)

declare serialize_loop.simps(2) [simp del]

lemma slot_overwrite:
  assumes "length buf = CATALOG_BUF_SIZE" and "i < 256" and "r < 256"
  shows "slice (r * 32) 32 (overwrite buf (i * 32) (rde_serialize e)) =
     (if r = i then rde_serialize e else slice (r * 32) 32 buf)"
proof -
  have len: "length (rde_serialize e) = 32" using rde.enc_length by (simp add: RDE_WIRE_SIZE_def)
  have "length buf = 8192" using assms(1) by (simp add: CATALOG_BUF_SIZE_def MAX_REGIONS_PER_NODE_def RDE_WIRE_SIZE_def)
  with assms(2,3) len show ?thesis
    using slice_overwrite_same [of "i * 32" "rde_serialize e" buf]
      slice_overwrite_disjoint [of "i * 32" "rde_serialize e" buf "r * 32" 32]
    by (cases "r < i") auto
qed

lemma serialize_loop_slot:
  assumes "distinct (map fst es)" and "\<forall>k \<in> fst ` set es. key_ok k"
    and "length buf = CATALOG_BUF_SIZE" and "unat r < 256"
  shows "slice (unat r * 32) 32 (fst (serialize_loop es CATALOG_BUF_SIZE buf w)) =
     (case map_of es (catalog_key 0 r) of Some e \<Rightarrow> rde_serialize e
      | None \<Rightarrow> slice (unat r * 32) 32 buf)"
  using assms
proof (induction es arbitrary: buf w)
  case (Cons kv es)
  obtain k e where kv: "kv = (k, e)" by (cases kv)
  from Cons.prems(2) kv have "key_ok k" by simp
  then obtain n q where k: "k = catalog_key n q" by (rule key_okE)
  have fresh: "map_of es k = None"
    using Cons.prems(1) kv by (auto simp: map_of_eq_None_iff)
  note IH = Cons.IH [OF _ _ _ Cons.prems(4)]
  show ?case
  proof (cases "n = 0 \<and> unat q < 256")
    case True
    have "length (overwrite buf (unat q * 32) (rde_serialize e)) = CATALOG_BUF_SIZE"
      using True Cons.prems(3) rde.length_overwrite_enc [of "unat q * 32" buf e]
      by (simp add: CATALOG_BUF_SIZE_def MAX_REGIONS_PER_NODE_def RDE_WIRE_SIZE_def)
    then show ?thesis
      using Cons.prems True fresh slot_overwrite [OF Cons.prems(3), of "unat q" "unat r" e]
      by (auto simp: kv k serialize_loop_Cons IH word_unat_eq_iff [symmetric] split: option.split)
  next
    case False
    with Cons.prems show ?thesis by (auto simp: kv k serialize_loop_Cons IH)
  qed
qed simp

lemma serialize_loop_written:
  assumes "\<forall>k \<in> fst ` set es. key_ok k" and "w \<le> CATALOG_BUF_SIZE" and "32 dvd w"
    and "w' = snd (serialize_loop es CATALOG_BUF_SIZE buf w)"
  shows "w \<le> w' \<and> w' \<le> CATALOG_BUF_SIZE \<and> 32 dvd w' \<and>
     (\<forall>r. catalog_key 0 r \<in> fst ` set es \<longrightarrow> unat r < 256 \<longrightarrow> unat r * 32 + 32 \<le> w')"
  using assms(1-3) unfolding assms(4)
proof (induction es arbitrary: buf w)
  case (Cons kv es)
  obtain k e where kv: "kv = (k, e)" by (cases kv)
  from Cons.prems(1) kv have "key_ok k" by simp
  then obtain n q where k: "k = catalog_key n q" by (rule key_okE)
  show ?case
  proof (cases "n = 0 \<and> unat q < 256")
    case True
    let ?w = "max w (unat q * 32 + 32)"
    have "?w \<le> CATALOG_BUF_SIZE" "32 dvd ?w"
      using True Cons.prems(2,3)
      by (auto simp: CATALOG_BUF_SIZE_def MAX_REGIONS_PER_NODE_def RDE_WIRE_SIZE_def max_def)
    then show ?thesis
      using True Cons.prems(1) Cons.IH [of ?w "overwrite buf (unat q * 32) (rde_serialize e)"]
      by (auto simp: kv k serialize_loop_Cons)
  next
    case False
    with Cons.prems Cons.IH [of w buf] show ?thesis by (auto simp: kv k serialize_loop_Cons)
  qed
qed simp

text \<open>The entry that a peer reads from a slot nobody wrote.\<close>

definition zero_entry :: RegionDirectoryEntry where
  "zero_entry = \<lparr>rde_local_addr = 0, rde_length = 0, rde_rkey = 0, rde_flags = 0, rde_epoch = 0\<rparr>"

lemma nat_of_bytes_zeros [simp]: "nat_of_bytes (replicate n 0) = 0"
  by (induction n) auto

lemma rde_deserialize_zeros: "32 \<le> length buf \<Longrightarrow> take 32 buf = replicate 32 0 \<Longrightarrow> rde_deserialize buf = zero_entry"
proof -
  assume len: "32 \<le> length buf" and z: "take 32 buf = replicate 32 0"
  have "slice off n buf = replicate n 0" if "off + n \<le> 32" for off n
  proof -
    have "slice off n buf = take n (drop off (take 32 buf))"
      using that by (simp add: slice_def drop_take min_def)
    then show ?thesis using that z by simp
  qed
  then show ?thesis by (simp add: rde_deserialize_def zero_entry_def of_bytes_def)
qed

lemma rde_deserialize_slot:
  assumes "slice off 32 buf = rde_serialize e" and "off + 32 \<le> length buf"
  shows "rde_deserialize (drop off buf) = e"
proof -
  have "drop off buf = rde_serialize e @ drop 32 (drop off buf)"
    using assms by (metis append_take_drop_id slice_def)
  then show ?thesis using rde.dec_enc by metis
qed

text \<open>
  C31. Publishing the catalog works: the local table serialised into a zeroed catalog buffer, in
  whatever order the hash table is visited, and deserialised by a peer, gives that peer under the
  publisher's node id every local region with an id below 256; slots without a region read as the
  all-zero entry, slots beyond the written part and the entries of other nodes are untouched.
\<close>

theorem catalog_publish:
  assumes ok: "catalog_ok c" and it: "enumerates es (cat_entries c)"
    and ser: "serialize_into es (replicate CATALOG_BUF_SIZE 0) CATALOG_BUF_SIZE = (buf, written)"
  shows "catalog_lookup (deserialize_from buf written s c') n r =
     (if n = s \<and> unat r * 32 + 32 \<le> written
      then Some (case catalog_lookup c 0 r of Some e \<Rightarrow> e | None \<Rightarrow> zero_entry)
      else catalog_lookup c' n r) \<and>
   (catalog_lookup c 0 r \<noteq> None \<longrightarrow> unat r < 256 \<longrightarrow> unat r * 32 + 32 \<le> written)"
proof -
  let ?z = "replicate CATALOG_BUF_SIZE (0 :: u8)"
  have keys: "\<forall>k \<in> fst ` set es. key_ok k"
    using ok enumerates_keys [OF it] by (auto simp: catalog_ok_def key_ok_def)
  have buf: "buf = fst (serialize_loop es CATALOG_BUF_SIZE ?z 0)"
    and w: "written = snd (serialize_loop es CATALOG_BUF_SIZE ?z 0)"
    using ser by (simp_all add: serialize_into_def)
  have size: "CATALOG_BUF_SIZE = 8192"
    by (simp add: CATALOG_BUF_SIZE_def MAX_REGIONS_PER_NODE_def RDE_WIRE_SIZE_def)
  have len: "length buf = 8192"
    using serialize_loop_length [of ?z CATALOG_BUF_SIZE es 0] by (simp add: buf size)
  have bounds: "written \<le> 8192" "32 dvd written"
    and wr: "\<And>q. catalog_key 0 q \<in> fst ` set es \<Longrightarrow> unat q < 256 \<Longrightarrow> unat q * 32 + 32 \<le> written"
    using serialize_loop_written [OF keys _ _ w] by (auto simp: size)
  have slot: "slice (unat r * 32) 32 buf =
      (case catalog_lookup c 0 r of Some e \<Rightarrow> rde_serialize e | None \<Rightarrow> replicate 32 0)"
    if "unat r < 256"
    using serialize_loop_slot [OF enumerates_distinct [OF it] keys, of ?z r 0] that
    by (simp add: buf catalog_lookup_def enumerates_lookup [OF it] size slice_def split: option.split)
  have dec: "rde_deserialize (drop (unat r * 32) buf) =
      (case catalog_lookup c 0 r of Some e \<Rightarrow> e | None \<Rightarrow> zero_entry)" if "unat r < 256"
    using slot [OF that] that len rde_deserialize_slot [of "unat r * 32" buf]
      rde_deserialize_zeros [of "drop (unat r * 32) buf"]
    by (auto simp: slice_def split: option.splits)
  have "unat r < written div 32 \<longleftrightarrow> unat r * 32 + 32 \<le> written"
    using bounds by (auto elim!: dvdE)
  moreover have "catalog_lookup (deserialize_from buf written s c') n r =
     (if n = s \<and> unat r < written div 32
      then Some (rde_deserialize (drop (unat r * 32) buf)) else catalog_lookup c' n r)"
    using lookup_deserialize_from [of written buf s c' n r] bounds(1) by (simp add: RDE_WIRE_SIZE_def)
  moreover have "catalog_key 0 r \<in> fst ` set es" if "catalog_lookup c 0 r \<noteq> None"
    using that by (auto simp: catalog_lookup_def enumerates_lookup [OF it] dest!: map_of_SomeD intro: rev_image_eqI)
  ultimately show ?thesis using dec bounds wr by auto
qed

theorem catalog_publish_witness:
  "let e = \<lparr>rde_local_addr = 4096, rde_length = 64, rde_rkey = 7, rde_flags = 3, rde_epoch = 1\<rparr>;
       p = serialize_into [(catalog_key 0 0, e)] (replicate CATALOG_BUF_SIZE 0) CATALOG_BUF_SIZE
   in catalog_lookup (deserialize_from (fst p) (snd p) 5 empty_catalog) 5 0 = Some e"
proof -
  define e where "e = \<lparr>rde_local_addr = 4096, rde_length = 64, rde_rkey = 7, rde_flags = 3, rde_epoch = (1 :: u64)\<rparr>"
  define c where "c = upsert 0 e empty_catalog"
  have ok: "catalog_ok c" unfolding c_def by (rule catalog_ok_ops(1) [OF catalog_ok_empty])
  have "cat_entries c = Mapping.of_alist [(catalog_key 0 0, e)]"
    by (rule mapping_eqI) (simp add: c_def upsert_def empty_catalog_def lookup_of_alist lookup_update')
  then have it: "enumerates [(catalog_key 0 0, e)] (cat_entries c)" by (simp add: enumerates_def)
  have look: "catalog_lookup c 0 0 = Some e" by (simp add: c_def lookup_upsert)
  show ?thesis
    using catalog_publish [OF ok it prod.collapse [symmetric], of 5 empty_catalog 5 0] look
    by (simp add: Let_def e_def)
qed

text \<open>
  Removing a node from the catalog removes only its entry for region 0: the mask keeps the
  region bits of the key, so every other region of the failed node stays resolvable.
\<close>

theorem remove_node_effect:
  "catalog_lookup (remove_node node c) n r =
     (if n = node \<and> r = 0 then None else catalog_lookup c n r)"
  by (rule lookup_remove_node)

end
