(* ===== verification/Rdma.thy ===== *)
theory Rdma
  imports Wire Errors
begin

text \<open>
  The RDMA transport: loading of the verbs library (\<open>csrc/transport/rdma/IbvWrapper.cpp\<close>), the queue pair of a peer
  (\<open>RdmaConnection.cpp\<close>) and registered buffers (\<open>SharedBuffer.cpp\<close>), with the structures of \<open>ibverbs_compat.h\<close>
  that they fill in. The verbs library itself is not part of the program: its calls are parameters, and
  every operation returns the calls it makes, in order. Handles are numbers; \<^term>\<open>None\<close> is the null pointer.
\<close>

section \<open>Structures of the verbs interface\<close>

record ibv_sge =
  sge_addr :: u64
  sge_length :: u32
  sge_lkey :: u32

datatype ibv_qp_state = IBV_QPS_RESET | IBV_QPS_INIT | IBV_QPS_RTR | IBV_QPS_RTS | IBV_QPS_SQD | IBV_QPS_SQE | IBV_QPS_ERR

definition IBV_QP_STATE :: u32 where "IBV_QP_STATE = 1"
definition IBV_QP_ACCESS_FLAGS :: u32 where "IBV_QP_ACCESS_FLAGS = push_bit 3 1"
definition IBV_QP_PKEY_INDEX :: u32 where "IBV_QP_PKEY_INDEX = push_bit 4 1"
definition IBV_QP_PORT :: u32 where "IBV_QP_PORT = push_bit 5 1"
definition IBV_QP_AV :: u32 where "IBV_QP_AV = push_bit 7 1"
definition IBV_QP_PATH_MTU :: u32 where "IBV_QP_PATH_MTU = push_bit 8 1"
definition IBV_QP_TIMEOUT :: u32 where "IBV_QP_TIMEOUT = push_bit 9 1"
definition IBV_QP_RETRY_CNT :: u32 where "IBV_QP_RETRY_CNT = push_bit 10 1"
definition IBV_QP_RNR_RETRY :: u32 where "IBV_QP_RNR_RETRY = push_bit 11 1"
definition IBV_QP_RQ_PSN :: u32 where "IBV_QP_RQ_PSN = push_bit 12 1"
definition IBV_QP_MAX_QP_RD_ATOMIC :: u32 where "IBV_QP_MAX_QP_RD_ATOMIC = push_bit 13 1"
definition IBV_QP_MIN_RNR_TIMER :: u32 where "IBV_QP_MIN_RNR_TIMER = push_bit 15 1"
definition IBV_QP_SQ_PSN :: u32 where "IBV_QP_SQ_PSN = push_bit 16 1"
definition IBV_QP_MAX_DEST_RD_ATOMIC :: u32 where "IBV_QP_MAX_DEST_RD_ATOMIC = push_bit 17 1"
definition IBV_QP_DEST_QPN :: u32 where "IBV_QP_DEST_QPN = push_bit 20 1"

definition IBV_ACCESS_LOCAL_WRITE :: u32 where "IBV_ACCESS_LOCAL_WRITE = 1"
definition IBV_ACCESS_REMOTE_WRITE :: u32 where "IBV_ACCESS_REMOTE_WRITE = push_bit 1 1"
definition IBV_ACCESS_REMOTE_READ :: u32 where "IBV_ACCESS_REMOTE_READ = push_bit 2 1"

record ibv_ah_attr =
  dgid :: "128 word"
  sgid_index :: u8
  hop_limit :: u8
  dlid :: u16
  ah_sl :: u8
  src_path_bits :: u8
  is_global :: u8
  ah_port_num :: u8

record ibv_qp_attr =
  qp_state :: ibv_qp_state
  path_mtu :: nat
  qp_access_flags :: u32
  pkey_index :: u16
  max_rd_atomic :: u8
  max_dest_rd_atomic :: u8
  min_rnr_timer :: u8
  port_num :: u8
  qp_timeout :: u8
  retry_cnt :: u8
  rnr_retry :: u8
  sq_psn :: u32
  rq_psn :: u32
  dest_qp_num :: u32
  ah_attr :: ibv_ah_attr

text \<open>The value-initialised attribute structures.\<close>

definition zero_ah :: ibv_ah_attr where
  "zero_ah = \<lparr>dgid = 0, sgid_index = 0, hop_limit = 0, dlid = 0, ah_sl = 0, src_path_bits = 0, is_global = 0, ah_port_num = 0\<rparr>"

definition zero_attr :: ibv_qp_attr where
  "zero_attr = \<lparr>qp_state = IBV_QPS_RESET, path_mtu = 0, qp_access_flags = 0, pkey_index = 0, max_rd_atomic = 0,
     max_dest_rd_atomic = 0, min_rnr_timer = 0, port_num = 0, qp_timeout = 0, retry_cnt = 0, rnr_retry = 0,
     sq_psn = 0, rq_psn = 0, dest_qp_num = 0, ah_attr = zero_ah\<rparr>"

text \<open>The type of a queue pair, its capacities and what \<open>ibv_create_qp\<close> is given.\<close>

datatype ibv_qp_type = IBV_QPT_RC | IBV_QPT_UC | IBV_QPT_UD

record ibv_qp_cap =
  max_send_wr :: u32
  max_recv_wr :: u32
  max_send_sge :: u32
  max_recv_sge :: u32
  max_inline_data :: u32

record ibv_qp_init_attr =
  send_cq :: nat
  recv_cq :: nat
  qp_cap :: ibv_qp_cap
  init_qp_type :: ibv_qp_type
  sq_sig_all :: int

datatype ibv_wr_opcode = IBV_WR_RDMA_WRITE | IBV_WR_RDMA_WRITE_WITH_IMM | IBV_WR_SEND | IBV_WR_SEND_WITH_IMM | IBV_WR_RDMA_READ

definition IBV_SEND_FENCE :: u32 where "IBV_SEND_FENCE = 1"
definition IBV_SEND_SIGNALED :: u32 where "IBV_SEND_SIGNALED = push_bit 1 1"

record ibv_send_wr =
  wr_id :: u64
  sg_list :: "ibv_sge list"
  wr_opcode :: ibv_wr_opcode
  send_flags :: u32
  imm_data :: u32
  wr_remote_addr :: u64
  wr_rkey :: u32

record ibv_recv_wr =
  recv_wr_id :: u64
  recv_sg_list :: "ibv_sge list"

section \<open>Loading the library\<close>

text \<open>
  \<open>ibv\<close> loads the library at its first call only: \<open>opened\<close> says whether \<open>dlopen\<close> succeeds, \<open>has\<close> which symbols \<open>dlsym\<close> finds, \<open>devices\<close> what
  listing the devices gives (no list, or their number).
\<close>

record IbvState =
  attempted :: bool
  available :: bool

definition ibv_symbols :: "string list" where
  "ibv_symbols = [''ibv_get_device_list'', ''ibv_free_device_list'', ''ibv_open_device'', ''ibv_close_device'',
     ''ibv_alloc_pd'', ''ibv_dealloc_pd'', ''ibv_create_cq'', ''ibv_destroy_cq'', ''ibv_create_qp'', ''ibv_destroy_qp'',
     ''ibv_modify_qp'', ''ibv_reg_mr'', ''ibv_dereg_mr'', ''ibv_post_send'', ''ibv_post_recv'', ''ibv_poll_cq'',
     ''ibv_query_port'', ''ibv_query_gid'']"

definition try_load :: "bool \<Rightarrow> (string \<Rightarrow> bool) \<Rightarrow> nat option \<Rightarrow> bool" where
  "try_load opened has devices \<longleftrightarrow> opened \<and> list_all has ibv_symbols \<and> (case devices of None \<Rightarrow> False | Some n \<Rightarrow> n \<noteq> 0)"

definition ibv :: "bool \<Rightarrow> (string \<Rightarrow> bool) \<Rightarrow> nat option \<Rightarrow> IbvState \<Rightarrow> bool \<times> IbvState" where
  "ibv opened has devices g =
     (let g1 = (if \<not> attempted g then g\<lparr>attempted := True, available := try_load opened has devices\<rparr> else g)
      in (available g1, g1))"

lemma ibv_once: "ibv o1 h1 d1 g = (b, g') \<Longrightarrow> ibv o2 h2 d2 g' = (b, g')"
  by (auto simp: ibv_def Let_def split: if_splits)

section \<open>Destinations\<close>

record RdmaDestination =
  local_id :: u16
  qp_number :: u32
  packet_seq_number :: u32
  dest_gid :: "128 word"

definition DEST_WIRE_SIZE :: nat where "DEST_WIRE_SIZE = 2 + 4 + 4 + 16"

definition dest_serialize :: "RdmaDestination \<Rightarrow> u8 list" where
  "dest_serialize d = to_bytes 2 (local_id d) @ to_bytes 4 (qp_number d) @ to_bytes 4 (packet_seq_number d) @ to_bytes 16 (dest_gid d)"

definition dest_deserialize :: "u8 list \<Rightarrow> RdmaDestination" where
  "dest_deserialize buf = \<lparr>local_id = of_bytes (slice 0 2 buf), qp_number = of_bytes (slice 2 4 buf),
     packet_seq_number = of_bytes (slice 6 4 buf), dest_gid = of_bytes (slice 10 16 buf)\<rparr>"

interpretation dest: wire_codec dest_serialize dest_deserialize DEST_WIRE_SIZE
  by unfold_locales (simp_all add: dest_serialize_def dest_deserialize_def DEST_WIRE_SIZE_def slice_def of_to_bytes)

definition null_destination :: RdmaDestination where
  "null_destination = \<lparr>local_id = 0, qp_number = 0, packet_seq_number = 0, dest_gid = 0\<rparr>"

section \<open>Connections\<close>

record RdmaConnection =
  conn_fns :: bool
  conn_ctx :: "nat option"
  conn_pd :: "nat option"
  conn_cq :: "nat option"
  conn_qp :: "nat option"

datatype verb =
    OpenDevice nat | AllocPd nat | CreateCq nat int | CreateQp nat ibv_qp_init_attr
  | DestroyQp nat | DestroyCq nat | DeallocPd nat | CloseDevice nat
  | ModifyQp ibv_qp_attr u32 | PostSend ibv_send_wr | PostRecv ibv_recv_wr
  | RegMr nat u32 | DeregMr nat | Free

text \<open>What the calls that create something return.\<close>

record verbs =
  open_device :: "nat option"
  alloc_pd :: "nat option"
  create_cq :: "nat option"
  create_qp :: "nat option"

definition closed_connection :: RdmaConnection where
  "closed_connection = \<lparr>conn_fns = False, conn_ctx = None, conn_pd = None, conn_cq = None, conn_qp = None\<rparr>"

definition conn_ok :: "RdmaConnection \<Rightarrow> bool" where "conn_ok c \<longleftrightarrow> conn_qp c \<noteq> None"

definition give_back :: "(nat \<Rightarrow> verb) \<Rightarrow> nat option \<Rightarrow> verb list" where
  "give_back f h = (case h of None \<Rightarrow> [] | Some x \<Rightarrow> [f x])"

definition conn_destroy :: "RdmaConnection \<Rightarrow> verb list \<times> RdmaConnection" where
  "conn_destroy c =
     (if \<not> conn_fns c then ([], c)
      else (give_back DestroyQp (conn_qp c) @ give_back DestroyCq (conn_cq c) @
            give_back DeallocPd (conn_pd c) @ give_back CloseDevice (conn_ctx c), closed_connection))"

definition qp_init_attr :: "nat \<Rightarrow> int \<Rightarrow> ibv_qp_init_attr" where
  "qp_init_attr q cq_depth =
     \<lparr>send_cq = q, recv_cq = q,
      qp_cap = \<lparr>max_send_wr = word_of_int cq_depth, max_recv_wr = word_of_int cq_depth, max_send_sge = 1, max_recv_sge = 1, max_inline_data = 0\<rparr>,
      init_qp_type = IBV_QPT_RC, sq_sig_all = 0\<rparr>"

definition conn_open :: "bool \<Rightarrow> verbs \<Rightarrow> bool \<Rightarrow> int \<Rightarrow> RdmaConnection \<Rightarrow> bool \<times> verb list \<times> RdmaConnection" where
  "conn_open avail v has_device cq_depth c =
     (let c0 = c\<lparr>conn_fns := avail\<rparr> in
      if \<not> avail \<or> \<not> has_device then (False, [], c0)
      else case open_device v of
        None \<Rightarrow> (False, [], c0\<lparr>conn_ctx := None\<rparr>)
      | Some x \<Rightarrow>
          let c1 = c0\<lparr>conn_ctx := Some x\<rparr> in
          case alloc_pd v of
            None \<Rightarrow> (let (vs, c') = conn_destroy (c1\<lparr>conn_pd := None\<rparr>) in (False, OpenDevice x # vs, c'))
          | Some p \<Rightarrow>
              let c2 = c1\<lparr>conn_pd := Some p\<rparr> in
              case create_cq v of
                None \<Rightarrow> (let (vs, c') = conn_destroy (c2\<lparr>conn_cq := None\<rparr>) in (False, [OpenDevice x, AllocPd p] @ vs, c'))
              | Some q \<Rightarrow>
                  let c3 = c2\<lparr>conn_cq := Some q\<rparr> in
                  case create_qp v of
                    None \<Rightarrow> (let (vs, c') = conn_destroy (c3\<lparr>conn_qp := None\<rparr>) in
                             (False, [OpenDevice x, AllocPd p, CreateCq q (cq_depth * 2)] @ vs, c'))
                  | Some r \<Rightarrow> (True, [OpenDevice x, AllocPd p, CreateCq q (cq_depth * 2), CreateQp r (qp_init_attr q cq_depth)], c3\<lparr>conn_qp := Some r\<rparr>))"

text \<open>The move constructor and the move assignment (between different objects): the new target and the emptied source.\<close>

definition conn_move :: "RdmaConnection \<Rightarrow> RdmaConnection \<times> RdmaConnection" where
  "conn_move other = (other, closed_connection)"

definition conn_move_assign :: "RdmaConnection \<Rightarrow> RdmaConnection \<Rightarrow> verb list \<times> RdmaConnection \<times> RdmaConnection" where
  "conn_move_assign this other = (fst (conn_destroy this), other, closed_connection)"

section \<open>Queue pair states\<close>

text \<open>
  \<open>modqp\<close> stands for \<open>ibv_modify_qp\<close> on a queue pair in the given state: the new state, or \<^term>\<open>None\<close> for an error.
\<close>

type_synonym modify_qp = "ibv_qp_state \<Rightarrow> ibv_qp_attr \<Rightarrow> u32 \<Rightarrow> ibv_qp_state option"

definition init_attr :: "u8 \<Rightarrow> ibv_qp_attr" where
  "init_attr port = zero_attr\<lparr>qp_state := IBV_QPS_INIT, port_num := port, pkey_index := 0,
     qp_access_flags := IBV_ACCESS_LOCAL_WRITE OR IBV_ACCESS_REMOTE_WRITE OR IBV_ACCESS_REMOTE_READ\<rparr>"

definition init_mask :: u32 where
  "init_mask = IBV_QP_STATE OR IBV_QP_PKEY_INDEX OR IBV_QP_PORT OR IBV_QP_ACCESS_FLAGS"

definition conn_init :: "modify_qp \<Rightarrow> u8 \<Rightarrow> RdmaConnection \<Rightarrow> ibv_qp_state \<Rightarrow> bool \<times> ibv_qp_state" where
  "conn_init modqp port c st =
     (if \<not> conn_fns c \<or> conn_qp c = None then (False, st)
      else case modqp st (init_attr port) init_mask of None \<Rightarrow> (False, st) | Some st' \<Rightarrow> (True, st'))"

definition rtr_attr :: "RdmaDestination \<Rightarrow> u8 \<Rightarrow> ibv_qp_attr" where
  "rtr_attr remote port = zero_attr\<lparr>qp_state := IBV_QPS_RTR, path_mtu := 5, dest_qp_num := qp_number remote,
     rq_psn := packet_seq_number remote, max_dest_rd_atomic := 1, min_rnr_timer := 12,
     ah_attr := \<lparr>dgid = dest_gid remote, sgid_index = 0, hop_limit = 1, dlid = local_id remote, ah_sl = 0, src_path_bits = 0,
                 is_global = 1, ah_port_num = port\<rparr>\<rparr>"

definition rtr_mask :: u32 where
  "rtr_mask = IBV_QP_STATE OR IBV_QP_AV OR IBV_QP_PATH_MTU OR IBV_QP_DEST_QPN OR IBV_QP_RQ_PSN OR
     IBV_QP_MAX_DEST_RD_ATOMIC OR IBV_QP_MIN_RNR_TIMER"

definition rts_attr :: ibv_qp_attr where
  "rts_attr = zero_attr\<lparr>qp_state := IBV_QPS_RTS, sq_psn := 0, qp_timeout := 14, retry_cnt := 7, rnr_retry := 7, max_rd_atomic := 1\<rparr>"

definition rts_mask :: u32 where
  "rts_mask = IBV_QP_STATE OR IBV_QP_SQ_PSN OR IBV_QP_TIMEOUT OR IBV_QP_RETRY_CNT OR IBV_QP_RNR_RETRY OR IBV_QP_MAX_QP_RD_ATOMIC"

definition conn_activate :: "modify_qp \<Rightarrow> RdmaDestination \<Rightarrow> u8 \<Rightarrow> RdmaConnection \<Rightarrow> ibv_qp_state \<Rightarrow> bool \<times> ibv_qp_state" where
  "conn_activate modqp remote port c st =
     (if \<not> conn_fns c \<or> conn_qp c = None then (False, st)
      else case modqp st (rtr_attr remote port) rtr_mask of
        None \<Rightarrow> (False, st)
      | Some st1 \<Rightarrow> (case modqp st1 rts_attr rts_mask of None \<Rightarrow> (False, st1) | Some st2 \<Rightarrow> (True, st2)))"

text \<open>\<open>lid\<close>, \<open>gid\<close> and \<open>num\<close> are what the port query, the GID query and the queue pair hold.\<close>

definition local_destination :: "u16 \<Rightarrow> 128 word \<Rightarrow> u32 \<Rightarrow> RdmaConnection \<Rightarrow> RdmaDestination" where
  "local_destination lid gid num c =
     (if \<not> conn_fns c \<or> conn_qp c = None \<or> conn_ctx c = None then null_destination
      else \<lparr>local_id = lid, qp_number = num, packet_seq_number = 0, dest_gid = gid\<rparr>)"

section \<open>Work requests\<close>

text \<open>Each posting operation: the request it hands to the library, if the connection is open. It succeeds when the library accepts.\<close>

definition send_request :: "ibv_sge \<Rightarrow> u64 \<Rightarrow> ibv_send_wr" where
  "send_request sge n = \<lparr>wr_id = n, sg_list = [sge], wr_opcode = IBV_WR_SEND, send_flags = IBV_SEND_SIGNALED, imm_data = 0,
     wr_remote_addr = 0, wr_rkey = 0\<rparr>"

definition rdma_request :: "ibv_wr_opcode \<Rightarrow> ibv_sge \<Rightarrow> u64 \<Rightarrow> u32 \<Rightarrow> u64 \<Rightarrow> bool \<Rightarrow> ibv_send_wr" where
  "rdma_request opc sge raddr rkey n signaled = \<lparr>wr_id = n, sg_list = [sge], wr_opcode = opc,
     send_flags = (if signaled then IBV_SEND_SIGNALED else 0), imm_data = 0, wr_remote_addr = raddr, wr_rkey = rkey\<rparr>"

definition imm_request :: "ibv_sge \<Rightarrow> u64 \<Rightarrow> u32 \<Rightarrow> u32 \<Rightarrow> u64 \<Rightarrow> ibv_send_wr" where
  "imm_request sge raddr rkey imm n = \<lparr>wr_id = n, sg_list = [sge], wr_opcode = IBV_WR_RDMA_WRITE_WITH_IMM,
     send_flags = IBV_SEND_SIGNALED, imm_data = imm, wr_remote_addr = raddr, wr_rkey = rkey\<rparr>"

definition fence_request :: "u64 \<Rightarrow> ibv_send_wr" where
  "fence_request n = \<lparr>wr_id = n, sg_list = [], wr_opcode = IBV_WR_RDMA_WRITE,
     send_flags = IBV_SEND_SIGNALED OR IBV_SEND_FENCE, imm_data = 0, wr_remote_addr = 0, wr_rkey = 0\<rparr>"

definition post :: "(ibv_send_wr \<Rightarrow> bool) \<Rightarrow> RdmaConnection \<Rightarrow> ibv_send_wr \<Rightarrow> bool \<times> verb list" where
  "post accepts c wr = (if \<not> conn_fns c \<or> conn_qp c = None then (False, []) else (accepts wr, [PostSend wr]))"

definition post_send :: "(ibv_send_wr \<Rightarrow> bool) \<Rightarrow> RdmaConnection \<Rightarrow> ibv_sge \<Rightarrow> u64 \<Rightarrow> bool \<times> verb list" where
  "post_send accepts c sge n = post accepts c (send_request sge n)"

definition post_recv :: "(ibv_recv_wr \<Rightarrow> bool) \<Rightarrow> RdmaConnection \<Rightarrow> ibv_sge \<Rightarrow> u64 \<Rightarrow> bool \<times> verb list" where
  "post_recv accepts c sge n =
     (let wr = \<lparr>recv_wr_id = n, recv_sg_list = [sge]\<rparr> in
      if \<not> conn_fns c \<or> conn_qp c = None then (False, []) else (accepts wr, [PostRecv wr]))"

definition post_rdma_write :: "(ibv_send_wr \<Rightarrow> bool) \<Rightarrow> RdmaConnection \<Rightarrow> ibv_sge \<Rightarrow> u64 \<Rightarrow> u32 \<Rightarrow> u64 \<Rightarrow> bool \<Rightarrow> bool \<times> verb list" where
  "post_rdma_write accepts c sge raddr rkey n signaled = post accepts c (rdma_request IBV_WR_RDMA_WRITE sge raddr rkey n signaled)"

definition post_rdma_read :: "(ibv_send_wr \<Rightarrow> bool) \<Rightarrow> RdmaConnection \<Rightarrow> ibv_sge \<Rightarrow> u64 \<Rightarrow> u32 \<Rightarrow> u64 \<Rightarrow> bool \<Rightarrow> bool \<times> verb list" where
  "post_rdma_read accepts c sge raddr rkey n signaled = post accepts c (rdma_request IBV_WR_RDMA_READ sge raddr rkey n signaled)"

definition post_rdma_write_with_imm :: "(ibv_send_wr \<Rightarrow> bool) \<Rightarrow> RdmaConnection \<Rightarrow> ibv_sge \<Rightarrow> u64 \<Rightarrow> u32 \<Rightarrow> u32 \<Rightarrow> u64 \<Rightarrow> bool \<times> verb list" where
  "post_rdma_write_with_imm accepts c sge raddr rkey imm n = post accepts c (imm_request sge raddr rkey imm n)"

definition post_fence :: "(ibv_send_wr \<Rightarrow> bool) \<Rightarrow> RdmaConnection \<Rightarrow> u64 \<Rightarrow> bool \<times> verb list" where
  "post_fence accepts c n = post accepts c (fence_request n)"

text \<open>\<open>poll\<close>: what the library returns, or \<^term>\<open>-1\<close> without a completion queue.\<close>

definition conn_poll :: "int \<Rightarrow> RdmaConnection \<Rightarrow> int" where
  "conn_poll result c = (if \<not> conn_fns c \<or> conn_cq c = None then -1 else result)"

section \<open>Registered buffers\<close>

record SharedBuffer =
  sb_buf :: "nat option"
  sb_nbytes :: nat
  registrations :: "nat list"

definition empty_buffer :: SharedBuffer where
  "empty_buffer = \<lparr>sb_buf = None, sb_nbytes = 0, registrations = []\<rparr>"

definition buf_cleanup :: "bool \<Rightarrow> SharedBuffer \<Rightarrow> verb list \<times> SharedBuffer" where
  "buf_cleanup avail b = ((if avail then map DeregMr (registrations b) else []) @ (if sb_buf b \<noteq> None then [Free] else []), empty_buffer)"

text \<open>\<open>addr\<close> is what \<open>posix_memalign\<close> gives.\<close>

definition buf_allocate :: "bool \<Rightarrow> nat option \<Rightarrow> nat \<Rightarrow> SharedBuffer \<Rightarrow> verb list \<times> SharedBuffer" where
  "buf_allocate avail addr n b =
     (let (vs, b1) = buf_cleanup avail b; b2 = b1\<lparr>sb_nbytes := n\<rparr> in
      if n = 0 then (vs, b2)
      else case addr of None \<Rightarrow> (vs, b2\<lparr>sb_buf := None, sb_nbytes := 0\<rparr>) | Some a \<Rightarrow> (vs, b2\<lparr>sb_buf := Some a\<rparr>))"

text \<open>\<open>mr\<close> is the registration that \<open>ibv_reg_mr\<close> gives.\<close>

definition register_with :: "bool \<Rightarrow> nat option \<Rightarrow> nat option \<Rightarrow> SharedBuffer \<Rightarrow> nat option \<times> verb list \<times> SharedBuffer" where
  "register_with avail mr pdh b =
     (if \<not> avail \<or> sb_buf b = None \<or> pdh = None then (None, [], b)
      else case mr of None \<Rightarrow> (None, [], b)
      | Some m \<Rightarrow> (Some m, [RegMr m (IBV_ACCESS_LOCAL_WRITE OR IBV_ACCESS_REMOTE_READ OR IBV_ACCESS_REMOTE_WRITE)], b\<lparr>registrations := registrations b @ [m]\<rparr>))"

definition to_sge :: "u64 \<Rightarrow> u32 \<Rightarrow> nat \<Rightarrow> u32 \<Rightarrow> ibv_sge" where
  "to_sge base lkey off len = \<lparr>sge_addr = base + word_of_nat off, sge_length = len, sge_lkey = lkey\<rparr>"

text \<open>\<open>to_sge(mr)\<close>: the whole buffer, its length cast to 32 bits; and the constructor with a size.\<close>

definition to_sge_all :: "u64 \<Rightarrow> u32 \<Rightarrow> SharedBuffer \<Rightarrow> ibv_sge" where
  "to_sge_all base lkey b = to_sge base lkey 0 (word_of_nat (sb_nbytes b))"

definition new_shared_buffer :: "bool \<Rightarrow> nat option \<Rightarrow> nat \<Rightarrow> verb list \<times> SharedBuffer" where
  "new_shared_buffer avail addr n = buf_allocate avail addr n empty_buffer"

definition buf_move :: "SharedBuffer \<Rightarrow> SharedBuffer \<times> SharedBuffer" where
  "buf_move other = (other, empty_buffer)"

definition buf_move_assign :: "bool \<Rightarrow> SharedBuffer \<Rightarrow> SharedBuffer \<Rightarrow> verb list \<times> SharedBuffer \<times> SharedBuffer" where
  "buf_move_assign avail this other = (fst (buf_cleanup avail this), other, empty_buffer)"

section \<open>Properties\<close>

text \<open>What a call takes from the library and what it gives back.\<close>

fun acquires :: "verb \<Rightarrow> (string \<times> nat) list" where
  "acquires (OpenDevice x) = [(''ctx'', x)]" | "acquires (AllocPd x) = [(''pd'', x)]"
| "acquires (CreateCq x n) = [(''cq'', x)]" | "acquires (CreateQp x n) = [(''qp'', x)]" | "acquires _ = []"

fun releases :: "verb \<Rightarrow> (string \<times> nat) list" where
  "releases (CloseDevice x) = [(''ctx'', x)]" | "releases (DeallocPd x) = [(''pd'', x)]"
| "releases (DestroyCq x) = [(''cq'', x)]" | "releases (DestroyQp x) = [(''qp'', x)]" | "releases _ = []"

lemmas conn_defs = conn_open_def conn_destroy_def give_back_def closed_connection_def

text \<open>
  Opening a connection is all or nothing: from a closed connection, \<open>open\<close> either returns true with device, protection
  domain, completion queue and queue pair, which \<open>destroy\<close> then gives back in reverse order, or returns false, holds nothing, and has
  given back in reverse order whatever it had taken.
\<close>

theorem open_all_or_nothing:
  assumes "conn_open avail v has_device depth closed_connection = (ok, calls, c)"
  shows "(if ok then conn_ok c \<and> map fst (concat (map acquires calls)) = [''ctx'', ''pd'', ''cq'', ''qp''] \<and>
             concat (map releases (fst (conn_destroy c))) = rev (concat (map acquires calls)) \<and> snd (conn_destroy c) = closed_connection
          else conn_ctx c = None \<and> conn_pd c = None \<and> conn_cq c = None \<and> conn_qp c = None \<and> \<not> conn_ok c \<and>
             concat (map releases calls) = rev (concat (map acquires calls)))"
  using assms by (auto simp: conn_defs conn_ok_def Let_def split: if_splits option.splits)

theorem open_all_or_nothing_witness:
  "let (ok, calls, c) = conn_open True \<lparr>open_device = Some 1, alloc_pd = Some 2, create_cq = Some 3, create_qp = None\<rparr> True 128 closed_connection in
     \<not> ok \<and> \<not> conn_ok c \<and> concat (map releases calls) = [(''cq'', 3), (''pd'', 2), (''ctx'', 1)]"
proof -
  let ?v = "\<lparr>open_device = Some 1, alloc_pd = Some 2, create_cq = Some 3, create_qp = None\<rparr>"
  have e: "conn_open True ?v True 128 closed_connection =
      (False, [OpenDevice 1, AllocPd 2, CreateCq 3 256, DestroyCq 3, DeallocPd 2, CloseDevice 1], closed_connection)"
    by (simp add: conn_defs Let_def)
  show ?thesis using open_all_or_nothing [OF e] unfolding e by simp
qed

text \<open>
  The completion queue has room for every outstanding request: the queue pair of an opened connection is reliable, reports to the connection's own completion queue, and its
  send and receive queues together hold as many requests as that queue has entries.
\<close>

lemma cq_holds_both_queues:
  assumes "conn_open avail v has_device depth c = (True, calls, c')" and "0 \<le> depth" and "depth < 2 ^ 30"
  shows "\<exists>q r n a. CreateCq q n \<in> set calls \<and> CreateQp r a \<in> set calls \<and> conn_cq c' = Some q \<and> send_cq a = q \<and> recv_cq a = q \<and>
    init_qp_type a = IBV_QPT_RC \<and> n = uint (max_send_wr (qp_cap a)) + uint (max_recv_wr (qp_cap a))"
proof -
  have "uint (word_of_int depth :: u32) = depth" using assms(2, 3) by (simp add: uint_word_of_int)
  then show ?thesis using assms(1)
    by (fastforce simp: conn_open_def qp_init_attr_def Let_def split: if_splits option.splits prod.splits)
qed

text \<open>A scatter element for a whole buffer of 4 GiB or more has the wrong length: a buffer of exactly 4 GiB gives an empty element.\<close>

lemma to_sge_truncates: "sb_nbytes b = 2 ^ 32 \<Longrightarrow> sge_length (to_sge_all base lkey b) = 0"
  "sb_nbytes b < 2 ^ 32 \<Longrightarrow> unat (sge_length (to_sge_all base lkey b)) = sb_nbytes b"
  by (simp_all add: to_sge_all_def to_sge_def unsigned_of_nat take_bit_nat_eq_self)


text \<open>The strictest library of that kind: it accepts nothing else.\<close>

definition strict_modify :: "RdmaDestination \<Rightarrow> modify_qp" where
  "strict_modify remote st a m =
     (if st = IBV_QPS_RESET \<and> qp_state a = IBV_QPS_INIT \<and> m = IBV_QP_STATE OR IBV_QP_PKEY_INDEX OR IBV_QP_PORT OR IBV_QP_ACCESS_FLAGS then Some IBV_QPS_INIT
      else if st = IBV_QPS_INIT \<and> qp_state a = IBV_QPS_RTR \<and> dest_qp_num a = qp_number remote \<and>
        m = IBV_QP_STATE OR IBV_QP_AV OR IBV_QP_PATH_MTU OR IBV_QP_DEST_QPN OR IBV_QP_RQ_PSN OR IBV_QP_MAX_DEST_RD_ATOMIC OR IBV_QP_MIN_RNR_TIMER then Some IBV_QPS_RTR
      else if st = IBV_QPS_RTR \<and> qp_state a = IBV_QPS_RTS \<and>
        m = IBV_QP_STATE OR IBV_QP_TIMEOUT OR IBV_QP_RETRY_CNT OR IBV_QP_RNR_RETRY OR IBV_QP_SQ_PSN OR IBV_QP_MAX_QP_RD_ATOMIC then Some IBV_QPS_RTS
      else None)"


end
