(* ===== verification/Dmem.thy ===== *)
theory Dmem
  imports Memory_Catalog Rdma
begin

text \<open>
  The distributed memory manager: \<open>csrc/dmem/DistributedMemoryManager.cpp\<close>. The state holds the members of the
  class, the memory of the process as a function of the address, and the work requests handed to the
  network card, each with the contents the staging buffer had at that moment. What the verbs library
  and the card do is an argument (\<open>env\<close>): whether a request is accepted, the memory of the other
  nodes, and which reads have arrived when \<open>poll_completion\<close> gives up or returns. Every public method is
  one step; the poller thread is a step of its own.
\<close>

section \<open>State\<close>

definition MAX_NODES :: nat where "MAX_NODES = 8"
definition kRdmaBufSize :: nat where "kRdmaBufSize = 1024 * 1024"
definition kCqPollBatch :: nat where "kCqPollBatch = 16"

record dmem_stats =
  put_bytes :: u64
  get_bytes :: u64
  put_ops :: u64
  get_ops :: u64
  error_count :: u64

record dmem =
  dm_node_id :: u16
  peer_conns :: "RdmaConnection option list"
  dm_regions :: "MemoryRegion list"
  next_region_id :: u32
  dm_catalog :: MemoryCatalog
  catalog_buf :: SharedBuffer
  catalog_mr :: "nat option"
  staging_buf :: SharedBuffer
  staging_mr :: "nat option"
  staging :: "nat \<Rightarrow> u8"
  pending_ops :: "u64 list"
  dm_running :: bool
  next_wr_id :: u64
  dmem_counters :: dmem_stats
  dm_mem :: "u64 \<Rightarrow> u8"
  posted :: "(u16 \<times> ibv_send_wr \<times> (nat \<Rightarrow> u8)) list"

record dmem_env =
  accepts :: "u16 \<Rightarrow> ibv_send_wr \<Rightarrow> bool"
  remote_mem :: "u16 \<Rightarrow> u64 \<Rightarrow> u8"
  read_arrived :: "u64 \<Rightarrow> bool"
  staging_base :: u64
  staging_lkey :: u32

section \<open>Memory\<close>

definition mem_write :: "(u64 \<Rightarrow> u8) \<Rightarrow> u64 \<Rightarrow> nat \<Rightarrow> (nat \<Rightarrow> u8) \<Rightarrow> u64 \<Rightarrow> u8" where
  "mem_write m a n bytes = (\<lambda>x. if unat (x - a) < n then bytes (unat (x - a)) else m x)"

definition mem_read :: "(u64 \<Rightarrow> u8) \<Rightarrow> u64 \<Rightarrow> nat \<Rightarrow> u8" where
  "mem_read m a = (\<lambda>i. m (a + word_of_nat i))"

definition stage :: "(nat \<Rightarrow> u8) \<Rightarrow> nat \<Rightarrow> dmem \<Rightarrow> dmem" where
  "stage bytes n s = s\<lparr>staging := (\<lambda>i. if i < n then bytes i else staging s i)\<rparr>"

section \<open>Construction and destruction\<close>

text \<open>What the library gives when the manager is constructed.\<close>

record dmem_setup =
  su_available :: bool
  su_device_count :: "nat option"
  su_context :: bool
  su_pd :: "nat option"
  su_cq :: bool
  su_catalog_addr :: "nat option"
  su_catalog_mr :: "nat option"
  su_staging_addr :: "nat option"
  su_staging_mr :: "nat option"

definition dmem_error :: "string \<Rightarrow> failure" where
  "dmem_error m = Thrown (MCCLError (''DMEM: '' @ m))"

definition new_dmem :: "dmem_setup \<Rightarrow> (u64 \<Rightarrow> u8) \<Rightarrow> u16 \<Rightarrow> failure + dmem" where
  "new_dmem su m node_id =
     (if \<not> su_available su then Inl (dmem_error ''librdma.dylib not available'')
      else if (case su_device_count su of None \<Rightarrow> True | Some n \<Rightarrow> n = 0) then Inl (dmem_error ''no RDMA devices found'')
      else if \<not> su_context su then Inl (dmem_error ''ibv_open_device failed'')
      else if su_pd su = None then Inl (dmem_error ''ibv_alloc_pd failed'')
      else if \<not> su_cq su then Inl (dmem_error ''ibv_create_cq failed'')
      else let (_, cb) = buf_allocate True (su_catalog_addr su) CATALOG_BUF_SIZE empty_buffer;
               (cmr, _, cb1) = register_with True (su_catalog_mr su) (su_pd su) cb in
        if cmr = None then Inl (dmem_error ''catalog MR registration failed'')
        else let (_, sb) = buf_allocate True (su_staging_addr su) kRdmaBufSize empty_buffer;
                 (smr, _, sb1) = register_with True (su_staging_mr su) (su_pd su) sb in
          if smr = None then Inl (dmem_error ''staging MR registration failed'')
          else Inr \<lparr>dm_node_id = node_id, peer_conns = replicate MAX_NODES None, dm_regions = [], next_region_id = 1,
                    dm_catalog = empty_catalog, catalog_buf = cb1, catalog_mr = cmr, staging_buf = sb1, staging_mr = smr,
                    staging = (\<lambda>_. 0), pending_ops = [], dm_running = False, next_wr_id = 1,
                    dmem_counters = \<lparr>put_bytes = 0, get_bytes = 0, put_ops = 0, get_ops = 0, error_count = 0\<rparr>,
                    dm_mem = m, posted = []\<rparr>)"

definition dmem_start :: "dmem \<Rightarrow> dmem" where "dmem_start s = s\<lparr>dm_running := True\<rparr>"

definition dmem_shutdown :: "dmem \<Rightarrow> dmem" where "dmem_shutdown s = s\<lparr>dm_running := False\<rparr>"

text \<open>The calls of the destructor that give memory registrations back.\<close>

definition dmem_destroy :: "dmem \<Rightarrow> verb list" where
  "dmem_destroy s =
     give_back DeregMr (staging_mr s) @ fst (buf_cleanup True (staging_buf s)) @
     give_back DeregMr (catalog_mr s) @ fst (buf_cleanup True (catalog_buf s))"

section \<open>Regions\<close>

definition resize_regions :: "nat \<Rightarrow> MemoryRegion list \<Rightarrow> MemoryRegion list" where
  "resize_regions n rs = take n rs @ replicate (n - length rs) null_region"

text \<open>\<open>mr\<close> is what \<open>ibv_reg_mr\<close> gives: the remote and the local key.\<close>

definition register_region :: "(u32 \<times> u32) option \<Rightarrow> u64 \<Rightarrow> u64 \<Rightarrow> u8 \<Rightarrow> dmem \<Rightarrow> (failure, dmem, u32) res" where
  "register_region mr base_addr len flags s =
     (if base_addr = 0 then (Inl (dmem_error ''null base_addr''), s)
      else if len = 0 then (Inl (dmem_error ''zero-length region''), s)
      else case mr of None \<Rightarrow> (Inl (dmem_error ''ibv_reg_mr failed''), s)
      | Some (rkey, lkey) \<Rightarrow>
          let rid = next_region_id s;
              s1 = s\<lparr>next_region_id := rid + 1\<rparr>;
              region = \<lparr>mr_gaddr = \<lparr>ga_node_id = dm_node_id s, ga_region_id = rid, ga_offset = 0\<rparr>,
                        mr_local_addr = base_addr, mr_length = len, mr_rkey = rkey, mr_lkey = lkey, mr_flags = flags\<rparr>;
              rs = (if length (dm_regions s) \<le> unat rid then resize_regions (unat (rid + 1)) (dm_regions s) else dm_regions s)
          in if length rs \<le> unat rid then (Inl Undefined, s1)
             else (Inr rid, s1\<lparr>dm_regions := rs[unat rid := region],
                    dm_catalog := upsert rid \<lparr>rde_local_addr = base_addr, rde_length = len, rde_rkey = rkey,
                                              rde_flags = ucast flags, rde_epoch = 1\<rparr> (dm_catalog s)\<rparr>))"

definition unregister_region :: "u32 \<Rightarrow> dmem \<Rightarrow> dmem" where
  "unregister_region rid s =
     (if unat rid < length (dm_regions s)
      then s\<lparr>dm_regions := (dm_regions s)[unat rid := null_region], dm_catalog := catalog_remove rid (dm_catalog s)\<rparr> else s)"

definition register_buffer :: "(u32 \<times> u32) option \<Rightarrow> u64 \<Rightarrow> u64 \<Rightarrow> u8 \<Rightarrow> dmem \<Rightarrow> (failure, dmem, u32) res" where
  "register_buffer = register_region"

section \<open>Address resolution\<close>

definition lookup_remote :: "u16 \<Rightarrow> u32 \<Rightarrow> dmem \<Rightarrow> (u64 \<times> u32 \<times> u64) option" where
  "lookup_remote node rid s = map_option (\<lambda>e. (rde_local_addr e, rde_rkey e, rde_length e)) (catalog_lookup (dm_catalog s) node rid)"

definition resolve :: "GlobalAddress \<Rightarrow> dmem \<Rightarrow> AddrResolution" where
  "resolve addr s =
     (if ga_node_id addr = dm_node_id s
      then (if unat (ga_region_id addr) < length (dm_regions s)
            then let r = dm_regions s ! unat (ga_region_id addr) in
              if 0 < mr_length r \<and> ga_offset addr < mr_length r
              then no_resolution\<lparr>is_local := True, local_ptr := mr_local_addr r + ga_offset addr,
                                 local_lkey := mr_lkey r, res_length := mr_length r - ga_offset addr\<rparr>
              else no_resolution
            else no_resolution)
      else case lookup_remote (ga_node_id addr) (ga_region_id addr) s of
        None \<Rightarrow> no_resolution
      | Some (raddr, rkey, len) \<Rightarrow>
          if ga_offset addr < len
          then no_resolution\<lparr>remote_addr := raddr + ga_offset addr, remote_rkey := rkey, res_length := len - ga_offset addr\<rparr>
          else no_resolution\<lparr>remote_addr := raddr, remote_rkey := rkey, res_length := 0\<rparr>)"

section \<open>One-sided operations\<close>

text \<open>The connection to a peer; the vector is indexed without a check.\<close>

definition peer_conn :: "u16 \<Rightarrow> dmem \<Rightarrow> failure + RdmaConnection" where
  "peer_conn target s =
     (if length (peer_conns s) \<le> unat target then Inl Undefined
      else case peer_conns s ! unat target of
        Some c \<Rightarrow> if conn_ok c then Inr c else Inl (dmem_error (''no connection to node '' @ to_string (unat target)))
      | None \<Rightarrow> Inl (dmem_error (''no connection to node '' @ to_string (unat target))))"

text \<open>The next request number, and handing a request to the card.\<close>

definition fetch_wr_id :: "dmem \<Rightarrow> u64 \<times> dmem" where
  "fetch_wr_id s = (next_wr_id s, s\<lparr>next_wr_id := next_wr_id s + 1\<rparr>)"

definition post_to :: "dmem_env \<Rightarrow> u16 \<Rightarrow> RdmaConnection \<Rightarrow> ibv_send_wr \<Rightarrow> dmem \<Rightarrow> bool \<times> dmem" where
  "post_to env target c wr s =
     (let (ok, calls) = post (accepts env target) c wr in
      (ok, if ok then s\<lparr>posted := posted s @ [(target, wr, staging s)]\<rparr> else s))"

definition staging_sge :: "dmem_env \<Rightarrow> nat \<Rightarrow> ibv_sge" where
  "staging_sge env n = to_sge (staging_base env) (staging_lkey env) 0 (word_of_nat n)"

text \<open>The chunks of a transfer: offset and size.\<close>

function chunk_list :: "nat \<Rightarrow> nat \<Rightarrow> (nat \<times> nat) list" where
  "chunk_list len remaining =
     (if remaining = 0 then []
      else let chunk = min remaining kRdmaBufSize in (len - remaining, chunk) # chunk_list len (remaining - chunk))"
  by pat_completeness auto
termination by (relation "measure snd") (auto simp: kRdmaBufSize_def)

declare chunk_list.simps [simp del]

definition put_one :: "dmem_env \<Rightarrow> u16 \<Rightarrow> RdmaConnection \<Rightarrow> u64 \<Rightarrow> u32 \<Rightarrow> u64 \<Rightarrow> string \<Rightarrow> nat \<times> nat \<Rightarrow> dmem \<Rightarrow> (failure, dmem, u64) res" where
  "put_one env target c raddr rkey src msg ch s =
     (let (off, n) = ch;
          s1 = stage (mem_read (dm_mem s) (src + word_of_nat off)) n s;
          (w, s2) = fetch_wr_id s1;
          (ok, s3) = post_to env target c (rdma_request IBV_WR_RDMA_WRITE (staging_sge env n) (raddr + word_of_nat off) rkey w True) s2
      in (if ok then Inr w else Inl (dmem_error msg), s3))"

fun put_loop :: "dmem_env \<Rightarrow> u16 \<Rightarrow> RdmaConnection \<Rightarrow> u64 \<Rightarrow> u32 \<Rightarrow> u64 \<Rightarrow> (nat \<times> nat) list \<Rightarrow> u64 \<Rightarrow> dmem \<Rightarrow> (failure, dmem, u64) res" where
  "put_loop env target c raddr rkey src [] last_wr_id s = (Inr last_wr_id, s)"
| "put_loop env target c raddr rkey src (ch # chs) last_wr_id s =
     (case put_one env target c raddr rkey src ''chunked post_rdma_write failed'' ch s of
        (Inl e, s1) \<Rightarrow> (Inl e, s1)
      | (Inr w, s1) \<Rightarrow> put_loop env target c raddr rkey src chs w s1)"

definition put_chunked :: "dmem_env \<Rightarrow> u16 \<Rightarrow> u64 \<Rightarrow> u32 \<Rightarrow> u64 \<Rightarrow> nat \<Rightarrow> dmem \<Rightarrow> (failure, dmem, u64) res" where
  "put_chunked env target raddr rkey src len s =
     (case peer_conn target s of
        Inl e \<Rightarrow> (Inl e, s)
      | Inr c \<Rightarrow>
          if len \<le> kRdmaBufSize
          then (case put_one env target c raddr rkey src ''post_rdma_write failed'' (0, len) s of
                  (Inl e, s1) \<Rightarrow> (Inl e, s1)
                | (Inr w, s1) \<Rightarrow> (Inr w, s1\<lparr>pending_ops := pending_ops s1 @ [w]\<rparr>))
          else put_loop env target c raddr rkey src (chunk_list len len) 0 s)"

text \<open>One chunk of a get. The result of \<open>poll_completion\<close> is not used; the data has arrived by then, or not.\<close>

definition get_one :: "dmem_env \<Rightarrow> u16 \<Rightarrow> RdmaConnection \<Rightarrow> u64 \<Rightarrow> u32 \<Rightarrow> u64 \<Rightarrow> nat \<times> nat \<Rightarrow> dmem \<Rightarrow> (failure, dmem, u64) res" where
  "get_one env target c raddr rkey dst ch s =
     (let (off, n) = ch;
          (w, s1) = fetch_wr_id s;
          (ok, s2) = post_to env target c (rdma_request IBV_WR_RDMA_READ (staging_sge env n) (raddr + word_of_nat off) rkey w True) s1
      in if \<not> ok then (Inl (dmem_error ''post_rdma_read failed''), s2)
         else let s3 = (if read_arrived env w then stage (mem_read (remote_mem env target) (raddr + word_of_nat off)) n s2 else s2)
           in (Inr w, s3\<lparr>dm_mem := mem_write (dm_mem s3) (dst + word_of_nat off) n (staging s3)\<rparr>))"

fun get_loop :: "dmem_env \<Rightarrow> u16 \<Rightarrow> RdmaConnection \<Rightarrow> u64 \<Rightarrow> u32 \<Rightarrow> u64 \<Rightarrow> (nat \<times> nat) list \<Rightarrow> u64 \<Rightarrow> dmem \<Rightarrow> (failure, dmem, u64) res" where
  "get_loop env target c raddr rkey dst [] last_wr_id s = (Inr last_wr_id, s)"
| "get_loop env target c raddr rkey dst (ch # chs) last_wr_id s =
     (case get_one env target c raddr rkey dst ch s of
        (Inl e, s1) \<Rightarrow> (Inl e, s1)
      | (Inr w, s1) \<Rightarrow> get_loop env target c raddr rkey dst chs w s1)"

definition get_chunked :: "dmem_env \<Rightarrow> u16 \<Rightarrow> u64 \<Rightarrow> u32 \<Rightarrow> u64 \<Rightarrow> nat \<Rightarrow> dmem \<Rightarrow> (failure, dmem, u64) res" where
  "get_chunked env target raddr rkey dst len s =
     (case peer_conn target s of
        Inl e \<Rightarrow> (Inl e, s)
      | Inr c \<Rightarrow> get_loop env target c raddr rkey dst (chunk_list len len) 0 s)"

definition bounds_message :: "string \<Rightarrow> u64 \<Rightarrow> u64 \<Rightarrow> failure" where
  "bounds_message op len avail =
     dmem_error (op @ '' length '' @ to_string (unat len) @ '' exceeds region bounds '' @ to_string (unat avail))"

definition dmem_put :: "dmem_env \<Rightarrow> u16 \<Rightarrow> GlobalAddress \<Rightarrow> u64 \<Rightarrow> u64 \<Rightarrow> dmem \<Rightarrow> (failure, dmem, u64) res" where
  "dmem_put env target dst_addr src len s =
     (let r = resolve dst_addr s in
      if is_local r \<and> target \<noteq> dm_node_id s then (Inl (dmem_error ''put target is local but node_id mismatch''), s)
      else if res_length r < len then (Inl (bounds_message ''put'' len (res_length r)), s)
      else if remote_rkey r = 0 \<and> \<not> is_local r then (Inl (dmem_error ''put target not found in catalog''), s)
      else if is_local r
      then (Inr 0, s\<lparr>dm_mem := mem_write (dm_mem s) (local_ptr r) (unat len) (mem_read (dm_mem s) src)\<rparr>)
      else put_chunked env target (remote_addr r) (remote_rkey r) src (unat len) s)"

definition dmem_get :: "dmem_env \<Rightarrow> u16 \<Rightarrow> GlobalAddress \<Rightarrow> u64 \<Rightarrow> u64 \<Rightarrow> dmem \<Rightarrow> (failure, dmem, u64) res" where
  "dmem_get env target src_addr dst len s =
     (let r = resolve src_addr s in
      if res_length r < len then (Inl (bounds_message ''get'' len (res_length r)), s)
      else if remote_rkey r = 0 \<and> \<not> is_local r then (Inl (dmem_error ''get source not found in catalog''), s)
      else if is_local r
      then (Inr 0, s\<lparr>dm_mem := mem_write (dm_mem s) dst (unat len) (mem_read (dm_mem s) (local_ptr r))\<rparr>)
      else get_chunked env target (remote_addr r) (remote_rkey r) dst (unat len) s)"

definition put_with_imm :: "dmem_env \<Rightarrow> u16 \<Rightarrow> GlobalAddress \<Rightarrow> u64 \<Rightarrow> u64 \<Rightarrow> u32 \<Rightarrow> dmem \<Rightarrow> (failure, dmem, u64) res" where
  "put_with_imm env target dst_addr src len imm s =
     (let r = resolve dst_addr s in
      if is_local r then (Inl (dmem_error ''put_with_imm requires remote target''), s)
      else if kRdmaBufSize < unat len then (Inl (dmem_error ''put_with_imm limited to staging buffer size''), s)
      else if res_length r < len then (Inl (dmem_error ''put_with_imm length exceeds region bounds''), s)
      else case peer_conn target s of
        Inl e \<Rightarrow> (Inl e, s)
      | Inr c \<Rightarrow>
          let s1 = stage (mem_read (dm_mem s) src) (unat len) s;
              (w, s2) = fetch_wr_id s1;
              (ok, s3) = post_to env target c (imm_request (staging_sge env (unat len)) (remote_addr r) (remote_rkey r) imm w) s2
          in (if ok then Inr w else Inl (dmem_error ''post_rdma_write_with_imm failed''), s3))"

definition dmem_fence :: "dmem_env \<Rightarrow> u16 \<Rightarrow> dmem \<Rightarrow> (failure, dmem, u64) res" where
  "dmem_fence env target s =
     (case peer_conn target s of
        Inl Undefined \<Rightarrow> (Inl Undefined, s)
      | Inl e \<Rightarrow> (Inr 0, s)
      | Inr c \<Rightarrow>
          let (w, s1) = fetch_wr_id s; (ok, s2) = post_to env target c (fence_request w) s1
          in (if ok then Inr w else Inl (dmem_error ''post_fence failed''), s2))"

definition peer_connection :: "u16 \<Rightarrow> dmem \<Rightarrow> RdmaConnection option" where
  "peer_connection node s = (if MAX_NODES \<le> unat node then None else peer_conns s ! unat node)"

section \<open>Completions\<close>

datatype wc_opcode = WC_SEND | WC_RDMA_WRITE | WC_RDMA_READ | WC_RECV

record ibv_wc =
  wc_wr_id :: u64
  wc_success :: bool
  wc_opc :: wc_opcode
  wc_byte_len :: u32

text \<open>The results of successive \<open>ibv_poll_cq\<close> calls before the deadline: an error or a batch.\<close>

datatype poll_result = PollError | Batch "ibv_wc list"

fun poll_completion :: "u64 \<Rightarrow> poll_result list \<Rightarrow> bool" where
  "poll_completion w [] = False"
| "poll_completion w (PollError # ps) = False"
| "poll_completion w (Batch wcs # ps) =
     (case find (\<lambda>wc. wc_wr_id wc = w) wcs of Some wc \<Rightarrow> wc_success wc | None \<Rightarrow> poll_completion w ps)"

text \<open>\<open>drain_pending\<close>, given the results of its calls of \<open>poll_completion\<close> (one more than it makes is harmless).\<close>

fun drain_pending :: "bool list \<Rightarrow> u64 list \<Rightarrow> u64 list" where
  "drain_pending outcomes [] = []"
| "drain_pending [] ops = ops"
| "drain_pending (ok # oks) ops =
     (let w = last ops in
      if w = 0 \<or> \<not> ok then ops else drain_pending oks (dropWhile (\<lambda>v. v \<le> w) ops))"

definition count_completion :: "ibv_wc \<Rightarrow> dmem_stats \<Rightarrow> dmem_stats" where
  "count_completion wc st =
     (if \<not> wc_success wc then st\<lparr>error_count := error_count st + 1\<rparr>
      else if wc_opc wc = WC_RDMA_WRITE then st\<lparr>put_bytes := put_bytes st + ucast (wc_byte_len wc), put_ops := put_ops st + 1\<rparr>
      else if wc_opc wc = WC_RDMA_READ then st\<lparr>get_bytes := get_bytes st + ucast (wc_byte_len wc), get_ops := get_ops st + 1\<rparr>
      else st)"

text \<open>One iteration of \<open>poller_loop\<close>. The promise of a pending operation, which it fulfils and which nobody waits for, is left out.\<close>

definition poller_iteration :: "poll_result \<Rightarrow> dmem \<Rightarrow> dmem" where
  "poller_iteration p s =
     (if \<not> dm_running s then s
      else case p of PollError \<Rightarrow> s\<lparr>dm_running := False\<rparr> | Batch wcs \<Rightarrow> s\<lparr>dmem_counters := fold count_completion wcs (dmem_counters s)\<rparr>)"

section \<open>Chunks\<close>

text \<open>A list of pieces tiles \<open>[a, b)\<close> with pieces of at most \<open>k\<close>.\<close>

fun tiles :: "nat \<Rightarrow> nat \<Rightarrow> nat \<Rightarrow> (nat \<times> nat) list \<Rightarrow> bool" where
  "tiles k a b [] = (a = b)"
| "tiles k a b ((off, n) # chs) = (off = a \<and> 0 < n \<and> n \<le> k \<and> tiles k (a + n) b chs)"

lemma tiles_le: "tiles k a b chs \<Longrightarrow> a \<le> b"
  by (induction k a b chs rule: tiles.induct) auto

lemma chunk_list_tiles: "remaining \<le> len \<Longrightarrow> tiles kRdmaBufSize (len - remaining) len (chunk_list len remaining)"
proof (induction len remaining rule: chunk_list.induct)
  case (1 len remaining)
  show ?case
  proof (cases "remaining = 0")
    case False
    let ?n = "min remaining kRdmaBufSize"
    have "len - remaining + ?n = len - (remaining - ?n)" "0 < ?n" using 1(2) False by (auto simp: kRdmaBufSize_def)
    then show ?thesis using 1 False by (subst chunk_list.simps) (simp add: Let_def)
  qed (subst chunk_list.simps, simp)
qed

section \<open>Transfers move exactly the bytes asked for\<close>

text \<open>Piece \<open>[a, a + n)\<close> of a transfer, in terms of the distance from the start of the transfer.\<close>

lemma piece_distance:
  fixes d :: u64
  assumes "a + n \<le> 2 ^ 64"
  shows "unat (d - word_of_nat a) < n \<longleftrightarrow> a \<le> unat d \<and> unat d < a + n"
    and "a \<le> unat d \<Longrightarrow> 0 < n \<Longrightarrow> unat (d - word_of_nat a) = unat d - a"
proof -
  have d: "unat d < 2 ^ 64" using unsigned_less [of d] by simp
  show eq: "unat (d - word_of_nat a) = unat d - a" if "a \<le> unat d" "0 < n"
  proof -
    have "unat (word_of_nat a :: u64) = a" using that assms by (intro unat_word_of_nat_less) simp
    then show ?thesis using that by (simp add: unat_sub word_le_nat_alt)
  qed
  show "unat (d - word_of_nat a) < n \<longleftrightarrow> a \<le> unat d \<and> unat d < a + n"
  proof (cases "n = 0 \<or> a \<le> unat d")
    case True
    then show ?thesis using eq assms by auto
  next
    case False
    then have a: "unat (word_of_nat a :: u64) = a" using assms by (intro unat_word_of_nat_less) simp
    have "\<not> (word_of_nat a :: u64) \<le> d" using False by (simp add: word_le_nat_alt a)
    then have "unat (d - word_of_nat a) = unat d + 2 ^ 64 - a" using a by (simp add: unat_sub_if_size word_le_nat_alt word_size)
    then show ?thesis using False assms by simp
  qed
qed

lemma mem_write_piece:
  assumes "a + n \<le> 2 ^ 64"
  shows "mem_write m (base + word_of_nat a) n (\<lambda>i. f (a + i)) x =
     (if a \<le> unat (x - base) \<and> unat (x - base) < a + n then f (unat (x - base)) else m x)"
proof -
  have e: "x - (base + word_of_nat a) = (x - base) - word_of_nat a" by simp
  show ?thesis
    unfolding mem_write_def e piece_distance(1) [OF assms] using piece_distance(2) [OF assms, of "x - base"] by auto
qed

lemma mem_read_piece: "mem_read m (base + word_of_nat a) = (\<lambda>i. mem_read m base (a + i))"
  by (simp add: mem_read_def add.assoc)

text \<open>The effect of a write request on the target's memory, if the card reads these bytes from the staging buffer.\<close>

definition write_effect :: "ibv_send_wr \<Rightarrow> (nat \<Rightarrow> u8) \<Rightarrow> (u64 \<Rightarrow> u8) \<Rightarrow> u64 \<Rightarrow> u8" where
  "write_effect wr bytes m = mem_write m (wr_remote_addr wr) (unat (sge_length (hd (sg_list wr)))) bytes"

text \<open>All requests executed as they are posted, and all executed after the last was posted.\<close>

definition eager_effect :: "(u16 \<times> ibv_send_wr \<times> (nat \<Rightarrow> u8)) list \<Rightarrow> (u64 \<Rightarrow> u8) \<Rightarrow> u64 \<Rightarrow> u8" where
  "eager_effect ps m = fold (\<lambda>(t, wr, bytes). write_effect wr bytes) ps m"

definition late_effect :: "dmem \<Rightarrow> (u16 \<times> ibv_send_wr \<times> (nat \<Rightarrow> u8)) list \<Rightarrow> (u64 \<Rightarrow> u8) \<Rightarrow> u64 \<Rightarrow> u8" where
  "late_effect s ps m = fold (\<lambda>(t, wr, _). write_effect wr (staging s)) ps m"

definition usable :: "dmem_env \<Rightarrow> u16 \<Rightarrow> RdmaConnection \<Rightarrow> bool" where
  "usable env target c \<longleftrightarrow> conn_fns c \<and> conn_qp c \<noteq> None \<and> (\<forall>wr. accepts env target wr)"

lemma put_one_ok:
  assumes "usable env target c"
  shows "put_one env target c raddr rkey src msg (off, n) s =
     (let s1 = stage (mem_read (dm_mem s) (src + word_of_nat off)) n s;
          wr = rdma_request IBV_WR_RDMA_WRITE (staging_sge env n) (raddr + word_of_nat off) rkey (next_wr_id s) True
      in (Inr (next_wr_id s), s1\<lparr>next_wr_id := next_wr_id s + 1, posted := posted s @ [(target, wr, staging s1)]\<rparr>))"
  using assms by (simp add: put_one_def stage_def fetch_wr_id_def post_to_def post_def usable_def Let_def)

lemma mem_write_cong: "(\<And>i. i < n \<Longrightarrow> f i = g i) \<Longrightarrow> mem_write m a n f = mem_write m a n g"
  by (auto simp: mem_write_def)

lemma put_one_effect:
  assumes "usable env target c" and "n < 2 ^ 32" and "off + n \<le> 2 ^ 64"
  obtains s' wr bytes where "put_one env target c raddr rkey src msg (off, n) s = (Inr (next_wr_id s), s')" "dm_mem s' = dm_mem s"
    "peer_conns s' = peer_conns s" "posted s' = posted s @ [(target, wr, bytes)]" "staging s' = bytes"
    "wr_remote_addr wr = raddr + word_of_nat off" "unat (sge_length (hd (sg_list wr))) = n"
    "\<forall>i < n. bytes i = mem_read (dm_mem s) src (off + i)"
proof (rule that)
  let ?s = "snd (put_one env target c raddr rkey src msg (off, n) s)"
  let ?wr = "rdma_request IBV_WR_RDMA_WRITE (staging_sge env n) (raddr + word_of_nat off) rkey (next_wr_id s) True"
  note ok = put_one_ok [OF assms(1), of raddr rkey src msg off n s]
  show "put_one env target c raddr rkey src msg (off, n) s = (Inr (next_wr_id s), ?s)" by (simp add: ok Let_def)
  show "posted ?s = posted s @ [(target, ?wr, staging ?s)]" by (simp add: ok Let_def)
  show "wr_remote_addr ?wr = raddr + word_of_nat off" by (simp add: rdma_request_def)
  show "unat (sge_length (hd (sg_list ?wr))) = n"
    using assms(2) by (simp add: rdma_request_def staging_sge_def to_sge_def unat_word_of_nat_less)
  show "\<forall>i < n. staging ?s i = mem_read (dm_mem s) src (off + i)" by (simp add: ok Let_def stage_def mem_read_piece)
qed (simp_all add: put_one_ok [OF assms(1)] Let_def stage_def)

text \<open>A loop of puts, requests executed as they are posted.\<close>

lemma put_loop_effect:
  assumes "usable env target c"
  shows "tiles kRdmaBufSize a b chs \<Longrightarrow> b \<le> 2 ^ 64 \<Longrightarrow>
     \<exists>w s' ps. put_loop env target c raddr rkey src chs w0 s = (Inr w, s') \<and> posted s' = posted s @ ps \<and> dm_mem s' = dm_mem s \<and>
       (\<forall>m x. eager_effect ps m x =
          (if a \<le> unat (x - raddr) \<and> unat (x - raddr) < b then mem_read (dm_mem s) src (unat (x - raddr)) else m x))"
proof (induction kRdmaBufSize a b chs arbitrary: s w0 rule: tiles.induct)
  case (1 a b)
  then show ?case by (auto simp: eager_effect_def)
next
  case (2 a b off n chs)
  then have t: "off = a" "n \<le> kRdmaBufSize" "tiles kRdmaBufSize (a + n) b chs" by auto
  have len: "n < 2 ^ 32" "off + n \<le> 2 ^ 64" "a + n \<le> b" using t tiles_le [OF t(3)] 2(3) by (auto simp: kRdmaBufSize_def)
  from put_one_effect [OF assms(1) len(1,2), of raddr rkey src "''chunked post_rdma_write failed''" s]
  obtain s1 wr bytes where one: "put_one env target c raddr rkey src ''chunked post_rdma_write failed'' (off, n) s = (Inr (next_wr_id s), s1)"
    "dm_mem s1 = dm_mem s" "posted s1 = posted s @ [(target, wr, bytes)]" "wr_remote_addr wr = raddr + word_of_nat off"
    "unat (sge_length (hd (sg_list wr))) = n" "\<forall>i < n. bytes i = mem_read (dm_mem s) src (off + i)" by metis
  obtain w s' ps where rest: "put_loop env target c raddr rkey src chs (next_wr_id s) s1 = (Inr w, s')" "posted s' = posted s1 @ ps"
    "dm_mem s' = dm_mem s1" "\<And>m x. eager_effect ps m x =
       (if a + n \<le> unat (x - raddr) \<and> unat (x - raddr) < b then mem_read (dm_mem s1) src (unat (x - raddr)) else m x)"
    using 2(1) [OF t(3) 2(3), of "next_wr_id s" s1] by blast
  have "write_effect wr bytes m = mem_write m (raddr + word_of_nat a) n (\<lambda>i. mem_read (dm_mem s) src (a + i))" for m
    unfolding write_effect_def one(4,5) t(1) using one(6) t(1) by (intro mem_write_cong) auto
  then have "eager_effect ((target, wr, bytes) # ps) m x =
      (if a \<le> unat (x - raddr) \<and> unat (x - raddr) < b then mem_read (dm_mem s) src (unat (x - raddr)) else m x)" for m x
    using rest(4) [of "write_effect wr bytes m" x] len t(1) one(2) mem_write_piece [of a n m raddr "mem_read (dm_mem s) src" x]
    by (auto simp: eager_effect_def)
  then show ?case
    using one(1-3) rest(1-3) by (intro exI [of _ w] exI [of _ s'] exI [of _ "(target, wr, bytes) # ps"]) auto
qed

lemma get_one_ok:
  assumes "usable env target c" and "read_arrived env (next_wr_id s)" and "off + n \<le> 2 ^ 64"
  shows "\<exists>s'. get_one env target c raddr rkey dst (off, n) s = (Inr (next_wr_id s), s') \<and> next_wr_id s' = next_wr_id s + 1 \<and>
     (\<forall>x. dm_mem s' x = (if off \<le> unat (x - dst) \<and> unat (x - dst) < off + n then mem_read (remote_mem env target) raddr (unat (x - dst)) else dm_mem s x))"
proof -
  have "mem_write m (dst + word_of_nat off) n (\<lambda>i. if i < n then mem_read (remote_mem env target) (raddr + word_of_nat off) i else st i) =
      mem_write m (dst + word_of_nat off) n (\<lambda>i. mem_read (remote_mem env target) raddr (off + i))" for m st
    by (intro mem_write_cong) (simp add: mem_read_piece)
  then show ?thesis
    using assms(1,2) mem_write_piece [OF assms(3)]
    by (simp add: get_one_def fetch_wr_id_def post_to_def post_def usable_def stage_def Let_def)
qed

lemma get_loop_effect:
  assumes "usable env target c" and "\<forall>w. read_arrived env w"
  shows "tiles kRdmaBufSize a b chs \<Longrightarrow> b \<le> 2 ^ 64 \<Longrightarrow>
     \<exists>w s'. get_loop env target c raddr rkey dst chs w0 s = (Inr w, s') \<and>
       (\<forall>x. dm_mem s' x = (if a \<le> unat (x - dst) \<and> unat (x - dst) < b then mem_read (remote_mem env target) raddr (unat (x - dst)) else dm_mem s x))"
proof (induction kRdmaBufSize a b chs arbitrary: s w0 rule: tiles.induct)
  case (2 a b off n chs)
  then have t: "off = a" "tiles kRdmaBufSize (a + n) b chs" by auto
  have len: "off + n \<le> 2 ^ 64" "a + n \<le> b" using t tiles_le [OF t(2)] 2(3) by auto
  obtain s1 where one: "get_one env target c raddr rkey dst (off, n) s = (Inr (next_wr_id s), s1)"
    "\<And>x. dm_mem s1 x = (if off \<le> unat (x - dst) \<and> unat (x - dst) < off + n then mem_read (remote_mem env target) raddr (unat (x - dst)) else dm_mem s x)"
    using get_one_ok [OF assms(1) _ len(1)] assms(2) by blast
  obtain w s' where "get_loop env target c raddr rkey dst chs (next_wr_id s) s1 = (Inr w, s')"
    "\<And>x. dm_mem s' x = (if a + n \<le> unat (x - dst) \<and> unat (x - dst) < b then mem_read (remote_mem env target) raddr (unat (x - dst)) else dm_mem s1 x)"
    using 2(1) [OF t(2) 2(3), of "next_wr_id s" s1] by blast
  then show ?case using one len t(1) by (intro exI [of _ w] exI [of _ s']) auto
qed auto

lemma peer_conn_usable:
  assumes "unat target < length (peer_conns s)" and "peer_conns s ! unat target = Some c" and "usable env target c"
  shows "peer_conn target s = Inr c"
  using assms by (simp add: peer_conn_def usable_def conn_ok_def)

lemma put_chunked_effect:
  assumes "unat target < length (peer_conns s)" and "peer_conns s ! unat target = Some c" and "usable env target c" and "len < 2 ^ 64"
  shows "\<exists>w s' ps. put_chunked env target raddr rkey src len s = (Inr w, s') \<and> posted s' = posted s @ ps \<and> dm_mem s' = dm_mem s \<and>
     (\<forall>m x. eager_effect ps m x = (if unat (x - raddr) < len then mem_read (dm_mem s) src (unat (x - raddr)) else m x))"
proof (cases "len \<le> kRdmaBufSize")
  case True
  then have len: "len < 2 ^ 32" "0 + len \<le> 2 ^ 64" by (auto simp: kRdmaBufSize_def)
  from put_one_effect [OF assms(3) len, of raddr rkey src "''post_rdma_write failed''" s]
  obtain s1 wr bytes where one: "put_one env target c raddr rkey src ''post_rdma_write failed'' (0, len) s = (Inr (next_wr_id s), s1)"
    "dm_mem s1 = dm_mem s" "posted s1 = posted s @ [(target, wr, bytes)]" "wr_remote_addr wr = raddr + word_of_nat 0"
    "unat (sge_length (hd (sg_list wr))) = len" "\<forall>i < len. bytes i = mem_read (dm_mem s) src (0 + i)" by metis
  have "write_effect wr bytes m x = (if unat (x - raddr) < len then mem_read (dm_mem s) src (unat (x - raddr)) else m x)" for m x
    using one(6) unfolding write_effect_def mem_write_def one(4,5) by simp
  then show ?thesis
    using one(1-3) True peer_conn_usable [OF assms(1-3)]
    by (intro exI [of _ "next_wr_id s"] exI [of _ "s1\<lparr>pending_ops := pending_ops s1 @ [next_wr_id s]\<rparr>"] exI [of _ "[(target, wr, bytes)]"])
      (simp add: put_chunked_def eager_effect_def)
next
  case False
  have "tiles kRdmaBufSize 0 len (chunk_list len len)" using chunk_list_tiles [of len len] by simp
  from put_loop_effect [OF assms(3) this, of raddr rkey src 0 s] show ?thesis
    using assms(4) False peer_conn_usable [OF assms(1-3)] by (simp add: put_chunked_def)
qed

lemma get_chunked_effect:
  assumes "unat target < length (peer_conns s)" and "peer_conns s ! unat target = Some c" and "usable env target c"
    and "\<forall>w. read_arrived env w" and "len < 2 ^ 64"
  shows "\<exists>w s'. get_chunked env target raddr rkey dst len s = (Inr w, s') \<and>
     (\<forall>x. dm_mem s' x = (if unat (x - dst) < len then mem_read (remote_mem env target) raddr (unat (x - dst)) else dm_mem s x))"
proof -
  have "tiles kRdmaBufSize 0 len (chunk_list len len)" using chunk_list_tiles [of len len] by simp
  from get_loop_effect [OF assms(3,4) this, of raddr rkey dst 0 s] show ?thesis
    using assms(5) peer_conn_usable [OF assms(1-3)] by (simp add: get_chunked_def)
qed

lemma resolve_remote:
  assumes "ga_node_id addr \<noteq> dm_node_id s" and "catalog_lookup (dm_catalog s) (ga_node_id addr) (ga_region_id addr) = Some e"
    and "ga_offset addr < rde_length e"
  shows "resolve addr s = no_resolution\<lparr>remote_addr := rde_local_addr e + ga_offset addr, remote_rkey := rde_rkey e, res_length := rde_length e - ga_offset addr\<rparr>"
  using assms by (simp add: resolve_def lookup_remote_def)

lemma fits_in_region:
  fixes off n len :: u64
  assumes "unat off + unat n \<le> unat len" and "0 < n"
  shows "off < len \<and> \<not> len - off < n"
proof -
  have "0 < unat n" using assms(2) by (simp add: unat_gt_0 word_gt_0)
  then have "off < len" using assms(1) by (simp add: word_less_nat_alt)
  then have "unat (len - off) = unat len - unat off" by (simp add: unat_sub)
  then show ?thesis using \<open>off < len\<close> assms(1) by (simp add: word_less_nat_alt)
qed


definition example_setup :: dmem_setup where
  "example_setup = \<lparr>su_available = True, su_device_count = Some 1, su_context = True, su_pd = Some 1, su_cq = True,
     su_catalog_addr = Some 4096, su_catalog_mr = Some 11, su_staging_addr = Some 8192, su_staging_mr = Some 12\<rparr>"

definition open_connection :: RdmaConnection where
  "open_connection = \<lparr>conn_fns = True, conn_ctx = Some 1, conn_pd = Some 2, conn_cq = Some 3, conn_qp = Some 4\<rparr>"

definition example_entry :: RegionDirectoryEntry where
  "example_entry = \<lparr>rde_local_addr = 0x10000, rde_length = 0x400000, rde_rkey = 77, rde_flags = 3, rde_epoch = 1\<rparr>"

text \<open>Node 1 with open connections and an entry for region 3 of node 0.\<close>

definition connected_dmem :: dmem where
  "connected_dmem = (projr (new_dmem example_setup (\<lambda>a. ucast a) 1))
     \<lparr>peer_conns := replicate 8 (Some open_connection), dm_catalog := upsert 3 example_entry empty_catalog\<rparr>"

definition prompt_env :: dmem_env where
  "prompt_env = \<lparr>accepts = (\<lambda>_ _. True), remote_mem = (\<lambda>_ a. ucast a + 1), read_arrived = (\<lambda>_. True), staging_base = 8192, staging_lkey = 5\<rparr>"

lemma connected_dmem_facts:
  "dm_node_id connected_dmem = 1" "peer_conns connected_dmem = replicate 8 (Some open_connection)"
  "catalog_lookup (dm_catalog connected_dmem) 0 3 = Some example_entry" "dm_mem connected_dmem = (\<lambda>a. ucast a)"
  "usable prompt_env t open_connection"
  by (simp_all add: connected_dmem_def new_dmem_def example_setup_def buf_allocate_def buf_cleanup_def register_with_def empty_buffer_def
      CATALOG_BUF_SIZE_def MAX_REGIONS_PER_NODE_def RDE_WIRE_SIZE_def kRdmaBufSize_def Let_def lookup_upsert
      usable_def open_connection_def prompt_env_def)

abbreviation example_addr :: GlobalAddress where
  "example_addr \<equiv> \<lparr>ga_node_id = 0, ga_region_id = 3, ga_offset = 16\<rparr>"

lemma example_transfer:
  "ga_node_id example_addr \<noteq> dm_node_id connected_dmem"
  "catalog_lookup (dm_catalog connected_dmem) (ga_node_id example_addr) (ga_region_id example_addr) = Some example_entry"
  "unat (ga_offset example_addr) + unat (0x200000 :: u64) \<le> unat (rde_length example_entry)" "(0 :: u64) < 0x200000" "rde_rkey example_entry \<noteq> 0"
  "unat (0 :: u16) < length (peer_conns connected_dmem)" "peer_conns connected_dmem ! unat (0 :: u16) = Some open_connection"
  "usable prompt_env 0 open_connection" "\<forall>w. read_arrived prompt_env w"
  by (simp_all add: connected_dmem_facts example_entry_def) (simp add: prompt_env_def)




section \<open>The staging buffer is reused while requests are in flight\<close>

lemma chunk_list_two: "chunk_list (2 * kRdmaBufSize) (2 * kRdmaBufSize) = [(0, kRdmaBufSize), (kRdmaBufSize, kRdmaBufSize)]"
proof -
  have "0 < kRdmaBufSize" by (simp add: kRdmaBufSize_def)
  moreover have "chunk_list n 0 = []" for n by (subst chunk_list.simps) simp
  moreover from calculation have "chunk_list (2 * kRdmaBufSize) kRdmaBufSize = [(kRdmaBufSize, kRdmaBufSize)]"
    by (subst chunk_list.simps) (simp add: Let_def)
  ultimately show ?thesis by (subst chunk_list.simps) (simp add: Let_def)
qed

text \<open>
  A put larger than the staging buffer does not wait before it overwrites the buffer with the next chunk: a card that executes the two requests of a two-chunk
  put after both were posted writes the second half of the source into both halves of the target.
\<close>

theorem put_overwrites_staging:
  assumes "unat target < length (peer_conns s)" and "peer_conns s ! unat target = Some c" and "usable env target c" and "i < kRdmaBufSize"
  shows "\<exists>w s' ps. put_chunked env target raddr rkey src (2 * kRdmaBufSize) s = (Inr w, s') \<and> posted s' = posted s @ ps \<and>
     late_effect s' ps m (raddr + word_of_nat i) = mem_read (dm_mem s) src (kRdmaBufSize + i) \<and>
     late_effect s' ps m (raddr + word_of_nat (kRdmaBufSize + i)) = mem_read (dm_mem s) src (kRdmaBufSize + i)"
proof -
  let ?K = kRdmaBufSize
  have K: "?K < 2 ^ 32" "0 + ?K \<le> 2 ^ 64" "?K + ?K \<le> 2 ^ 64" by (auto simp: kRdmaBufSize_def)
  let ?put = "put_one env target c raddr rkey src ''chunked post_rdma_write failed''"
  obtain s1 wr1 b1 where one: "?put (0, ?K) s = (Inr (next_wr_id s), s1)" "dm_mem s1 = dm_mem s" "posted s1 = posted s @ [(target, wr1, b1)]"
    "wr_remote_addr wr1 = raddr + word_of_nat 0" "unat (sge_length (hd (sg_list wr1))) = ?K"
    using put_one_effect [OF assms(3) K(1,2), of raddr rkey src "''chunked post_rdma_write failed''" s] by metis
  obtain s2 wr2 b2 where two: "?put (?K, ?K) s1 = (Inr (next_wr_id s1), s2)" "posted s2 = posted s1 @ [(target, wr2, b2)]" "staging s2 = b2"
    "wr_remote_addr wr2 = raddr + word_of_nat ?K" "unat (sge_length (hd (sg_list wr2))) = ?K" "\<forall>i < ?K. b2 i = mem_read (dm_mem s1) src (?K + i)"
    using put_one_effect [OF assms(3) K(1,3), of raddr rkey src "''chunked post_rdma_write failed''" s1] by metis
  have "put_chunked env target raddr rkey src (2 * ?K) s = (Inr (next_wr_id s1), s2)"
    using one(1) two(1) peer_conn_usable [OF assms(1-3)] unfolding put_chunked_def chunk_list_two by (simp add: kRdmaBufSize_def)
  moreover have "late_effect s2 [(target, wr1, b1), (target, wr2, b2)] m x =
      mem_write (mem_write m raddr ?K (\<lambda>i. mem_read (dm_mem s) src (?K + i))) (raddr + word_of_nat ?K) ?K (\<lambda>i. mem_read (dm_mem s) src (?K + i)) x" for x
    using one(2,4,5) two(3-6) by (simp add: late_effect_def write_effect_def mem_write_def)
  moreover have "unat (word_of_nat i :: u64) = i" "unat (word_of_nat (?K + i) :: u64) = ?K + i"
    using assms(4) K by (auto intro!: unat_word_of_nat_less simp del: of_nat_add)
  then have "mem_write (mem_write m raddr ?K f) (raddr + word_of_nat ?K) ?K f (raddr + word_of_nat i) = f i"
    "mem_write (mem_write m raddr ?K f) (raddr + word_of_nat ?K) ?K f (raddr + word_of_nat (?K + i)) = f i" for f
    using assms(4) mem_write_piece [OF K(3), of "mem_write m raddr ?K f" raddr "\<lambda>j. f (j - ?K)"] by (auto simp: mem_write_def)
  ultimately show ?thesis using one(3) two(2) by (intro exI [of _ "next_wr_id s1"] exI [of _ s2] exI [of _ "[(target, wr1, b1), (target, wr2, b2)]"]) simp
qed

theorem put_overwrites_staging_witness:
  "\<exists>w s' ps. put_chunked prompt_env 0 0x10000 77 0 (2 * kRdmaBufSize) (connected_dmem\<lparr>dm_mem := \<lambda>a. if a < 0x100000 then 1 else 2\<rparr>) = (Inr w, s') \<and>
     late_effect s' ps (\<lambda>_. 0) (0x10000 + word_of_nat 7) = 2"
proof -
  let ?s = "connected_dmem\<lparr>dm_mem := \<lambda>a. if a < 0x100000 then 1 else 2\<rparr>"
  have "7 < kRdmaBufSize" "mem_read (dm_mem ?s) 0 (kRdmaBufSize + 7) = 2" by (simp_all add: kRdmaBufSize_def mem_read_def)
  then show ?thesis
    using put_overwrites_staging [of 0 ?s open_connection prompt_env 7 "0x10000" 77 0 "\<lambda>_. 0"] by (simp add: connected_dmem_facts) metis
qed

end
