(* ===== verification/Shader_Dispatch.thy ===== *)
theory Shader_Dispatch
  imports Errors Global_Address
begin

text \<open>
  The description of a data-parallel shader dispatch and its partition across nodes:
  \<open>csrc/runtime/ShaderDispatch.hpp\<close>. The counts keep their widths (64-bit grids, 32-bit thread
  group counts); a division by zero is undefined in the language.
\<close>

record ShaderBinding =
  sb_index :: u32
  sb_buffer :: GlobalAddress
  sb_size :: u64
  is_input :: bool
  is_output :: bool

record NodeWork =
  nw_node_id :: u16
  grid_offset :: u64
  grid_size :: u64
  threadgroup_count :: u32
  nw_bindings :: "ShaderBinding list"

record ShaderDispatch =
  sd_kernel_name :: string
  sd_metallib_path :: string
  global_element_count :: u64
  threadgroup_size :: u32
  elements_per_thread :: u32
  node_work :: "NodeWork list"

record PipelineStage =
  ps_node_id :: u16
  ps_kernel_name :: string
  ps_inputs :: "ShaderBinding list"
  ps_outputs :: "ShaderBinding list"
  forward_buffer :: GlobalAddress
  forward_buffer_size :: u64
  use_slot_a :: bool

text \<open>The work of node \<open>i\<close> of \<open>n\<close>.\<close>

definition node_share :: "u64 \<Rightarrow> u32 \<Rightarrow> u32 \<Rightarrow> nat \<Rightarrow> nat \<Rightarrow> u16 \<Rightarrow> NodeWork" where
  "node_share total_elements tgs ept n i nid =
     (let elements_per_node = total_elements div word_of_nat n;
          off = word_of_nat i * elements_per_node;
          sz = (if i = n - 1 then total_elements - off else elements_per_node);
          threads = (sz + ucast ept - 1) div ucast ept
      in \<lparr>nw_node_id = nid, grid_offset = off, grid_size = sz,
          threadgroup_count = ucast ((threads + ucast tgs - 1) div ucast tgs), nw_bindings = []\<rparr>)"

definition data_parallel :: "string \<Rightarrow> string \<Rightarrow> u64 \<Rightarrow> u32 \<Rightarrow> u32 \<Rightarrow> u16 list \<Rightarrow> failure + ShaderDispatch" where
  "data_parallel kname path total_elements tgs ept node_ids =
     (if node_ids = [] \<or> ept = 0 \<or> tgs = 0 then Inl Undefined
      else Inr \<lparr>sd_kernel_name = kname, sd_metallib_path = path, global_element_count = total_elements,
                threadgroup_size = tgs, elements_per_thread = ept,
                node_work = map (\<lambda>i. node_share total_elements tgs ept (length node_ids) i (node_ids ! i)) [0..<length node_ids]\<rparr>)"

section \<open>Shares as numbers\<close>

lemma unat_of_length: "n < 2 ^ 31 \<Longrightarrow> unat (word_of_nat n :: u64) = n"
  by (rule unat_word_of_nat_less) simp

lemma share_offset:
  assumes "0 < n" and "n < 2 ^ 31" and "i < n"
  shows "unat (grid_offset (node_share total_elements tgs ept n i nid)) = i * (unat total_elements div n)"
proof -
  have "i * (unat total_elements div n) \<le> n * (unat total_elements div n)" using assms(3) by (intro mult_le_mono1) simp
  also have "\<dots> \<le> unat total_elements" by simp
  also have "\<dots> < 2 ^ 64" using unsigned_less [of total_elements] by simp
  finally have "i * (unat total_elements div n) < 2 ^ 64" .
  with assms show ?thesis
    by (simp add: node_share_def Let_def unat_word_ariths(2) unat_div_distrib unat_of_length)
qed

lemma share_size:
  assumes "0 < n" and "n < 2 ^ 31" and "i < n"
  shows "unat (grid_size (node_share total_elements tgs ept n i nid)) = unat total_elements div n + (if i = n - 1 then unat total_elements mod n else 0)"
proof (cases "i = n - 1")
  case True
  let ?off = "grid_offset (node_share total_elements tgs ept n i nid)"
  have off: "unat ?off = (n - 1) * (unat total_elements div n)" using share_offset [OF assms] True by simp
  have split: "unat total_elements = (n - 1) * (unat total_elements div n) + unat total_elements div n + unat total_elements mod n"
    using assms(1) div_mult_mod_eq [of "unat total_elements" n] by (cases n) (simp_all add: algebra_simps)
  then have "?off \<le> total_elements" unfolding word_le_nat_alt off by linarith
  moreover have "grid_size (node_share total_elements tgs ept n i nid) = total_elements - ?off" using True by (simp add: node_share_def Let_def)
  ultimately show ?thesis using split off True by (simp add: unat_sub)
next
  case False
  with assms show ?thesis by (simp add: node_share_def Let_def unat_div_distrib unat_of_length)
qed

lemma round_up_div:
  fixes a b :: nat
  assumes "0 < b"
  shows "a \<le> ((a + b - 1) div b) * b" and "(a + b - 1) div b * b < a + b" and "(a + b - 1) div b \<le> a"
proof -
  have "(a + b - 1) mod b < b" using assms by simp
  then have r: "(a + b - 1) div b * b + (b - 1) \<ge> a + b - 1" using div_mult_mod_eq [of "a + b - 1" b] by linarith
  then show "a \<le> ((a + b - 1) div b) * b" using assms by linarith
  show "(a + b - 1) div b * b < a + b" using div_times_less_eq_dividend [of "a + b - 1" b] assms by linarith
  show "(a + b - 1) div b \<le> a"
  proof (cases a)
    case (Suc k)
    have "a + b - 1 \<le> a * b" using assms Suc by simp
    then have "(a + b - 1) div b \<le> (a * b) div b" by (rule div_le_mono)
    then show ?thesis using assms by simp
  qed (use assms in simp)
qed

lemma round_twice:
  fixes sz th e g t :: nat
  assumes "sz \<le> th * e" and "th * e < sz + e" and "th \<le> g" and "g < th + t" and "0 < e"
  shows "sz \<le> g * e \<and> g * e < sz + e + t * e"
proof -
  have "th * e \<le> g * e" using assms(3) by simp
  moreover have "g * e < (th + t) * e" using assms(4,5) by simp
  ultimately show ?thesis using assms(1,2) unfolding add_mult_distrib by linarith
qed

lemma unat_round_up:
  fixes a :: u64 and b :: u32
  assumes "unat a < 2 ^ 32" and "b \<noteq> 0"
  shows "unat ((a + ucast b - 1) div ucast b) = (unat a + unat b - 1) div unat b"
proof -
  have b: "0 < unat b" using assms(2) by (simp add: unat_gt_0)
  have "unat b < 2 ^ 32" using unsigned_less [of b] by simp
  moreover from this have ub: "unat (ucast b :: u64) = unat b" by (simp add: unsigned_ucast_eq take_bit_eq_mod)
  ultimately have s: "unat (a + ucast b) = unat a + unat b" using assms(1) by (simp add: unat_word_ariths(1) ub)
  then have "(1 :: u64) \<le> a + ucast b" using b by (simp add: word_le_nat_alt)
  then have "unat (a + ucast b - 1) = unat a + unat b - 1" using s by (simp add: unat_sub)
  then show ?thesis by (simp add: unat_div_distrib ub)
qed

text \<open>The thread groups of a share cover its grid, without a superfluous one.\<close>

lemma share_threadgroups:
  assumes "unat (grid_size w) < 2 ^ 32" and "w = node_share total_elements tgs ept n i nid" and "ept \<noteq> 0" and "tgs \<noteq> 0"
  shows "unat (grid_size w) \<le> unat (threadgroup_count w) * unat tgs * unat ept"
    and "unat (threadgroup_count w) * unat tgs * unat ept < unat (grid_size w) + unat ept + unat tgs * unat ept"
proof -
  let ?sz = "unat (grid_size w)" and ?e = "unat ept" and ?t = "unat tgs"
  let ?threads = "(?sz + ?e - 1) div ?e"
  have pos: "0 < ?e" "0 < ?t" using assms(3,4) by (simp_all add: unat_gt_0)
  have th: "unat ((grid_size w + ucast ept - 1) div ucast ept) = ?threads" using unat_round_up [OF assms(1,3)] .
  have small: "?threads < 2 ^ 32" using round_up_div(3) [OF pos(1), of ?sz] assms(1) by linarith
  have "unat (((grid_size w + ucast ept - 1) div ucast ept + ucast tgs - 1) div ucast tgs) = (?threads + ?t - 1) div ?t"
    using unat_round_up [OF _ assms(4), of "(grid_size w + ucast ept - 1) div ucast ept"] small unfolding th by simp
  moreover have "(?threads + ?t - 1) div ?t < 2 ^ 32" using round_up_div(3) [OF pos(2), of ?threads] small by linarith
  moreover have "threadgroup_count w = ucast (((grid_size w + ucast ept - 1) div ucast ept + ucast tgs - 1) div ucast tgs)"
    by (simp add: assms(2) node_share_def Let_def)
  ultimately have c: "unat (threadgroup_count w) = (?threads + ?t - 1) div ?t" by (simp add: unsigned_ucast_eq take_bit_eq_mod)
  have "?sz \<le> ?threads * ?e" "?threads * ?e < ?sz + ?e" using round_up_div [OF pos(1)] by auto
  moreover have "?threads \<le> unat (threadgroup_count w) * ?t" "unat (threadgroup_count w) * ?t < ?threads + ?t"
    unfolding c using round_up_div [OF pos(2)] by auto
  ultimately show "?sz \<le> unat (threadgroup_count w) * ?t * ?e" "unat (threadgroup_count w) * ?t * ?e < ?sz + ?e + ?t * ?e"
    using round_twice [of ?sz ?threads ?e "unat (threadgroup_count w) * ?t" ?t] pos by simp_all
qed

lemma sum_shares:
  assumes "k \<le> n" and "0 < n"
  shows "(\<Sum>i\<leftarrow>[0..<k]. q + (if i = n - 1 then r else 0)) = k * q + (if k = n then r else 0 :: nat)"
  using assms by (induction k) auto



text \<open>With no node, or no threads, the partition divides by zero.\<close>

lemma data_parallel_undefined: "data_parallel kname path total_elements tgs ept [] = Inl Undefined"
  by (simp add: data_parallel_def)

end
