(* ===== verification/Metal_Runtime.thy ===== *)
theory Metal_Runtime
  imports Shader_Dispatch Agent
begin

text \<open>
  The head's runtime that drives the agents: \<open>csrc/runtime/DistributedMetalRuntime.cpp\<close>. No operation
  of the runtime looks at an answer before it goes on, so an operation is the list of actions it performs, in
  order: bytes sent to an agent, one receive of a header, calls of the coherence protocol and of the memory manager
  (which are taken to return). The agents with a connection are listed in the iteration order of the hash
  map. The toggle of \<open>use_slot_a\<close>, which assigns through a constant reference and which nothing reads,
  is left out.
\<close>

section \<open>State and construction\<close>

record LibraryEntry =
  lib_path :: string
  lib_data :: "u8 list"
  lib_handle :: nat

record runtime =
  rt_node_id :: u16
  rt_is_head :: bool
  libraries :: "LibraryEntry list"
  agent_socks :: "u16 list"
  node_ids :: "u16 list"

record runtime_config =
  rc_node_id :: u16
  rc_is_head :: bool
  agent_hosts :: "string list"

datatype construct_error = Check mccl_error | InvalidArgument | OutOfRange

text \<open>\<open>std::stoi\<close>.\<close>

definition stoi :: "string \<Rightarrow> construct_error + int" where
  "stoi s =
     (let t = dropWhile is_space s;
          neg = (t \<noteq> [] \<and> hd t = CHR ''-'');
          u = (if t \<noteq> [] \<and> hd t \<in> {CHR ''-'', CHR ''+''} then tl t else t);
          ds = takeWhile is_digit u;
          v = (if neg then - int (dec_value ds) else int (dec_value ds))
      in if ds = [] then Inl InvalidArgument
         else if v < - (2 ^ 31) \<or> 2 ^ 31 \<le> v then Inl OutOfRange else Inr v)"

text \<open>The part before the last colon and the part after it; without a colon, both are the whole string.\<close>

definition split_host :: "string \<Rightarrow> string \<times> string" where
  "split_host hp =
     (if CHR '':'' \<in> set hp
      then (rev (tl (dropWhile (\<lambda>c. c \<noteq> CHR '':'') (rev hp))), rev (takeWhile (\<lambda>c. c \<noteq> CHR '':'') (rev hp)))
      else (hp, hp))"

text \<open>Agent \<open>i\<close> (from 0) of the configuration gets the number \<open>i + 1\<close>; \<open>connects\<close> is the outcome of the connection attempts.\<close>

fun connect_agents :: "(string \<Rightarrow> u16 \<Rightarrow> bool) \<Rightarrow> nat \<Rightarrow> string list \<Rightarrow> runtime \<Rightarrow> construct_error + runtime" where
  "connect_agents connects i [] rt = Inr rt"
| "connect_agents connects i (hp # hps) rt =
     (let (host, p) = split_host hp in
      case stoi p of
        Inl e \<Rightarrow> Inl e
      | Inr v \<Rightarrow>
          connect_agents connects (Suc i) hps
            (if connects host (word_of_int v)
             then rt\<lparr>agent_socks := agent_socks rt @ [word_of_nat (Suc i)], node_ids := node_ids rt @ [word_of_nat (Suc i)]\<rparr>
             else rt))"

definition new_runtime :: "(string \<Rightarrow> u16 \<Rightarrow> bool) \<Rightarrow> runtime_config \<Rightarrow> bool \<Rightarrow> bool \<Rightarrow> construct_error + runtime" where
  "new_runtime connects cfg has_dmem has_coherence =
     (if \<not> has_dmem then Inl (Check (MCCLError ''DMR: DMEM is required''))
      else if \<not> has_coherence then Inl (Check (MCCLError ''DMR: CoherenceProtocol is required''))
      else let rt = \<lparr>rt_node_id = rc_node_id cfg, rt_is_head = rc_is_head cfg, libraries = [], agent_socks = [], node_ids = []\<rparr> in
        if rc_is_head cfg then connect_agents connects 0 (agent_hosts cfg) rt else Inr rt)"

section \<open>Actions\<close>

datatype dmr_action =
    SendBytes u16 "u8 list"
  | RecvHeader u16
  | CloseSock u16
  | ReadPage GlobalAddress bool
  | WritePageDone GlobalAddress
  | BarrierAll
  | DrainPending
  | DmemGet u16 GlobalAddress u64

definition command_header :: "AgentCmd \<Rightarrow> nat \<Rightarrow> u8 list" where
  "command_header cmd n = header_bytes \<lparr>hdr_cmd = cmd_code cmd, hdr_status = status_code OK, payload_len = word_of_nat n\<rparr>"

definition push_library_to_agent :: "u16 \<Rightarrow> nat \<Rightarrow> runtime \<Rightarrow> bool" where
  "push_library_to_agent nid handle rt \<longleftrightarrow> handle < length (libraries rt) \<and> nid \<in> set (agent_socks rt)"

text \<open>\<open>contents\<close> is the file at the path, if it can be opened. What the pushes return is not used.\<close>

definition load_library :: "u8 list option \<Rightarrow> string \<Rightarrow> runtime \<Rightarrow> (failure, runtime, nat) res" where
  "load_library contents path rt =
     (case contents of
        None \<Rightarrow> (Inl (Thrown (MCCLError (''DMR: cannot open metallib: '' @ path))), rt)
      | Some bs \<Rightarrow>
          let handle = length (libraries rt);
              rt1 = rt\<lparr>libraries := libraries rt @ [\<lparr>lib_path = path, lib_data = bs, lib_handle = handle\<rparr>]\<rparr>
          in (Inr handle, rt1))"

text \<open>\<open>strncpy\<close> of at most 63 characters into the zeroed name field.\<close>

definition kernel_name_field :: "string \<Rightarrow> u8 list" where
  "kernel_name_field name =
     (let cs = map of_char (take 63 (takeWhile (\<lambda>c. c \<noteq> CHR 0x00) name)) in cs @ replicate (64 - length cs) 0)"

definition run_request :: "string \<Rightarrow> u64 \<Rightarrow> ShaderRunRequest" where
  "run_request name n = \<lparr>kernel_name = kernel_name_field name, sr_region_id = 0, element_count = n, scale = 0, sr_op = 0\<rparr>"

text \<open>The two sends of a \<open>SHADER_RUN\<close> command, when the agent has a connection; the request is sent with its padding.\<close>

definition send_run :: "runtime \<Rightarrow> u16 \<Rightarrow> u8 list \<Rightarrow> u8 list \<Rightarrow> ShaderRunRequest \<Rightarrow> dmr_action list" where
  "send_run rt nid pad1 pad2 req =
     (if nid \<in> set (agent_socks rt)
      then [SendBytes nid (command_header SHADER_RUN SHADER_RUN_WIRE_SIZE), SendBytes nid (shader_run_image pad1 pad2 req)] else [])"

definition dispatch_data_parallel :: "runtime \<Rightarrow> ShaderDispatch \<Rightarrow> dmr_action list" where
  "dispatch_data_parallel rt d =
     concat (map (\<lambda>nw. map (\<lambda>b. ReadPage (sb_buffer b) False)
       (filter (\<lambda>b. is_input b \<and> ga_node_id (sb_buffer b) \<noteq> nw_node_id nw) (nw_bindings nw))) (node_work d)) @
     [BarrierAll] @
     concat (map (\<lambda>nw. send_run rt (nw_node_id nw) [0, 0, 0, 0] [0, 0, 0] (run_request (sd_kernel_name d) (grid_size nw))) (node_work d)) @
     concat (map (\<lambda>nw. if nw_node_id nw \<in> set (agent_socks rt) then [RecvHeader (nw_node_id nw)] else []) (node_work d)) @
     concat (map (\<lambda>nw. map (\<lambda>b. WritePageDone (sb_buffer b))
       (filter (\<lambda>b. is_output b \<and> ga_node_id (sb_buffer b) \<noteq> nw_node_id nw) (nw_bindings nw))) (node_work d)) @
     [BarrierAll]"

definition transfer_tensor :: "GlobalAddress \<Rightarrow> u64 \<Rightarrow> dmr_action list" where
  "transfer_tensor src len = [DmemGet (ga_node_id src) src len]"

definition sync_all :: "runtime \<Rightarrow> dmr_action list" where
  "sync_all rt = concat (map (\<lambda>nid. [SendBytes nid (command_header SHADER_SYNC 0), RecvHeader nid]) (agent_socks rt)) @ [BarrierAll]"

section \<open>The pipeline\<close>

text \<open>The stages are numbered; \<open>pad\<close> stands for the contents of the padding bytes in the two gaps.\<close>

definition forward_from :: "PipelineStage list \<Rightarrow> nat \<Rightarrow> dmr_action list" where
  "forward_from stages s =
     (if s < length stages - 1 then transfer_tensor (forward_buffer (stages ! s)) (forward_buffer_size (stages ! s)) else [])"

definition warm_up_stage :: "runtime \<Rightarrow> u8 list \<times> u8 list \<Rightarrow> PipelineStage list \<Rightarrow> nat \<Rightarrow> dmr_action list" where
  "warm_up_stage rt pad stages s =
     send_run rt (ps_node_id (stages ! s)) (fst pad) (snd pad)
       (run_request (ps_kernel_name (stages ! s)) (forward_buffer_size (stages ! s) div 4)) @ forward_from stages s"

definition steady_stage :: "runtime \<Rightarrow> u8 list \<times> u8 list \<Rightarrow> PipelineStage list \<Rightarrow> nat \<Rightarrow> dmr_action list" where
  "steady_stage rt pad stages s =
     (if 0 < s then [DrainPending] else []) @
     send_run rt (ps_node_id (stages ! s)) (fst pad) (snd pad)
       (run_request (ps_kernel_name (stages ! s)) (forward_buffer_size (stages ! s) div 4)) @ forward_from stages s"

definition cool_down_stage :: "runtime \<Rightarrow> u8 list \<times> u8 list \<Rightarrow> PipelineStage list \<Rightarrow> nat \<Rightarrow> dmr_action list" where
  "cool_down_stage rt pad stages s =
     send_run rt (ps_node_id (stages ! s)) (fst pad) (snd pad) (run_request (ps_kernel_name (stages ! s)) 0)"

definition warm_up :: "runtime \<Rightarrow> u8 list \<times> u8 list \<Rightarrow> PipelineStage list \<Rightarrow> nat \<Rightarrow> dmr_action list" where
  "warm_up rt pad stages M =
     concat (map (\<lambda>mb. concat (map (warm_up_stage rt pad stages) [0..<min (Suc mb) (length stages)])) [0..<min M (length stages)])"

definition steady_state :: "runtime \<Rightarrow> u8 list \<times> u8 list \<Rightarrow> PipelineStage list \<Rightarrow> nat \<Rightarrow> dmr_action list" where
  "steady_state rt pad stages M =
     concat (map (\<lambda>mb. concat (map (steady_stage rt pad stages) [0..<length stages])) [length stages..<M])"

definition cool_down :: "runtime \<Rightarrow> u8 list \<times> u8 list \<Rightarrow> PipelineStage list \<Rightarrow> nat \<Rightarrow> dmr_action list" where
  "cool_down rt pad stages M =
     concat (map (\<lambda>mb. concat (map (cool_down_stage rt pad stages) [mb - M + 1..<length stages])) [M..<M + length stages - 1])"

definition read_responses :: "runtime \<Rightarrow> PipelineStage list \<Rightarrow> nat \<Rightarrow> dmr_action list" where
  "read_responses rt stages M =
     concat (map (\<lambda>i. concat (map (\<lambda>st. if ps_node_id st \<in> set (agent_socks rt) then [RecvHeader (ps_node_id st)] else []) stages))
       [0..<M * length stages])"

definition dispatch_pipeline :: "runtime \<Rightarrow> u8 list \<times> u8 list \<Rightarrow> PipelineStage list \<Rightarrow> nat \<Rightarrow> dmr_action list" where
  "dispatch_pipeline rt pad stages M =
     warm_up rt pad stages M @ steady_state rt pad stages M @ cool_down rt pad stages M @ read_responses rt stages M @ sync_all rt"

section \<open>Disconnecting\<close>

definition disconnect_agent :: "u16 \<Rightarrow> runtime \<Rightarrow> dmr_action list \<times> runtime" where
  "disconnect_agent nid rt =
     (if nid \<in> set (agent_socks rt)
      then ([SendBytes nid (command_header SHUTDOWN 0), CloseSock nid], rt\<lparr>agent_socks := filter (\<lambda>m. m \<noteq> nid) (agent_socks rt)\<rparr>)
      else ([], rt))"

text \<open>
  The destructor iterates over the connections and erases, in the body, the entry the iterator stands at; advancing the iterator is
  then undefined.
\<close>

definition destroy_runtime :: "runtime \<Rightarrow> failure + runtime" where
  "destroy_runtime rt = (if agent_socks rt = [] then Inr rt else Inl Undefined)"

section \<open>Counting what is sent and awaited\<close>

definition runs_sent :: "u16 \<Rightarrow> dmr_action list \<Rightarrow> nat" where
  "runs_sent nid acts = count_list acts (SendBytes nid (command_header SHADER_RUN SHADER_RUN_WIRE_SIZE))"

definition answers_awaited :: "u16 \<Rightarrow> dmr_action list \<Rightarrow> nat" where
  "answers_awaited nid acts = count_list acts (RecvHeader nid)"

lemma count_list_concat_map: "count_list (concat (map f xs)) y = (\<Sum>x\<leftarrow>xs. count_list (f x) y)"
  by (induction xs) auto

lemma count_list_distinct: "distinct xs \<Longrightarrow> count_list xs y = (if y \<in> set xs then 1 else 0)"
  by (induction xs) auto

lemma length_kernel_name_field [simp]: "length (kernel_name_field name) = 64"
  by (simp add: kernel_name_field_def Let_def)

lemma image_not_header: "shader_run_image pad1 pad2 (run_request name n) \<noteq> command_header cmd k"
proof
  assume "shader_run_image pad1 pad2 (run_request name n) = command_header cmd k"
  then have "length (shader_run_image pad1 pad2 (run_request name n)) = length (command_header cmd k)" by simp
  then show False by (simp add: shader_run_image_def run_request_def command_header_def agent_header.enc_length HEADER_WIRE_SIZE_def)
qed

lemma command_header_eq: "command_header c m = command_header d n \<Longrightarrow> cmd_code c = cmd_code d"
  by (simp add: command_header_def agent_header.enc_inject)

lemma sync_not_run: "command_header SHADER_SYNC m \<noteq> command_header SHADER_RUN n"
  using command_header_eq by fastforce

lemma runs_send_run:
  "count_list (send_run rt n pad1 pad2 (run_request name k)) (SendBytes nid (command_header SHADER_RUN SHADER_RUN_WIRE_SIZE)) =
     (if n = nid \<and> nid \<in> set (agent_socks rt) then 1 else 0)"
  "count_list (send_run rt n pad1 pad2 req) (RecvHeader nid) = 0"
  by (auto simp: send_run_def image_not_header)

lemma count_forward:
  "count_list (forward_from stages s) (SendBytes nid bs) = 0" "count_list (forward_from stages s) (RecvHeader nid) = 0"
  by (simp_all add: forward_from_def transfer_tensor_def)

lemmas stage_defs = warm_up_stage_def steady_stage_def cool_down_stage_def

lemma sum_indicator: "(\<Sum>i\<leftarrow>[a..<b]. if i = s then 1 else 0 :: nat) = (if a \<le> s \<and> s < b then 1 else 0)"
  by (induction b) auto

lemma sum_from: "(\<Sum>i\<leftarrow>[0..<b]. if s \<le> i then 1 else 0 :: nat) = b - s"
  by (induction b) auto

lemma sum_below: "(\<Sum>i\<leftarrow>[M..<M + k]. if i - M < s then 1 else 0 :: nat) = min k s"
  by (induction k) auto

text \<open>A loop over consecutive stages sends one command to the agent of stage \<open>s\<close> exactly when it reaches \<open>s\<close>.\<close>

lemma runs_stages:
  assumes stage: "distinct (map ps_node_id stages)" "s < length stages" "ps_node_id (stages ! s) = nid" "nid \<in> set (agent_socks rt)"
    and "b \<le> length stages"
    and one: "\<And>i. count_list (step i) (SendBytes nid (command_header SHADER_RUN SHADER_RUN_WIRE_SIZE)) =
       (if ps_node_id (stages ! i) = nid \<and> nid \<in> set (agent_socks rt) then 1 else 0)"
  shows "runs_sent nid (concat (map step [a..<b])) = (if a \<le> s \<and> s < b then 1 else 0)"
proof -
  have "ps_node_id (stages ! i) = nid \<longleftrightarrow> i = s" if "i < length stages" for i
    using stage(1-3) that by (metis length_map nth_eq_iff_index_eq nth_map)
  then have m: "map (\<lambda>i. count_list (step i) (SendBytes nid (command_header SHADER_RUN SHADER_RUN_WIRE_SIZE))) [a..<b] =
      map (\<lambda>i. if i = s then 1 else 0) [a..<b]"
    using assms(4,5) one by (intro map_cong) auto
  show ?thesis unfolding runs_sent_def count_list_concat_map m by (rule sum_indicator)
qed

lemma runs_stage_steps:
  "count_list (warm_up_stage rt pad stages i) (SendBytes nid (command_header SHADER_RUN SHADER_RUN_WIRE_SIZE)) =
     (if ps_node_id (stages ! i) = nid \<and> nid \<in> set (agent_socks rt) then 1 else 0)"
  "count_list (steady_stage rt pad stages i) (SendBytes nid (command_header SHADER_RUN SHADER_RUN_WIRE_SIZE)) =
     (if ps_node_id (stages ! i) = nid \<and> nid \<in> set (agent_socks rt) then 1 else 0)"
  "count_list (cool_down_stage rt pad stages i) (SendBytes nid (command_header SHADER_RUN SHADER_RUN_WIRE_SIZE)) =
     (if ps_node_id (stages ! i) = nid \<and> nid \<in> set (agent_socks rt) then 1 else 0)"
  by (simp_all add: stage_defs runs_send_run count_forward)

lemma runs_phases:
  assumes "distinct (map ps_node_id stages)" and "s < length stages" and "ps_node_id (stages ! s) = nid" and "nid \<in> set (agent_socks rt)"
  shows "runs_sent nid (warm_up rt pad stages M) = min M (length stages) - s"
    and "runs_sent nid (steady_state rt pad stages M) = M - length stages"
    and "runs_sent nid (cool_down rt pad stages M) = s"
proof -
  let ?S = "length stages"
  note inner = runs_stages [OF assms _ runs_stage_steps(1)] runs_stages [OF assms _ runs_stage_steps(2)] runs_stages [OF assms _ runs_stage_steps(3)]
  have outer: "runs_sent nid (concat (map f xs)) = (\<Sum>x\<leftarrow>xs. runs_sent nid (f x))" for f and xs :: "nat list"
    by (simp add: runs_sent_def count_list_concat_map)
  have "runs_sent nid (warm_up rt pad stages M) = (\<Sum>mb\<leftarrow>[0..<min M ?S]. if s \<le> mb then 1 else 0)"
    unfolding warm_up_def using assms(2) by (subst outer) (simp add: inner less_Suc_eq_le)
  then show "runs_sent nid (warm_up rt pad stages M) = min M ?S - s" by (simp add: sum_from)
  show "runs_sent nid (steady_state rt pad stages M) = M - ?S"
    unfolding steady_state_def using assms(2) by (subst outer) (simp add: inner sum_list_triv)
  have S: "M + ?S - 1 = M + (?S - 1)" using assms(2) by simp
  have "runs_sent nid (cool_down rt pad stages M) = (\<Sum>mb\<leftarrow>[M..<M + (?S - 1)]. if mb - M < s then 1 else 0)"
    unfolding cool_down_def S using assms(2) by (subst outer) (simp add: inner Suc_le_eq)
  also have "\<dots> = s" unfolding sum_below using assms(2) by simp
  finally show "runs_sent nid (cool_down rt pad stages M) = s" .
qed

lemma answers_phases:
  "answers_awaited nid (warm_up rt pad stages M) = 0" "answers_awaited nid (steady_state rt pad stages M) = 0"
  "answers_awaited nid (cool_down rt pad stages M) = 0"
  by (simp_all add: answers_awaited_def warm_up_def steady_state_def cool_down_def count_list_concat_map stage_defs
      runs_send_run count_forward sum_list_triv)

lemma answers_responses:
  assumes "distinct (map ps_node_id stages)" and "s < length stages" and "ps_node_id (stages ! s) = nid" and "nid \<in> set (agent_socks rt)"
  shows "answers_awaited nid (read_responses rt stages M) = M * length stages"
proof -
  have "(\<Sum>st\<leftarrow>stages. count_list (if ps_node_id st \<in> set (agent_socks rt) then [RecvHeader (ps_node_id st)] else []) (RecvHeader nid)) =
      count_list (map ps_node_id stages) nid"
    using assms(4) by (induction stages) auto
  moreover have "count_list (map ps_node_id stages) nid = 1"
    using count_list_distinct [OF assms(1)] assms(2,3) by auto
  ultimately show ?thesis by (simp add: answers_awaited_def read_responses_def count_list_concat_map sum_list_triv)
qed

lemma sync_all_counts:
  assumes "distinct (agent_socks rt)" and "nid \<in> set (agent_socks rt)"
  shows "runs_sent nid (sync_all rt) = 0" and "answers_awaited nid (sync_all rt) = 1"
proof -
  have "count_list (concat (map (\<lambda>n. [SendBytes n (command_header SHADER_SYNC 0), RecvHeader n]) ns)) (RecvHeader nid) = count_list ns nid" for ns
    by (induction ns) auto
  then show "answers_awaited nid (sync_all rt) = 1" using count_list_distinct [OF assms(1), of nid] assms(2) by (simp add: answers_awaited_def sync_all_def)
  show "runs_sent nid (sync_all rt) = 0" by (simp add: runs_sent_def sync_all_def count_list_concat_map sync_not_run)
qed


definition two_stages :: "PipelineStage list" where
  "two_stages = map (\<lambda>n. \<lparr>ps_node_id = n, ps_kernel_name = ''scale'', ps_inputs = [], ps_outputs = [],
     forward_buffer = \<lparr>ga_node_id = n, ga_region_id = 1, ga_offset = 0\<rparr>, forward_buffer_size = 64, use_slot_a = True\<rparr>) [1, 2]"

definition two_agents :: runtime where
  "two_agents = \<lparr>rt_node_id = 0, rt_is_head = True, libraries = [], agent_socks = [2, 1], node_ids = [1, 2]\<rparr>"


section \<open>The head and the agent do not agree on the size of a request\<close>

definition bytes_to :: "u16 \<Rightarrow> dmr_action list \<Rightarrow> u8 list" where
  "bytes_to nid acts = concat (map (\<lambda>a. case a of SendBytes m bs \<Rightarrow> if m = nid then bs else [] | _ \<Rightarrow> []) acts)"

lemma bytes_to_append [simp]: "bytes_to nid (xs @ ys) = bytes_to nid xs @ bytes_to nid ys"
  by (simp add: bytes_to_def)

lemma bytes_to_concat: "bytes_to nid (concat (map f xs)) = concat (map (\<lambda>x. bytes_to nid (f x)) xs)"
  by (induction xs) (simp_all add: bytes_to_def)

text \<open>One entry of a list contributes, all others are silent.\<close>

lemma concat_map_single:
  assumes "distinct (map key xs)" and "x \<in> set xs"
  shows "concat (map (\<lambda>y. if key y = key x then f y else []) xs) = f x"
  using assms
proof (induction xs)
  case (Cons y ys)
  show ?case
  proof (cases "y = x")
    case True
    then have "key z \<noteq> key x" if "z \<in> set ys" for z using Cons.prems(1) that by (metis distinct.simps(2) image_eqI list.simps(9) list.set_map)
    then show ?thesis using True by simp
  next
    case False
    then have "x \<in> set ys" "key y \<noteq> key x" using Cons.prems by auto
    then show ?thesis using Cons by simp
  qed
qed simp

lemma bytes_to_sync:
  assumes "distinct (agent_socks rt)" and "nid \<in> set (agent_socks rt)"
  shows "bytes_to nid (sync_all rt) = command_header SHADER_SYNC 0"
proof -
  have "bytes_to nid (sync_all rt) = concat (map (\<lambda>n. if n = nid then command_header SHADER_SYNC 0 else []) (agent_socks rt))"
    unfolding sync_all_def bytes_to_append bytes_to_concat by (simp add: bytes_to_def)
  then show ?thesis using concat_map_single [of id "agent_socks rt" nid "\<lambda>_. command_header SHADER_SYNC 0"] assms by simp
qed

lemma bytes_to_dispatch:
  assumes "distinct (map nw_node_id (node_work d))" and "w \<in> set (node_work d)" and "nw_node_id w = nid" and "nid \<in> set (agent_socks rt)"
  shows "bytes_to nid (dispatch_data_parallel rt d) = command_header SHADER_RUN SHADER_RUN_WIRE_SIZE @
     shader_run_image [0, 0, 0, 0] [0, 0, 0] (run_request (sd_kernel_name d) (grid_size w))"
proof -
  have quiet: "bytes_to nid (map (\<lambda>b. ReadPage (g b) False) bs) = []" "bytes_to nid (map (\<lambda>b. WritePageDone (g b)) bs) = []"
    "bytes_to nid (if c then [RecvHeader n] else []) = []" "bytes_to nid [BarrierAll] = []" for g c n and bs :: "ShaderBinding list"
    by (simp_all add: bytes_to_def)
  have silent: "concat (map (\<lambda>x. []) xs) = []" for xs :: "NodeWork list" by simp
  have run: "bytes_to nid (send_run rt n p1 p2 r) =
      (if n = nid then command_header SHADER_RUN SHADER_RUN_WIRE_SIZE @ shader_run_image p1 p2 r else [])" for n p1 p2 r
    using assms(4) by (auto simp: bytes_to_def send_run_def)
  have "bytes_to nid (dispatch_data_parallel rt d) =
      concat (map (\<lambda>nw. bytes_to nid (send_run rt (nw_node_id nw) [0, 0, 0, 0] [0, 0, 0] (run_request (sd_kernel_name d) (grid_size nw)))) (node_work d))"
    unfolding dispatch_data_parallel_def bytes_to_append bytes_to_concat quiet silent by simp
  then show ?thesis unfolding run using concat_map_single [OF assms(1,2)] unfolding assms(3) by simp
qed

text \<open>The last seven bytes of the structure, which the agent leaves on the stream, are zero.\<close>

lemma run_image_split:
  "shader_run_image [0, 0, 0, 0] [0, 0, 0] (run_request name n) =
     take SHADER_RUN_WIRE_SIZE (shader_run_image [0, 0, 0, 0] [0, 0, 0] (run_request name n)) @ replicate 7 0"
  "length (take SHADER_RUN_WIRE_SIZE (shader_run_image [0, 0, 0, 0] [0, 0, 0] (run_request name n))) = SHADER_RUN_WIRE_SIZE"
  by (simp_all add: shader_run_image_def run_request_def SHADER_RUN_WIRE_SIZE_def replicate_numeral)

lemma handle_misread_sync:
  "handle_command env (replicate 7 0 @ command_header SHADER_SYNC 0) a = Some (Inr (reply 0 ERR_INTERNAL 0 [] a, tl (command_header SHADER_SYNC 0)))"
proof -
  have c: "command_header SHADER_SYNC 0 = 0x22 # replicate 7 0"
    by (simp add: command_header_def header_bytes_def to_bytes_def replicate_numeral)
  have "recv_all HEADER_WIRE_SIZE (replicate 7 0 @ command_header SHADER_SYNC 0) = Some (replicate 7 0 @ [0x22], tl (command_header SHADER_SYNC 0))"
    unfolding c by (simp add: recv_all_def HEADER_WIRE_SIZE_def)
  moreover have "hdr_cmd (read_header (replicate 7 0 @ [0x22])) = 0" by (simp add: read_header_def slice_def)
  ultimately show ?thesis by (simp add: handle_command_def)
qed

text \<open>
  Head and agent lose step after the first dispatch: the head sends the 88 bytes of the structure, the agent takes the
  81 of its wire size, so the next command of the head, here the \<open>SHADER_SYNC\<close> of \<open>sync_all\<close>, is read from the middle: the agent
  answers an error to a command 0 that nobody sent and never waits for the GPU.
\<close>

theorem dispatch_desynchronises:
  assumes "distinct (map nw_node_id (node_work d))" and "w \<in> set (node_work d)" and "nw_node_id w = nid"
    and "nid \<in> set (agent_socks rt)" and "distinct (agent_socks rt)"
  shows "handle_connection env (bytes_to nid (dispatch_data_parallel rt d @ sync_all rt)) agent_running =
     Inr \<lparr>g_running = True,
       sent_bytes = header_bytes \<lparr>hdr_cmd = cmd_code SHADER_RUN, hdr_status = status_code OK, payload_len = 0\<rparr> @
         header_bytes \<lparr>hdr_cmd = 0, hdr_status = status_code ERR_INTERNAL, payload_len = 0\<rparr>,
       agent_calls = []\<rparr>"
proof -
  let ?image = "shader_run_image [0, 0, 0, 0] [0, 0, 0] (run_request (sd_kernel_name d) (grid_size w))"
  let ?taken = "take SHADER_RUN_WIRE_SIZE ?image" and ?sync = "command_header SHADER_SYNC 0"
  let ?a1 = "reply (cmd_code SHADER_RUN) OK 0 [] agent_running" and ?a2 = "\<lambda>a. reply 0 ERR_INTERNAL 0 [] a"
  have stream: "bytes_to nid (dispatch_data_parallel rt d @ sync_all rt) =
      command_header SHADER_RUN SHADER_RUN_WIRE_SIZE @ ?taken @ replicate 7 0 @ ?sync"
    using bytes_to_dispatch [OF assms(1-4)] bytes_to_sync [OF assms(5,4)] run_image_split(1) [of "sd_kernel_name d" "grid_size w"] by simp
  have taken: "recv_all SHADER_RUN_WIRE_SIZE (?taken @ xs) = Some (?taken, xs)" for xs by (intro recv_all_append run_image_split(2))
  have run: "handle_command env (bytes_to nid (dispatch_data_parallel rt d @ sync_all rt)) agent_running = Some (Inr (?a1, replicate 7 0 @ ?sync))"
    unfolding stream command_header_def
    by (simp add: handle_command_def recv_all_append agent_header.enc_length agent_header.dec_enc_exact taken)
  have running: "g_running agent_running" "g_running (reply c st l p a) = g_running a" for c st l p a
    by (simp_all add: agent_running_def reply_def)
  have "length (tl ?sync) < HEADER_WIRE_SIZE"
    by (simp add: command_header_def agent_header.enc_length HEADER_WIRE_SIZE_def)
  then have "handle_command env (tl ?sync) (?a2 ?a1) = None" by (simp add: handle_command_def recv_all_def)
  then have "handle_connection env (tl ?sync) (?a2 ?a1) = Inr (?a2 ?a1)" by (subst handle_connection.simps) simp
  then show ?thesis
    using handle_connection_command(2) [OF _ run] handle_connection_command(2) [OF _ handle_misread_sync, of ?a1 env] running
    by (simp add: reply_def agent_running_def)
qed

theorem dispatch_desynchronises_witness:
  "\<exists>d. data_parallel ''scale'' ''a.metallib'' 10 4 2 [1, 2] = Inr d \<and>
     handle_connection example_env (bytes_to 1 (dispatch_data_parallel two_agents d @ sync_all two_agents)) agent_running =
     Inr \<lparr>g_running = True,
       sent_bytes = header_bytes \<lparr>hdr_cmd = 33, hdr_status = 0, payload_len = 0\<rparr> @ header_bytes \<lparr>hdr_cmd = 0, hdr_status = 0xFFFF, payload_len = 0\<rparr>,
       agent_calls = []\<rparr>"
proof -
  let ?d = "projr (data_parallel ''scale'' ''a.metallib'' 10 4 2 [1, 2])"
  have d: "data_parallel ''scale'' ''a.metallib'' 10 4 2 [1, 2] = Inr ?d" by (simp add: data_parallel_def)
  have "map nw_node_id (node_work ?d) = [1, 2]" "node_work ?d ! 0 \<in> set (node_work ?d)" "nw_node_id (node_work ?d ! 0) = 1"
    by (simp_all add: data_parallel_def node_share_def Let_def)
  then show ?thesis
    using d dispatch_desynchronises [of ?d "node_work ?d ! 0" 1 two_agents example_env] by (intro exI [of _ ?d]) (simp add: two_agents_def)
qed

section \<open>Libraries and connections\<close>

definition handles_ok :: "runtime \<Rightarrow> bool" where
  "handles_ok rt \<longleftrightarrow> (\<forall>i < length (libraries rt). lib_handle (libraries rt ! i) = i)"

lemma load_library_handle:
  assumes "handles_ok rt" and "load_library contents path rt = (Inr h, rt')"
  shows "handles_ok rt' \<and> h < length (libraries rt') \<and> lib_path (libraries rt' ! h) = path \<and> contents = Some (lib_data (libraries rt' ! h)) \<and>
     take h (libraries rt') = libraries rt \<and> (nid \<in> set (agent_socks rt) \<longrightarrow> push_library_to_agent nid h rt')"
  using assms by (auto simp: load_library_def handles_ok_def push_library_to_agent_def nth_append Let_def less_Suc_eq split: option.splits)

lemma split_host_port: "split_host (h @ '':'' @ to_string p) = (h, to_string p)"
proof -
  have c: "CHR '':'' \<notin> set (rev (to_string p))" using not_digit_in_to_string [of "CHR '':''" p] by (simp add: is_digit_def)
  then have "takeWhile (\<lambda>c. c \<noteq> CHR '':'') (rev (to_string p) @ '':'' @ rev h) = rev (to_string p)"
    "dropWhile (\<lambda>c. c \<noteq> CHR '':'') (rev (to_string p) @ '':'' @ rev h) = '':'' @ rev h"
    by (subst takeWhile_append2 dropWhile_append2; auto)+
  then show ?thesis by (simp add: split_host_def)
qed

lemma stoi_to_string: "p < 2 ^ 31 \<Longrightarrow> stoi (to_string p) = Inr (int p)"
  by (simp add: stoi_def Let_def to_string_scan del: takeWhile_eq_all_conv)

definition agent_host :: "string \<times> nat \<Rightarrow> string" where
  "agent_host a = fst a @ '':'' @ to_string (snd a)"

lemma split_agent_host: "split_host (agent_host a) = (fst a, to_string (snd a))"
  unfolding agent_host_def by (rule split_host_port)

lemma connect_agents_numbers:
  assumes "\<forall>a \<in> set as. snd a < 2 ^ 31"
  shows "connect_agents connects i (map agent_host as) rt =
     Inr (rt\<lparr>agent_socks := agent_socks rt @ map (\<lambda>j. word_of_nat (Suc j)) (filter (\<lambda>j. connects (fst (as ! (j - i))) (word_of_nat (snd (as ! (j - i))))) [i..<i + length as]),
             node_ids := node_ids rt @ map (\<lambda>j. word_of_nat (Suc j)) (filter (\<lambda>j. connects (fst (as ! (j - i))) (word_of_nat (snd (as ! (j - i))))) [i..<i + length as])\<rparr>)"
  using assms
proof (induction as arbitrary: i rt)
  case (Cons a as)
  have "filter (\<lambda>j. P ((a # as) ! (j - i))) [i..<i + length (a # as)] =
      (if P a then [i] else []) @ filter (\<lambda>j. P (as ! (j - Suc i))) [Suc i..<Suc i + length as]" for P
  proof -
    have "filter (\<lambda>j. P ((a # as) ! (j - i))) [Suc i..<Suc i + length as] = filter (\<lambda>j. P (as ! (j - Suc i))) [Suc i..<Suc i + length as]"
      by (intro filter_cong) (auto simp: nth_Cons')
    then show ?thesis by (simp add: upt_conv_Cons del: upt_Suc)
  qed
  from this [of "\<lambda>a. connects (fst a) (word_of_nat (snd a))"] Cons show ?case
    by (simp add: split_agent_host stoi_to_string Let_def del: upt_Suc of_nat_Suc)
qed simp

text \<open>
  Connecting the head: for addresses of the form \<open>host:port\<close> the constructor succeeds, and the agents it knows are those whose connection succeeded, numbered by their
  place in the configuration from 1, no number twice.
\<close>

theorem runtime_connects:
  assumes "\<forall>a \<in> set as. snd a < 2 ^ 16" and "length as < 2 ^ 16"
  shows "\<exists>rt. new_runtime connects \<lparr>rc_node_id = n, rc_is_head = True, agent_hosts = map agent_host as\<rparr> True True = Inr rt \<and>
     agent_socks rt = map (\<lambda>j. word_of_nat (Suc j)) (filter (\<lambda>j. connects (fst (as ! j)) (word_of_nat (snd (as ! j)))) [0..<length as]) \<and>
     node_ids rt = agent_socks rt \<and> distinct (agent_socks rt) \<and> libraries rt = []"
proof -
  have "\<forall>a \<in> set as. snd a < 2 ^ 31" using assms(1) by fastforce
  note connected = connect_agents_numbers [OF this, of connects 0]
  have "inj_on (\<lambda>j. word_of_nat (Suc j) :: u16) {0..<length as}"
  proof (rule inj_onI)
    fix j k assume "j \<in> {0..<length as}" "k \<in> {0..<length as}" and eq: "(word_of_nat (Suc j) :: u16) = word_of_nat (Suc k)"
    then have "Suc j < 2 ^ 16" "Suc k < 2 ^ 16" using assms(2) by auto
    then have "unat (word_of_nat (Suc j) :: u16) = Suc j" "unat (word_of_nat (Suc k) :: u16) = Suc k"
      by (intro unat_word_of_nat_less; simp)+
    then show "j = k" using eq by (metis nat.inject)
  qed
  then have "distinct (map (\<lambda>j. word_of_nat (Suc j) :: u16) (filter P [0..<length as]))" for P
    by (auto simp: distinct_map intro: inj_on_subset)
  then show ?thesis by (simp add: new_runtime_def connected del: of_nat_Suc)
qed

theorem runtime_connects_witness:
  "\<exists>rt. new_runtime (\<lambda>h p. p \<noteq> 9801) \<lparr>rc_node_id = 0, rc_is_head = True, agent_hosts = map agent_host [(''10.0.0.2'', 9800), (''10.0.0.3'', 9801), (''10.0.0.4'', 9800)]\<rparr> True True = Inr rt \<and>
     agent_socks rt = [1, 3]"
  using runtime_connects [of "[(''10.0.0.2'', 9800), (''10.0.0.3'', 9801), (''10.0.0.4'', 9800)]" "\<lambda>h p. p \<noteq> 9801" 0] by auto

end
