(* ===== verification/Agent_Server.thy ===== *)
theory Agent_Server
  imports Agent Dmem Peer_Mesh Metal_Runtime
begin

text \<open>
  The two ends of a control connection before its first command: the agent's process
  (\<open>csrc/agent/Agent.cpp\<close>: \<open>create_server_socket\<close>, \<open>agent_main\<close>) and the head's \<open>connect_to_agent\<close>
  (\<open>csrc/runtime/DistributedMetalRuntime.cpp\<close>). The accept loop and the connection threads interleave; the interleaving is the
  sequence of events. What the operating system answers is an argument.
\<close>

section \<open>Starting the agent\<close>

fun agent_args :: "string list \<Rightarrow> u16 \<times> int" where
  "agent_args (_ # port # peers # _) = (word_of_int (atoi port), atoi peers)"
| "agent_args [_, port] = (word_of_int (atoi port), 3)"
| "agent_args _ = (9800, 3)"

definition create_server_socket :: "int \<Rightarrow> bool \<Rightarrow> bool \<Rightarrow> mccl_error + int" where
  "create_server_socket fd bound listening =
     (if fd < 0 then Inl (MCCLError ''Agent: socket() failed'')
      else if \<not> bound then Inl (MCCLError ''Agent: bind() failed'')
      else if \<not> listening then Inl (MCCLError ''Agent: listen() failed'')
      else Inr fd)"

datatype server_phase = Checking | Accepting | Stopped

record server =
  srv_fd :: int
  srv_running :: bool
  srv_phase :: server_phase
  srv_clients :: "nat list"
  srv_dmem :: "dmem option"

text \<open>
  Up to the accept loop: a failure to create the memory manager is logged and ignored, a failure to listen leaves \<open>agent_main\<close> as an
  exception. The manager gets node number 0.
\<close>

definition agent_start :: "dmem_setup \<Rightarrow> (u64 \<Rightarrow> u8) \<Rightarrow> int \<Rightarrow> bool \<Rightarrow> bool \<Rightarrow> mccl_error + server" where
  "agent_start su mem fd bound listening =
     (let dm = (case new_dmem su mem 0 of Inl _ \<Rightarrow> None | Inr d \<Rightarrow> Some (dmem_start d)) in
      case create_server_socket fd bound listening of
        Inl e \<Rightarrow> Inl e
      | Inr sfd \<Rightarrow> Inr \<lparr>srv_fd = sfd, srv_running = True, srv_phase = Checking, srv_clients = [], srv_dmem = dm\<rparr>)"

section \<open>The accept loop\<close>

text \<open>
  What happens next: the main thread evaluates the loop condition, \<open>accept\<close> returns a client or an error, or a connection thread
  handles \<open>SHUTDOWN\<close>.
\<close>

datatype server_event = CheckRunning | Accepted nat | AcceptReturnsError | ShutdownBy nat

definition server_exit :: "server \<Rightarrow> server" where
  "server_exit s = s\<lparr>srv_phase := Stopped, srv_fd := - 1, srv_dmem := map_option dmem_shutdown (srv_dmem s)\<rparr>"

fun server_step :: "server_event \<Rightarrow> server \<Rightarrow> server option" where
  "server_step CheckRunning s =
     (if srv_phase s \<noteq> Checking then None
      else Some (if srv_running s then s\<lparr>srv_phase := Accepting\<rparr> else server_exit s))"
| "server_step (Accepted fd) s =
     (if srv_phase s \<noteq> Accepting then None
      else Some (s\<lparr>srv_phase := Checking, srv_clients := srv_clients s @ [fd]\<rparr>))"
| "server_step AcceptReturnsError s =
     (if srv_phase s \<noteq> Accepting then None
      else Some (if srv_running s then s\<lparr>srv_phase := Checking\<rparr> else server_exit s))"
| "server_step (ShutdownBy fd) s = (if fd \<in> set (srv_clients s) then Some (s\<lparr>srv_running := False\<rparr>) else None)"

fun server_run :: "server_event list \<Rightarrow> server \<Rightarrow> server option" where
  "server_run [] s = Some s"
| "server_run (e # es) s = Option.bind (server_step e s) (server_run es)"

text \<open>\<open>accept\<close> has returned.\<close>

fun accept_returns :: "server_event \<Rightarrow> bool" where
  "accept_returns (Accepted fd) = True"
| "accept_returns AcceptReturnsError = True"
| "accept_returns _ = False"

text \<open>How many clients a stopping agent still takes on: one if it waits in \<open>accept\<close>, none otherwise.\<close>

definition owed :: "server \<Rightarrow> nat" where
  "owed s = (if srv_phase s = Accepting then 1 else 0)"

lemma stopping_step:
  assumes "server_step e s = Some s'" and "\<not> srv_running s"
  shows "\<not> srv_running s' \<and> length (srv_clients s') + owed s' \<le> length (srv_clients s) + owed s \<and>
     (\<not> accept_returns e \<and> srv_phase s = Accepting \<longrightarrow> srv_phase s' = Accepting)"
  using assms by (cases e) (auto simp: owed_def server_exit_def split: if_splits)

text \<open>
  Shutdown waits for another client: once a \<open>SHUTDOWN\<close> has been handled, the agent takes on at most one more client, but
  while the main thread waits in \<open>accept\<close> nothing the connection threads do makes it leave; only a further connection (or an error) does.
\<close>

theorem shutdown_waits_for_accept:
  assumes "server_run es s = Some s'" and "\<not> srv_running s"
  shows "\<not> srv_running s' \<and> length (srv_clients s') \<le> Suc (length (srv_clients s)) \<and>
     (srv_phase s = Accepting \<and> (\<forall>e \<in> set es. \<not> accept_returns e) \<longrightarrow> srv_phase s' = Accepting)"
proof -
  have "\<not> srv_running s' \<and> length (srv_clients s') + owed s' \<le> length (srv_clients s) + owed s \<and>
     (srv_phase s = Accepting \<and> (\<forall>e \<in> set es. \<not> accept_returns e) \<longrightarrow> srv_phase s' = Accepting)"
    using assms
  proof (induction es arbitrary: s)
    case (Cons e es)
    then obtain s1 where s1: "server_step e s = Some s1" "server_run es s1 = Some s'" by (auto simp: bind_eq_Some_conv)
    with stopping_step [OF s1(1) Cons.prems(2)] Cons.IH [OF s1(2)] show ?case by fastforce
  qed simp
  then show ?thesis by (auto simp: owed_def split: if_splits)
qed

text \<open>The further connection is enough: the loop then ends, the socket is closed and the memory manager shut down.\<close>

lemma shutdown_completes:
  assumes "srv_phase s = Accepting" and "\<not> srv_running s"
  shows "server_run [Accepted fd, CheckRunning] s = Some (server_exit (s\<lparr>srv_phase := Checking, srv_clients := srv_clients s @ [fd]\<rparr>))"
  using assms by simp

section \<open>Connecting from the head\<close>

text \<open>The outcomes of the calls of one attempt; \<open>select\<close> reports a socket as writable also when the connection was refused.\<close>

datatype connect_call = ConnectOk | InProgress | ConnectError

record attempt_calls =
  at_socket :: int
  at_pton :: int
  at_connect :: connect_call
  at_select :: int

definition connect_to_agent :: "attempt_calls \<Rightarrow> int" where
  "connect_to_agent c =
     (if at_socket c < 0 then - 1
      else if at_pton c \<le> 0 then - 1
      else if at_connect c = ConnectError then - 1
      else if at_select c \<le> 0 then - 1
      else at_socket c)"

text \<open>
  An agent that refuses the connection later counts as connected: the pending error of the socket is not read, so a non-blocking connect
  that is under way and then fails ends like one that succeeds, and the head keeps the agent.
\<close>

lemma refused_agent_counts:
  assumes "0 \<le> at_socket c" and "0 < at_pton c" and "at_connect c = InProgress" and "0 < at_select c"
  shows "connect_to_agent c = at_socket c"
  using assms by (simp add: connect_to_agent_def)

lemma runtime_knows_connected:
  assumes "\<forall>a \<in> set as. snd a < 2 ^ 16" and "length as < 2 ^ 16" and "j < length as"
    and "0 \<le> connect_to_agent (os (fst (as ! j)) (word_of_nat (snd (as ! j))))"
  shows "\<exists>rt. new_runtime (\<lambda>h p. 0 \<le> connect_to_agent (os h p)) \<lparr>rc_node_id = n, rc_is_head = True, agent_hosts = map agent_host as\<rparr> True True = Inr rt \<and>
     word_of_nat (Suc j) \<in> set (agent_socks rt)"
  using runtime_connects [OF assms(1, 2), of "\<lambda>h p. 0 \<le> connect_to_agent (os h p)" n] assms(3, 4) by fastforce

section \<open>Sending a response\<close>

text \<open>\<open>send_all\<close>: \<open>ns\<close> are the results of the calls of \<open>send\<close>, which accepts at most what it is offered; what has been accepted, and whether all of it.\<close>

fun send_all :: "u8 list \<Rightarrow> int list \<Rightarrow> u8 list \<times> bool" where
  "send_all [] ns = ([], True)"
| "send_all (b # bs) [] = ([], False)"
| "send_all (b # bs) (n # ns) =
     (if n \<le> 0 then ([], False)
      else let k = min (nat n) (length (b # bs)); (w, ok) = send_all (drop k (b # bs)) ns in (take k (b # bs) @ w, ok))"

text \<open>A response goes out whole or is cut at a prefix, and the return value tells which.\<close>

lemma send_all_prefix: "send_all data ns = (w, ok) \<Longrightarrow> prefix w data \<and> (ok \<longrightarrow> w = data)"
proof (induction data ns arbitrary: w ok rule: send_all.induct)
  case (3 b bs n ns)
  show ?case
  proof (cases "n \<le> 0")
    case False
    define k where "k = min (nat n) (length (b # bs))"
    obtain v g where v: "send_all (drop k (b # bs)) ns = (v, g)" by fastforce
    with 3 False have "prefix v (drop k (b # bs)) \<and> (g \<longrightarrow> v = drop k (b # bs))" by (simp add: k_def)
    moreover have "w = take k (b # bs) @ v" "ok = g" using 3(2) v False by (auto simp: k_def Let_def)
    ultimately show ?thesis by (metis append_take_drop_id same_prefix_prefix)
  qed (use 3(2) in simp)
qed auto

end
