(* ===== verification/Coherence_Directory.thy ===== *)
theory Coherence_Directory
  imports Global_Address Errors
begin

text \<open>
  The coherence directory and its messages: \<open>csrc/coherence/CoherenceMessage.hpp\<close>,
  \<open>CoherenceDirectory.hpp\<close> and \<open>CoherenceDirectory.cpp\<close>. Pages have 64 KB. A reference returned by
  \<open>get_or_create\<close> is the key of the entry; writes through it update the table.
\<close>

section \<open>Messages\<close>

datatype CoherenceOp =
    READ_REQ | READ_REPLY | READ_REPLY_DIRTY
  | EXCLUSIVE_REQ | EXCLUSIVE_GRANT | EXCLUSIVE_DENY
  | INVALIDATE | INVAL_ACK
  | WRITEBACK_REQ | WRITEBACK_DATA | WRITEBACK_ACK
  | BARRIER_ENTER | BARRIER_LEAVE

fun op_code :: "CoherenceOp \<Rightarrow> u32" where
  "op_code READ_REQ = 0x3001"
| "op_code READ_REPLY = 0x3002"
| "op_code READ_REPLY_DIRTY = 0x3003"
| "op_code EXCLUSIVE_REQ = 0x4001"
| "op_code EXCLUSIVE_GRANT = 0x4002"
| "op_code EXCLUSIVE_DENY = 0x4003"
| "op_code INVALIDATE = 0x1001"
| "op_code INVAL_ACK = 0x1002"
| "op_code WRITEBACK_REQ = 0x2001"
| "op_code WRITEBACK_DATA = 0x2002"
| "op_code WRITEBACK_ACK = 0x2003"
| "op_code BARRIER_ENTER = 0x5001"
| "op_code BARRIER_LEAVE = 0x5002"

record CoherenceMessage =
  msg_op :: CoherenceOp
  page_addr :: GlobalAddress
  msg_epoch :: u64
  sender_seq :: u64

definition null_gaddr :: GlobalAddress where
  "null_gaddr = \<lparr>ga_node_id = 0, ga_region_id = 0, ga_offset = 0\<rparr>"

definition COHERENCE_PAGE_SIZE :: u64 where "COHERENCE_PAGE_SIZE = 64 * 1024"

definition page_align_down :: "u64 \<Rightarrow> u64" where
  "page_align_down offset = offset AND NOT (COHERENCE_PAGE_SIZE - 1)"

definition page_index :: "u64 \<Rightarrow> u64" where
  "page_index offset = offset div COHERENCE_PAGE_SIZE"

section \<open>Directory entries\<close>

datatype CoherenceState = UNCACHED | SHARED | EXCLUSIVE

record DirectoryEntry =
  dstate :: CoherenceState
  sharers :: u8
  exclusive_owner :: u8
  depoch :: u64

definition fresh_entry :: DirectoryEntry where
  "fresh_entry = \<lparr>dstate = UNCACHED, sharers = 0, exclusive_owner = 0, depoch = 0\<rparr>"

text \<open>
  \<open>1 << node_id\<close> is computed as an \<open>int\<close> and narrowed to the 8-bit mask. (For node numbers of 31 and
  above C++ leaves the shift undefined; here, as on arm64 up to 31, no bit of the mask is meant.)
\<close>

definition sharer_bit :: "u16 \<Rightarrow> u8" where
  "sharer_bit node_id = ucast (push_bit (unat node_id) 1 :: 32 word)"

definition has_sharer :: "DirectoryEntry \<Rightarrow> u16 \<Rightarrow> bool" where
  "has_sharer e node_id \<longleftrightarrow> (ucast (sharers e) AND (push_bit (unat node_id) 1 :: 32 word)) \<noteq> 0"

definition add_sharer :: "u16 \<Rightarrow> DirectoryEntry \<Rightarrow> DirectoryEntry" where
  "add_sharer node_id e = e\<lparr>sharers := sharers e OR sharer_bit node_id\<rparr>"

definition remove_sharer :: "u16 \<Rightarrow> DirectoryEntry \<Rightarrow> DirectoryEntry" where
  "remove_sharer node_id e = e\<lparr>sharers := sharers e AND NOT (sharer_bit node_id)\<rparr>"

definition sharer_count :: "DirectoryEntry \<Rightarrow> nat" where
  "sharer_count e = length (filter (\<lambda>i. bit (sharers e) i) [0..<8])"

definition clear_all_sharers :: "DirectoryEntry \<Rightarrow> DirectoryEntry" where
  "clear_all_sharers e = e\<lparr>sharers := 0, exclusive_owner := 0\<rparr>"

lemma bit_sharer_bit: "bit (sharer_bit n) i \<longleftrightarrow> i = unat n \<and> i < 8"
  by (auto simp: sharer_bit_def bit_simps)

lemma has_sharer_bit: "has_sharer e n \<longleftrightarrow> bit (sharers e) (unat n)"
  unfolding has_sharer_def bit_eq_iff
  by (auto simp: bit_simps dest: bit_imp_le_length)

lemma has_add_sharer: "has_sharer (add_sharer n e) m \<longleftrightarrow> has_sharer e m \<or> m = n \<and> unat n < 8"
  by (auto simp: has_sharer_bit add_sharer_def bit_simps bit_sharer_bit word_unat_eq_iff)

lemma has_remove_sharer: "has_sharer (remove_sharer n e) m \<longleftrightarrow> has_sharer e m \<and> m \<noteq> n"
proof -
  have "bit (sharers e) (unat m) \<Longrightarrow> unat m < 8" by (drule bit_imp_le_length) simp
  then show ?thesis
    by (auto simp: has_sharer_bit remove_sharer_def bit_simps bit_sharer_bit word_unat_eq_iff)
qed

lemma has_clear_sharers [simp]: "\<not> has_sharer (clear_all_sharers e) m"
  by (simp add: has_sharer_bit clear_all_sharers_def)

lemma sharer_count_zero: "sharer_count e = 0 \<longleftrightarrow> sharers e = 0"
proof -
  have "sharer_count e = 0 \<longleftrightarrow> (\<forall>i < 8. \<not> bit (sharers e) i)"
    by (auto simp: sharer_count_def filter_empty_conv)
  also have "\<dots> \<longleftrightarrow> sharers e = 0" unfolding bit_eq_iff by (auto dest: bit_imp_le_length)
  finally show ?thesis .
qed

section \<open>The directory\<close>

type_synonym directory = "(u64, DirectoryEntry) mapping"

definition dir_key :: "u32 \<Rightarrow> u64 \<Rightarrow> u64" where
  "dir_key region_id page_idx = push_bit 32 (ucast region_id) OR (page_idx AND 0xFFFFFFFF)"

text \<open>\<open>entries_[key]\<close> inserts a value-initialised entry when there is none.\<close>

definition dir_entry :: "u64 \<Rightarrow> directory \<Rightarrow> DirectoryEntry" where
  "dir_entry key d = (case Mapping.lookup d key of Some e \<Rightarrow> e | None \<Rightarrow> fresh_entry)"

definition get_or_create :: "u32 \<Rightarrow> u64 \<Rightarrow> directory \<Rightarrow> u64 \<times> directory" where
  "get_or_create region_id page_idx d =
     (let key = dir_key region_id page_idx in (key, Mapping.update key (dir_entry key d) d))"

definition dir_find :: "u32 \<Rightarrow> u64 \<Rightarrow> directory \<Rightarrow> DirectoryEntry option" where
  "dir_find region_id page_idx d = Mapping.lookup d (dir_key region_id page_idx)"

definition remove_region :: "u32 \<Rightarrow> directory \<Rightarrow> directory" where
  "remove_region region_id d =
     (let prefix = push_bit 32 (ucast region_id) in
      Mapping.filter (\<lambda>k _. k AND 0xFFFFFFFF00000000 \<noteq> prefix) d)"

definition page_count :: "directory \<Rightarrow> nat" where
  "page_count d = Mapping.size d"

definition dir_put :: "u32 \<times> u64 \<Rightarrow> DirectoryEntry \<Rightarrow> directory \<Rightarrow> directory" where
  "dir_put rp e d = Mapping.update (dir_key (fst rp) (snd rp)) e d"

lemma dir_key_high: "dir_key r p AND 0xFFFFFFFF00000000 = push_bit 32 (ucast r)"
  by (rule bit_word_eqI) (auto simp: dir_key_def mask_high32_u64 mask32_u64 bit_simps)

lemma dir_key_low: "dir_key r p AND 0xFFFFFFFF = p AND 0xFFFFFFFF"
  by (rule bit_word_eqI) (auto simp: dir_key_def mask_high32_u64 mask32_u64 bit_simps)

lemma push32_inject: "push_bit 32 (ucast (r :: u32) :: u64) = push_bit 32 (ucast r') \<longleftrightarrow> r = r'"
proof
  assume "push_bit 32 (ucast r :: u64) = push_bit 32 (ucast r')"
  then have "(ucast (drop_bit 32 (push_bit 32 (ucast r :: u64))) :: u32) = ucast (drop_bit 32 (push_bit 32 (ucast r' :: u64)))"
    by simp
  moreover have "(ucast (drop_bit 32 (push_bit 32 (ucast x :: u64))) :: u32) = x" for x :: u32
    by (rule bit_word_eqI) (auto simp: bit_simps dest: bit_imp_le_length)
  ultimately show "r = r'" by simp
qed simp

lemma dir_key_eq_iff: "dir_key r p = dir_key r' p' \<longleftrightarrow> r = r' \<and> p AND 0xFFFFFFFF = p' AND 0xFFFFFFFF"
  by (metis dir_key_def dir_key_high dir_key_low push32_inject)

lemma page_index_32: "page_index off AND 0xFFFFFFFF = page_index off \<longleftrightarrow> unat off < 2 ^ 48"
proof -
  have u: "unat (page_index off) = unat off div 65536"
    by (simp add: page_index_def COHERENCE_PAGE_SIZE_def unat_div_distrib)
  have "page_index off AND 0xFFFFFFFF = page_index off \<longleftrightarrow> take_bit 32 (page_index off) = page_index off"
    by (simp add: mask32_u64 take_bit_eq_mask)
  also have "\<dots> \<longleftrightarrow> unat (page_index off) < 2 ^ 32"
    by (simp add: word_unat_eq_iff unsigned_take_bit_eq take_bit_nat_eq_self_iff)
  also have "\<dots> \<longleftrightarrow> unat off < 2 ^ 48" unfolding u by (simp add: div_less_iff_less_mult)
  finally show ?thesis .
qed

lemma find_get_or_create:
  "dir_find r' p' (snd (get_or_create r p d)) =
     (if dir_key r' p' = dir_key r p then Some (dir_entry (dir_key r p) d) else dir_find r' p' d)"
  by (auto simp: dir_find_def get_or_create_def Let_def mapping.look_put)

lemma find_remove_region:
  "dir_find r' p' (remove_region r d) = (if r' = r then None else dir_find r' p' d)"
  by (auto simp: dir_find_def remove_region_def Let_def lookup_filter dir_key_high push32_inject split: option.split)

text \<open>
  The directory keeps one entry per page. For offsets below 256 TB, creating the entry of one
  page leaves the entry of every other page as it was, and unregistering a region removes exactly
  the entries of that region.
\<close>

theorem directory_per_page:
  assumes "unat off < 2 ^ 48" and "unat off' < 2 ^ 48"
  shows "dir_find r' (page_index off') (snd (get_or_create r (page_index off) d)) =
       (if r' = r \<and> page_index off' = page_index off then Some (dir_entry (dir_key r (page_index off)) d)
        else dir_find r' (page_index off') d) \<and>
     dir_find r' (page_index off') (remove_region r d) = (if r' = r then None else dir_find r' (page_index off') d)"
  using assms page_index_32 [of off] page_index_32 [of off']
  by (auto simp: find_get_or_create find_remove_region dir_key_eq_iff)

theorem directory_per_page_witness:
  "dir_find 3 (page_index 70000) (snd (get_or_create 3 (page_index 10) Mapping.empty)) = None"
  using directory_per_page [of 10 70000 3 3 Mapping.empty]
  by (simp add: page_index_def COHERENCE_PAGE_SIZE_def dir_find_def)

end
