(* ===== verification/Coherence_Protocol.thy ===== *)
theory Coherence_Protocol
  imports Coherence_Directory
begin

text \<open>
  The release-consistency protocol of \<open>csrc/coherence/CoherenceProtocol.hpp\<close> and
  \<open>CoherenceProtocol.cpp\<close>. The calls that the protocol makes on the distributed memory manager are
  recorded in order; \<open>dm\<close> says which of them throw (they do when a region cannot be resolved or an
  RDMA operation fails). A spinning wait is an operation that is enabled only once its condition
  holds. The empty stubs \<open>gpu_acquire\<close> and \<open>gpu_release\<close> do nothing.
\<close>

section \<open>State\<close>

datatype dmem_call =
    PutWithImm u16 GlobalAddress CoherenceMessage u32
  | PutPage u16 GlobalAddress nat
  | FenceNode u16
  | DrainPending

type_synonym dmem_outcome = "dmem_call \<Rightarrow> failure option"

record CachedPage =
  cp_gaddr :: GlobalAddress
  local_state :: CoherenceState
  cp_epoch :: u64
  dirty :: bool

record coherence =
  node_id :: u16
  is_head :: bool
  num_nodes :: nat
  msg_bufs :: "(u16, u32) mapping"
  directory :: directory
  local_cache :: "(u64, CachedPage) mapping"
  global_epoch :: u64
  running :: bool
  barrier_count :: u32
  calls :: "dmem_call list"

text \<open>\<open>msg_bufs\<close> maps a peer to the region of its message buffer.\<close>

definition init_coherence :: "u16 \<Rightarrow> bool \<Rightarrow> nat \<Rightarrow> coherence" where
  "init_coherence nid head n =
     \<lparr>node_id = nid, is_head = head, num_nodes = n, msg_bufs = Mapping.empty, directory = Mapping.empty,
      local_cache = Mapping.empty, global_epoch = 0, running = False, barrier_count = 0, calls = []\<rparr>"

definition dmem_do :: "dmem_outcome \<Rightarrow> dmem_call \<Rightarrow> coherence \<Rightarrow> (failure, coherence, unit) res" where
  "dmem_do dm c s = (case dm c of Some e \<Rightarrow> throw e s | None \<Rightarrow> (Inr (), s\<lparr>calls := calls s @ [c]\<rparr>))"

text \<open>The peers, in the order of the loops \<open>for (i = 0; i < num_nodes_; i++) if (i == node_id_) continue;\<close>.\<close>

definition other_nodes :: "coherence \<Rightarrow> u16 list" where
  "other_nodes s = filter (\<lambda>i. i \<noteq> node_id s) (map of_nat [0..<num_nodes s])"

text \<open>\<open>start\<close>: a message buffer is registered for every peer, in order; registration may throw.\<close>

definition start :: "(u16 \<Rightarrow> failure + u32) \<Rightarrow> coherence \<Rightarrow> (failure, coherence, unit) res" where
  "start register s =
     (if running s then ret () s
      else forEach (other_nodes s)
        (\<lambda>i s. case register i of Inl e \<Rightarrow> throw e s
           | Inr region \<Rightarrow> (Inr (), s\<lparr>msg_bufs := Mapping.update i region (msg_bufs s)\<rparr>))
        (s\<lparr>running := True\<rparr>))"

definition shutdown :: "coherence \<Rightarrow> coherence" where
  "shutdown s = (if running s then s\<lparr>running := False\<rparr> else s)"

definition fetch_add_epoch :: "coherence \<Rightarrow> u64 \<times> coherence" where
  "fetch_add_epoch s = (global_epoch s, s\<lparr>global_epoch := global_epoch s + 1\<rparr>)"

definition send_message :: "dmem_outcome \<Rightarrow> u16 \<Rightarrow> CoherenceMessage \<Rightarrow> coherence \<Rightarrow> (failure, coherence, unit) res" where
  "send_message dm target msg s =
     (case Mapping.lookup (msg_bufs s) target of
        None \<Rightarrow> throw (Thrown (MCCLError (''Coherence: no message buffer for node '' @ to_string (unat target)))) s
      | Some region \<Rightarrow>
          dmem_do dm (PutWithImm target \<lparr>ga_node_id = target, ga_region_id = region, ga_offset = 0\<rparr> msg
                        (op_code (msg_op msg))) s)"

definition mk_msg :: "CoherenceOp \<Rightarrow> GlobalAddress \<Rightarrow> u64 \<Rightarrow> CoherenceMessage" where
  "mk_msg opc page ep = \<lparr>msg_op = opc, page_addr = page, msg_epoch = ep, sender_seq = 0\<rparr>"

definition send_message_with_data ::
  "dmem_outcome \<Rightarrow> u16 \<Rightarrow> CoherenceOp \<Rightarrow> GlobalAddress \<Rightarrow> u64 \<Rightarrow> coherence \<Rightarrow> (failure, coherence, unit) res" where
  "send_message_with_data dm target opc page ep s =
     send_message dm target ((mk_msg opc page ep)\<lparr>sender_seq := global_epoch s\<rparr>) s"

section \<open>Local cache\<close>

definition find_cached :: "GlobalAddress \<Rightarrow> coherence \<Rightarrow> CachedPage option" where
  "find_cached page s = Mapping.lookup (local_cache s) (pack page)"

definition track_page :: "GlobalAddress \<Rightarrow> CoherenceState \<Rightarrow> u64 \<Rightarrow> coherence \<Rightarrow> coherence" where
  "track_page page st ep s =
     s\<lparr>local_cache := Mapping.update (pack page)
         \<lparr>cp_gaddr = page, local_state = st, cp_epoch = ep, dirty = False\<rparr> (local_cache s)\<rparr>"

definition untrack_page :: "GlobalAddress \<Rightarrow> coherence \<Rightarrow> coherence" where
  "untrack_page page s = s\<lparr>local_cache := Mapping.delete (pack page) (local_cache s)\<rparr>"

section \<open>Synchronisation\<close>

definition acquire :: "dmem_outcome \<Rightarrow> coherence \<Rightarrow> (failure, coherence, unit) res" where
  "acquire dm = andThen (dmem_do dm DrainPending) (\<lambda>_ s. (Inr (), snd (fetch_add_epoch s)))"

definition flush_page :: "dmem_outcome \<Rightarrow> u64 \<Rightarrow> coherence \<Rightarrow> (failure, coherence, unit) res" where
  "flush_page dm key s =
     (case Mapping.lookup (local_cache s) key of
        None \<Rightarrow> ret () s
      | Some page \<Rightarrow>
          if dirty page \<and> local_state page = EXCLUSIVE then
            andThen (dmem_do dm (PutPage (ga_node_id (cp_gaddr page)) (cp_gaddr page) (unat COHERENCE_PAGE_SIZE)))
              (\<lambda>_ s. let (ep, s') = fetch_add_epoch s in
                 andThen (send_message dm (ga_node_id (cp_gaddr page)) (mk_msg WRITEBACK_DATA (cp_gaddr page) ep))
                   (\<lambda>_. modify (\<lambda>s. s\<lparr>local_cache :=
                      Mapping.update key (page\<lparr>dirty := False, local_state := SHARED\<rparr>) (local_cache s)\<rparr>)) s') s
          else ret () s)"

text \<open>\<open>keys\<close> is the order in which the loop visits the local cache.\<close>

definition release :: "dmem_outcome \<Rightarrow> u64 list \<Rightarrow> coherence \<Rightarrow> (failure, coherence, unit) res" where
  "release dm keys =
     andThen (forEach keys (flush_page dm))
       (\<lambda>_. andThen (dmem_do dm DrainPending) (\<lambda>_ s. (Inr (), snd (fetch_add_epoch s))))"

definition fence :: "dmem_outcome \<Rightarrow> coherence \<Rightarrow> (failure, coherence, unit) res" where
  "fence dm s =
     andThen (forEach (other_nodes s) (\<lambda>i. dmem_do dm (FenceNode i)))
       (\<lambda>_. andThen (dmem_do dm DrainPending) (\<lambda>_ s. (Inr (), snd (fetch_add_epoch s)))) s"

section \<open>Pages\<close>

text \<open>The two GPU-side operations are empty in the source.\<close>

definition gpu_acquire :: "u64 \<Rightarrow> coherence \<Rightarrow> coherence" where "gpu_acquire epoch s = s"

definition gpu_release :: "u64 \<Rightarrow> coherence \<Rightarrow> coherence" where "gpu_release epoch s = s"

definition read_page :: "dmem_outcome \<Rightarrow> GlobalAddress \<Rightarrow> bool \<Rightarrow> coherence \<Rightarrow> (failure, coherence, unit) res" where
  "read_page dm page0 write s =
     (let page = page0\<lparr>ga_offset := page_align_down (ga_offset page0)\<rparr>;
          hit = (case find_cached page s of
                   None \<Rightarrow> False
                 | Some c \<Rightarrow> \<not> (write \<and> local_state c = SHARED) \<and> (\<not> write \<or> local_state c = EXCLUSIVE)) in
      if hit then ret () s
      else send_message dm (ga_node_id page)
             (mk_msg (if write then EXCLUSIVE_REQ else READ_REQ) page (global_epoch s)) s)"

definition write_page_done :: "GlobalAddress \<Rightarrow> coherence \<Rightarrow> coherence" where
  "write_page_done page0 s =
     (let page = page0\<lparr>ga_offset := page_align_down (ga_offset page0)\<rparr> in
      case find_cached page s of
        Some c \<Rightarrow> if local_state c = EXCLUSIVE
                  then s\<lparr>local_cache := Mapping.update (pack page) (c\<lparr>dirty := True\<rparr>) (local_cache s)\<rparr> else s
      | None \<Rightarrow> s)"

section \<open>Directory side\<close>

definition entry_at :: "u64 \<Rightarrow> coherence \<Rightarrow> DirectoryEntry" where
  "entry_at key s = dir_entry key (directory s)"

definition set_entry :: "u64 \<Rightarrow> (DirectoryEntry \<Rightarrow> DirectoryEntry) \<Rightarrow> coherence \<Rightarrow> coherence" where
  "set_entry key f s = s\<lparr>directory := Mapping.update key (f (entry_at key s)) (directory s)\<rparr>"

definition msg_key :: "CoherenceMessage \<Rightarrow> u64" where
  "msg_key msg = dir_key (ga_region_id (page_addr msg)) (page_index (ga_offset (page_addr msg)))"

definition create_entry :: "u64 \<Rightarrow> coherence \<Rightarrow> coherence" where
  "create_entry key s = set_entry key (\<lambda>e. e) s"

text \<open>The message of \<open>invalidate_sharers\<close> names no page: only its operation and epoch are set.\<close>

definition invalidate_sharers :: "dmem_outcome \<Rightarrow> u64 \<Rightarrow> coherence \<Rightarrow> (failure, coherence, unit) res" where
  "invalidate_sharers dm key s0 =
     (let s = create_entry key s0; inv = mk_msg INVALIDATE null_gaddr (depoch (entry_at key s)) in
      forEach (other_nodes s)
        (\<lambda>i s. if has_sharer (entry_at key s) i then send_message dm i inv s else ret () s) s)"

definition request_writeback :: "dmem_outcome \<Rightarrow> u64 \<Rightarrow> CoherenceMessage \<Rightarrow> coherence \<Rightarrow> (failure, coherence, unit) res" where
  "request_writeback dm key msg s =
     send_message dm (ucast (exclusive_owner (entry_at key s))) (mk_msg WRITEBACK_REQ (page_addr msg) (msg_epoch msg)) s"

definition share_with :: "u16 \<Rightarrow> DirectoryEntry \<Rightarrow> DirectoryEntry" where
  "share_with sender e =
     (let e1 = add_sharer sender e;
          e2 = (if dstate e1 = UNCACHED then e1\<lparr>dstate := SHARED\<rparr> else e1) in
      e2\<lparr>depoch := depoch e2 + 1\<rparr>)"

definition reply_read :: "dmem_outcome \<Rightarrow> u64 \<Rightarrow> CoherenceMessage \<Rightarrow> u16 \<Rightarrow> coherence \<Rightarrow> (failure, coherence, unit) res" where
  "reply_read dm key msg sender s =
     (let s1 = set_entry key (share_with sender) s; e = entry_at key s1;
          opc = (if dstate e = EXCLUSIVE then READ_REPLY_DIRTY else READ_REPLY) in
      send_message dm sender (mk_msg opc (page_addr msg) (depoch e)) s1)"

definition handle_read_req :: "dmem_outcome \<Rightarrow> CoherenceMessage \<Rightarrow> u16 \<Rightarrow> coherence \<Rightarrow> (failure, coherence, unit) res" where
  "handle_read_req dm msg sender s =
     (let key = msg_key msg in
      andThen (\<lambda>s. if dstate (entry_at key s) = EXCLUSIVE then request_writeback dm key msg s else ret () s)
        (\<lambda>_. reply_read dm key msg sender) (create_entry key s))"

definition grant_exclusive :: "u16 \<Rightarrow> DirectoryEntry \<Rightarrow> DirectoryEntry" where
  "grant_exclusive sender e =
     (let e1 = e\<lparr>dstate := EXCLUSIVE\<rparr>;
          e2 = e1\<lparr>exclusive_owner := ucast sender\<rparr>;
          e3 = clear_all_sharers e2;
          e4 = add_sharer sender e3 in
      e4\<lparr>depoch := depoch e4 + 1\<rparr>)"

definition reply_grant :: "dmem_outcome \<Rightarrow> u64 \<Rightarrow> CoherenceMessage \<Rightarrow> u16 \<Rightarrow> coherence \<Rightarrow> (failure, coherence, unit) res" where
  "reply_grant dm key msg sender s =
     (let s1 = set_entry key (grant_exclusive sender) s in
      send_message dm sender (mk_msg EXCLUSIVE_GRANT (page_addr msg) (depoch (entry_at key s1))) s1)"

definition handle_exclusive_req :: "dmem_outcome \<Rightarrow> CoherenceMessage \<Rightarrow> u16 \<Rightarrow> coherence \<Rightarrow> (failure, coherence, unit) res" where
  "handle_exclusive_req dm msg sender s =
     (let key = msg_key msg in
      andThen (\<lambda>s. if 0 < sharer_count (entry_at key s) then invalidate_sharers dm key s else ret () s)
        (\<lambda>_. andThen
           (\<lambda>s. if dstate (entry_at key s) = EXCLUSIVE \<and> (ucast (exclusive_owner (entry_at key s)) :: u16) \<noteq> sender
                then request_writeback dm key msg s else ret () s)
           (\<lambda>_. reply_grant dm key msg sender)) (create_entry key s))"

definition handle_writeback_data :: "CoherenceMessage \<Rightarrow> coherence \<Rightarrow> coherence" where
  "handle_writeback_data msg s =
     set_entry (msg_key msg) (\<lambda>e. e\<lparr>dstate := UNCACHED, depoch := depoch e + 1\<rparr>) (create_entry (msg_key msg) s)"

definition broadcast_leave :: "dmem_outcome \<Rightarrow> coherence \<Rightarrow> (failure, coherence, unit) res" where
  "broadcast_leave dm s =
     (let (ep, s1) = fetch_add_epoch s in
      andThen (forEach (other_nodes s1) (\<lambda>i. send_message dm i (mk_msg BARRIER_LEAVE null_gaddr ep)))
        (\<lambda>_. modify (\<lambda>s. s\<lparr>barrier_count := 0\<rparr>)) s1)"

text \<open>\<open>num_nodes_ - 1\<close> as the unsigned 32-bit number it is compared with.\<close>

definition agents :: "coherence \<Rightarrow> u32" where
  "agents s = of_int (int (num_nodes s) - 1)"

definition handle_barrier_enter :: "dmem_outcome \<Rightarrow> coherence \<Rightarrow> (failure, coherence, unit) res" where
  "handle_barrier_enter dm s =
     (let s1 = s\<lparr>barrier_count := barrier_count s + 1\<rparr> in
      if agents s \<le> barrier_count s1 then broadcast_leave dm s1 else ret () s1)"

definition handle_message :: "dmem_outcome \<Rightarrow> CoherenceMessage \<Rightarrow> u16 \<Rightarrow> coherence \<Rightarrow> (failure, coherence, unit) res" where
  "handle_message dm msg sender s =
     (case msg_op msg of
        READ_REQ \<Rightarrow> handle_read_req dm msg sender s
      | EXCLUSIVE_REQ \<Rightarrow> handle_exclusive_req dm msg sender s
      | WRITEBACK_DATA \<Rightarrow> ret () (handle_writeback_data msg s)
      | INVAL_ACK \<Rightarrow> ret () s
      | BARRIER_ENTER \<Rightarrow> handle_barrier_enter dm s
      | BARRIER_LEAVE \<Rightarrow> ret () (snd (fetch_add_epoch s))
      | _ \<Rightarrow> ret () s)"

text \<open>
  \<open>barrier_all\<close>. On the head the call returns once the wait is over and the release has been sent;
  \<open>None\<close> means that it still spins. An agent announces itself, then waits for its epoch to pass.
\<close>

definition barrier_all_head :: "dmem_outcome \<Rightarrow> coherence \<Rightarrow> (failure, coherence, unit) res option" where
  "barrier_all_head dm s = (if barrier_count s < agents s then None else Some (broadcast_leave dm s))"

definition barrier_enter_agent :: "dmem_outcome \<Rightarrow> coherence \<Rightarrow> (failure, coherence, u64) res" where
  "barrier_enter_agent dm s =
     (let (ep, s1) = fetch_add_epoch s in
      andThen (send_message dm 0 (mk_msg BARRIER_ENTER null_gaddr ep)) (\<lambda>_. ret ep) s1)"

definition barrier_agent_released :: "u64 \<Rightarrow> coherence \<Rightarrow> bool" where
  "barrier_agent_released wait_epoch s \<longleftrightarrow> wait_epoch + 1 < global_epoch s"

section \<open>Reachable states\<close>

text \<open>One call of a public operation, by an application or by the message dispatcher.\<close>

inductive coh_step :: "dmem_outcome \<Rightarrow> coherence \<Rightarrow> coherence \<Rightarrow> bool" for dm where
  step_start: "coh_step dm s (snd (start register s))"
| step_shutdown: "coh_step dm s (shutdown s)"
| step_acquire: "coh_step dm s (snd (acquire dm s))"
| step_release: "coh_step dm s (snd (release dm keys s))"
| step_fence: "coh_step dm s (snd (fence dm s))"
| step_read_page: "coh_step dm s (snd (read_page dm page write s))"
| step_write_done: "coh_step dm s (write_page_done page s)"
| step_handle: "coh_step dm s (snd (handle_message dm msg sender s))"
| step_invalidate: "coh_step dm s (snd (invalidate_sharers dm key s))"
| step_barrier_head: "barrier_all_head dm s = Some r \<Longrightarrow> coh_step dm s (snd r)"
| step_barrier_agent: "coh_step dm s (snd (barrier_enter_agent dm s))"

inductive coh_reachable :: "dmem_outcome \<Rightarrow> coherence \<Rightarrow> coherence \<Rightarrow> bool" for dm s0 where
  reach_init: "coh_reachable dm s0 s0"
| reach_step: "coh_reachable dm s0 s \<Longrightarrow> coh_step dm s s' \<Longrightarrow> coh_reachable dm s0 s'"

text \<open>
  The invariant: no recorded owner other than 0, nothing in the local cache, no message buffer for
  the node itself.
\<close>

definition coh_inv :: "u16 \<Rightarrow> coherence \<Rightarrow> bool" where
  "coh_inv nid s \<longleftrightarrow>
     (\<forall>k e. Mapping.lookup (directory s) k = Some e \<longrightarrow> exclusive_owner e = 0) \<and>
     local_cache s = Mapping.empty \<and> node_id s = nid \<and> Mapping.lookup (msg_bufs s) nid = None"

lemma coh_inv_init: "coh_inv nid (init_coherence nid head n)"
  by (simp add: coh_inv_def init_coherence_def)

lemma inv_entry_owner: "coh_inv nid s \<Longrightarrow> exclusive_owner (entry_at k s) = 0"
  by (auto simp: coh_inv_def entry_at_def dir_entry_def fresh_entry_def split: option.split)

lemma inv_set_entry: "coh_inv nid s \<Longrightarrow> (\<And>e. exclusive_owner e = 0 \<Longrightarrow> exclusive_owner (f e) = 0) \<Longrightarrow> coh_inv nid (set_entry k f s)"
  using inv_entry_owner [of nid s k] by (auto simp: coh_inv_def set_entry_def mapping.look_put)

lemma inv_create_entry: "coh_inv nid s \<Longrightarrow> coh_inv nid (create_entry k s)"
  unfolding create_entry_def by (rule inv_set_entry)

lemma inv_fetch_add: "coh_inv nid s \<Longrightarrow> coh_inv nid (snd (fetch_add_epoch s))"
  by (simp add: coh_inv_def fetch_add_epoch_def)

lemma inv_dmem_do [preserve_intros]: "preserves (coh_inv nid) (dmem_do dm c)"
  by (simp add: preserves_def coh_inv_def dmem_do_def throw_def split: option.split)

lemma inv_send_message [preserve_intros]: "preserves (coh_inv nid) (send_message dm t m)"
  using inv_dmem_do by (auto simp: preserves_def send_message_def throw_def split: option.split)

lemma inv_finish [preserve_intros]: "preserves (coh_inv nid) (\<lambda>s. (Inr (), snd (fetch_add_epoch s)))"
  by (simp add: preserves_def inv_fetch_add)

lemma inv_flush_page [preserve_intros]: "preserves (coh_inv nid) (flush_page dm k)"
  by (auto simp: preserves_def flush_page_def coh_inv_def ret_def)

lemma inv_invalidate [preserve_intros]: "preserves (coh_inv nid) (invalidate_sharers dm k)"
proof -
  have "preserves (coh_inv nid)
      (forEach xs (\<lambda>i s. if has_sharer (entry_at k s) i then send_message dm i inv s else ret () s))" for xs inv
    by (intro preserve_intros)
  then show ?thesis by (simp add: preserves_def invalidate_sharers_def inv_create_entry Let_def)
qed

lemma grant_owner: "exclusive_owner (grant_exclusive sender e) = 0"
  by (simp add: grant_exclusive_def Let_def add_sharer_def clear_all_sharers_def)

lemma inv_reset_count [preserve_intros]: "preserves (coh_inv nid) (modify (\<lambda>s. s\<lparr>barrier_count := 0\<rparr>))"
  by (rule preserves_modify) (simp add: coh_inv_def)

lemma inv_broadcast_leave [preserve_intros]: "preserves (coh_inv nid) (broadcast_leave dm)"
proof -
  have "preserves (coh_inv nid) (andThen (forEach xs (\<lambda>i. send_message dm i m)) (\<lambda>_. modify (\<lambda>s. s\<lparr>barrier_count := 0\<rparr>)))" for xs m
    by (intro preserve_intros)
  then show ?thesis
    using inv_fetch_add by (simp add: preserves_def broadcast_leave_def split_beta Let_def)
qed

lemma inv_request_writeback [preserve_intros]: "preserves (coh_inv nid) (request_writeback dm k msg)"
  using inv_send_message by (simp add: preserves_def request_writeback_def)

lemma inv_reply_read [preserve_intros]: "preserves (coh_inv nid) (reply_read dm k msg sender)"
  unfolding preserves_def reply_read_def Let_def
  by (intro allI impI preservesD [OF inv_send_message] inv_set_entry) (auto simp: share_with_def add_sharer_def Let_def)

lemma inv_reply_grant [preserve_intros]: "preserves (coh_inv nid) (reply_grant dm k msg sender)"
  unfolding preserves_def reply_grant_def Let_def
  by (intro allI impI preservesD [OF inv_send_message] inv_set_entry) (auto simp: grant_owner)

lemma inv_read_req: "preserves (coh_inv nid) (handle_read_req dm msg sender)"
proof -
  have "preserves (coh_inv nid) (andThen
      (\<lambda>s. if dstate (entry_at k s) = EXCLUSIVE then request_writeback dm k msg s else ret () s) (\<lambda>_. reply_read dm k msg sender))" for k
    by (intro preserve_intros)
  then show ?thesis by (simp add: preserves_def handle_read_req_def inv_create_entry Let_def)
qed

lemma inv_exclusive_req: "preserves (coh_inv nid) (handle_exclusive_req dm msg sender)"
proof -
  have "preserves (coh_inv nid) (andThen
      (\<lambda>s. if 0 < sharer_count (entry_at k s) then invalidate_sharers dm k s else ret () s)
      (\<lambda>_. andThen
           (\<lambda>s. if dstate (entry_at k s) = EXCLUSIVE \<and> (ucast (exclusive_owner (entry_at k s)) :: u16) \<noteq> sender
                then request_writeback dm k msg s else ret () s)
           (\<lambda>_. reply_grant dm k msg sender)))" for k
    by (intro preserve_intros)
  then show ?thesis by (simp add: preserves_def handle_exclusive_req_def inv_create_entry Let_def)
qed

lemma inv_handle_message: "coh_inv nid s \<Longrightarrow> coh_inv nid (snd (handle_message dm msg sender s))"
proof (cases "msg_op msg")
  case BARRIER_ENTER
  assume inv: "coh_inv nid s"
  then have "coh_inv nid (s\<lparr>barrier_count := c\<rparr>)" for c by (simp add: coh_inv_def)
  with BARRIER_ENTER show ?thesis
    using preservesD [OF inv_broadcast_leave] by (auto simp: handle_message_def handle_barrier_enter_def Let_def ret_def)
next
  case WRITEBACK_DATA
  assume "coh_inv nid s"
  with WRITEBACK_DATA show ?thesis
    by (auto simp: handle_message_def handle_writeback_data_def ret_def intro: inv_set_entry inv_create_entry)
qed (use preservesD [OF inv_read_req] preservesD [OF inv_exclusive_req] inv_fetch_add in
      \<open>auto simp: handle_message_def ret_def\<close>)

lemma inv_start: "coh_inv nid s \<Longrightarrow> coh_inv nid (snd (start register s))"
proof -
  assume inv: "coh_inv nid s"
  have "preserves (coh_inv nid) (forEach (other_nodes s)
        (\<lambda>i s. case register i of Inl e \<Rightarrow> throw e s
           | Inr region \<Rightarrow> (Inr (), s\<lparr>msg_bufs := Mapping.update i region (msg_bufs s)\<rparr>)))"
  proof (rule preserves_forEach)
    fix i assume "i \<in> set (other_nodes s)"
    then have "i \<noteq> nid" using inv by (auto simp: other_nodes_def coh_inv_def)
    then show "preserves (coh_inv nid) (\<lambda>s. case register i of Inl e \<Rightarrow> throw e s
           | Inr region \<Rightarrow> (Inr (), s\<lparr>msg_bufs := Mapping.update i region (msg_bufs s)\<rparr>))"
      by (auto simp: preserves_def coh_inv_def throw_def mapping.look_put split: sum.split)
  qed
  moreover have "coh_inv nid (s\<lparr>running := True\<rparr>)" using inv by (simp add: coh_inv_def)
  ultimately show ?thesis using inv preservesD by (fastforce simp: start_def ret_def)
qed

lemma inv_step: "coh_step dm s s' \<Longrightarrow> coh_inv nid s \<Longrightarrow> coh_inv nid s'"
proof (induction rule: coh_step.induct)
  case (step_shutdown s)
  then show ?case by (simp add: shutdown_def coh_inv_def)
next
  case (step_acquire s)
  have "preserves (coh_inv nid) (acquire dm)" unfolding acquire_def by (intro preserve_intros)
  with step_acquire show ?case by (blast dest: preservesD)
next
  case (step_release s keys)
  have "preserves (coh_inv nid) (release dm keys)" unfolding release_def by (intro preserve_intros)
  with step_release show ?case by (blast dest: preservesD)
next
  case (step_fence s)
  have "preserves (coh_inv nid) (andThen (forEach (other_nodes s) (\<lambda>i. dmem_do dm (FenceNode i)))
       (\<lambda>_. andThen (dmem_do dm DrainPending) (\<lambda>_ s. (Inr (), snd (fetch_add_epoch s)))))" by (intro preserve_intros)
  with step_fence show ?case by (auto simp: fence_def dest: preservesD)
next
  case (step_read_page s page "write")
  then show ?case using preservesD [OF inv_send_message] by (simp add: read_page_def Let_def ret_def)
next
  case (step_write_done s page)
  then show ?case by (simp add: write_page_done_def find_cached_def coh_inv_def Let_def)
next
  case (step_barrier_head s r)
  then show ?case
    using preservesD [OF inv_broadcast_leave] by (auto simp: barrier_all_head_def split: if_splits)
next
  case (step_barrier_agent s)
  have "preserves (coh_inv nid) (andThen (send_message dm 0 m) (\<lambda>_. ret ep))" for m and ep :: u64
    by (intro preserve_intros)
  with step_barrier_agent show ?case
    using inv_fetch_add by (simp add: preserves_def barrier_enter_agent_def split_beta Let_def)
qed (auto intro: inv_start inv_handle_message preservesD [OF inv_invalidate])

lemma inv_reachable: "coh_reachable dm (init_coherence nid head n) s \<Longrightarrow> coh_inv nid s"
  by (induction rule: coh_reachable.induct) (auto intro: coh_inv_init inv_step)

section \<open>Properties\<close>

lemma entry_set_entry: "entry_at k' (set_entry k f s) = (if k' = k then f (entry_at k s) else entry_at k' s)"
  by (simp add: entry_at_def set_entry_def dir_entry_def mapping.look_put)

lemma entry_create_entry [simp]: "entry_at k' (create_entry k s) = entry_at k' s"
  by (simp add: create_entry_def entry_set_entry)

lemma set_entry_frame [simp, frame_simps]:
  "msg_bufs (set_entry k f s) = msg_bufs s" "calls (set_entry k f s) = calls s" "node_id (set_entry k f s) = node_id s"
  "num_nodes (set_entry k f s) = num_nodes s"
  by (simp_all add: set_entry_def)

lemma create_entry_frame [simp, frame_simps]:
  "msg_bufs (create_entry k s) = msg_bufs s" "calls (create_entry k s) = calls s" "node_id (create_entry k s) = node_id s"
  "num_nodes (create_entry k s) = num_nodes s"
  by (simp_all add: create_entry_def)

text \<open>A send either throws and changes nothing, or appends one call and changes nothing else.\<close>

lemma send_message_ok:
  assumes "send_message dm t m s = (Inr x, s')"
  shows "\<exists>region. Mapping.lookup (msg_bufs s) t = Some region \<and>
     s' = s\<lparr>calls := calls s @ [PutWithImm t \<lparr>ga_node_id = t, ga_region_id = region, ga_offset = 0\<rparr> m (op_code (msg_op m))]\<rparr>"
  using assms by (auto simp: send_message_def dmem_do_def throw_def split: option.splits)

lemma entry_calls [simp]: "entry_at k (s\<lparr>calls := c\<rparr>) = entry_at k s"
  by (simp add: entry_at_def)

lemma start_directory [frame_simps]: "directory (snd (start register s)) = directory s"
proof -
  have "directory (snd (forEach xs (\<lambda>i s. case register i of Inl e \<Rightarrow> throw e s
      | Inr region \<Rightarrow> (Inr (), s\<lparr>msg_bufs := Mapping.update i region (msg_bufs s)\<rparr>)) s)) = directory s" for xs and s :: coherence
    by (rule forEach_invariant [where P = "\<lambda>s'. directory s' = directory s"])
      (auto simp: throw_def split: sum.split)
  then show ?thesis by (simp add: start_def ret_def)
qed

lemma send_message_frame [frame_simps]:
  "directory (snd (send_message dm t m s)) = directory s" "msg_bufs (snd (send_message dm t m s)) = msg_bufs s"
  by (simp_all add: send_message_def dmem_do_def throw_def split: option.split)

lemma entry_send_message [simp]: "entry_at k (snd (send_message dm t m s)) = entry_at k s"
  by (simp add: entry_at_def frame_simps)

text \<open>An exclusive request for a page that nobody holds is granted at once.\<close>

lemma exclusive_req_uncached:
  assumes "sharer_count (entry_at (msg_key msg) s) = 0" and "dstate (entry_at (msg_key msg) s) \<noteq> EXCLUSIVE"
  shows "handle_exclusive_req dm msg sender s = reply_grant dm (msg_key msg) msg sender (create_entry (msg_key msg) s)"
    and "entry_at (msg_key msg) (snd (handle_exclusive_req dm msg sender s)) =
         grant_exclusive sender (entry_at (msg_key msg) s)"
proof -
  show "handle_exclusive_req dm msg sender s = reply_grant dm (msg_key msg) msg sender (create_entry (msg_key msg) s)"
    using assms by (simp add: handle_exclusive_req_def Let_def andThen_def ret_def)
  then show "entry_at (msg_key msg) (snd (handle_exclusive_req dm msg sender s)) =
      grant_exclusive sender (entry_at (msg_key msg) s)"
    by (simp add: reply_grant_def Let_def entry_set_entry)
qed



text \<open>
  Consequently, once the head (node 0) has granted a page exclusively, every later read of that
  page fails: the write-back request goes to the recorded owner, node 0 itself, for which there is
  no message buffer, and the exception leaves the directory without the new sharer.
\<close>

theorem read_after_grant_throws:
  assumes "coh_reachable dm (init_coherence 0 True n) s" and "dstate (entry_at (msg_key msg) s) = EXCLUSIVE"
    and "msg_op msg = READ_REQ"
  shows "\<exists>s'. handle_message dm msg sender s =
           (Inl (Thrown (MCCLError ''Coherence: no message buffer for node 0'')), s') \<and>
         entry_at (msg_key msg) s' = entry_at (msg_key msg) s \<and> calls s' = calls s"
proof -
  have inv: "coh_inv 0 s" by (rule inv_reachable [OF assms(1)])
  then have "Mapping.lookup (msg_bufs s) 0 = None" by (simp add: coh_inv_def)
  then show ?thesis
    using assms(2,3) inv_entry_owner [OF inv, of "msg_key msg"]
    by (simp add: handle_message_def handle_read_req_def Let_def andThen_def request_writeback_def
        send_message_def throw_def to_string_0)
qed

definition example_msg :: "CoherenceOp \<Rightarrow> CoherenceMessage" where
  "example_msg opc = mk_msg opc \<lparr>ga_node_id = 0, ga_region_id = 1, ga_offset = 0\<rparr> 0"

definition granted_state :: coherence where
  "granted_state = snd (handle_message (\<lambda>_. None) (example_msg EXCLUSIVE_REQ) 1
     (snd (start (\<lambda>i. Inr (ucast i)) (init_coherence 0 True 3))))"

theorem read_after_grant_throws_witness:
  "\<exists>s'. handle_message (\<lambda>_. None) (example_msg READ_REQ) 2 granted_state =
      (Inl (Thrown (MCCLError ''Coherence: no message buffer for node 0'')), s')"
proof -
  have reach: "coh_reachable (\<lambda>_. None) (init_coherence 0 True 3) granted_state"
    unfolding granted_state_def
    by (rule coh_reachable.reach_step [OF coh_reachable.reach_step [OF coh_reachable.reach_init step_start] step_handle])
  have "dstate (entry_at (msg_key (example_msg READ_REQ)) granted_state) = EXCLUSIVE"
  proof -
    let ?s = "snd (start (\<lambda>i. Inr (ucast i)) (init_coherence 0 True 3))"
    have "entry_at k ?s = fresh_entry" for k
      by (simp add: entry_at_def frame_simps init_coherence_def dir_entry_def)
    then have "entry_at (msg_key (example_msg EXCLUSIVE_REQ)) (snd (handle_exclusive_req (\<lambda>_. None) (example_msg EXCLUSIVE_REQ) 1 ?s)) =
        grant_exclusive 1 fresh_entry"
      by (subst exclusive_req_uncached(2)) (simp_all add: fresh_entry_def sharer_count_zero)
    then show ?thesis
      by (simp add: granted_state_def handle_message_def example_msg_def mk_msg_def msg_key_def
          grant_exclusive_def Let_def add_sharer_def clear_all_sharers_def)
  qed
  moreover have "msg_op (example_msg READ_REQ) = READ_REQ" by (simp add: example_msg_def mk_msg_def)
  ultimately show ?thesis using read_after_grant_throws [OF reach, of "example_msg READ_REQ" 2] by blast
qed

text \<open>
  Sends and invalidations leave the directory alone.
\<close>

lemma preserves_entry [preserve_intros]: "preserves (\<lambda>s. entry_at k s = e) (send_message dm t m)"
  by (simp add: preserves_def)

lemma invalidate_entry: "entry_at k' (snd (invalidate_sharers dm k s)) = entry_at k' s"
proof -
  have "preserves (\<lambda>s'. entry_at k' s' = entry_at k' s)
      (forEach xs (\<lambda>i s. if has_sharer (entry_at k s) i then send_message dm i inv s else ret () s))" for xs inv
    by (intro preserve_intros)
  from preservesD [OF this, of "create_entry k s"] show ?thesis by (simp add: invalidate_sharers_def Let_def)
qed

text \<open>
  A read of a page that is not held exclusively: if the handler returns, the page is \<open>SHARED\<close>,
  the reader (of the first eight nodes) has joined the sharers and nobody has left them, the page's
  epoch has advanced by one, exactly one reply with that epoch went to the reader, and no other
  page's entry changed.
\<close>

theorem read_req_shares:
  assumes ret: "handle_message dm msg sender s = (Inr (), s')" and op: "msg_op msg = READ_REQ"
    and st: "dstate (entry_at (msg_key msg) s) \<noteq> EXCLUSIVE" and small: "unat sender < 8"
  shows "dstate (entry_at (msg_key msg) s') = SHARED \<and>
     (\<forall>n. has_sharer (entry_at (msg_key msg) s') n \<longleftrightarrow> has_sharer (entry_at (msg_key msg) s) n \<or> n = sender) \<and>
     depoch (entry_at (msg_key msg) s') = depoch (entry_at (msg_key msg) s) + 1 \<and>
     (\<exists>dst. calls s' = calls s @ [PutWithImm sender dst
         (mk_msg READ_REPLY (page_addr msg) (depoch (entry_at (msg_key msg) s'))) (op_code READ_REPLY)]) \<and>
     (\<forall>k. k \<noteq> msg_key msg \<longrightarrow> entry_at k s' = entry_at k s)"
proof -
  let ?k = "msg_key msg"
  have "reply_read dm ?k msg sender (create_entry ?k s) = (Inr (), s')"
    using ret op st by (simp add: handle_message_def handle_read_req_def Let_def andThen_def ret_def)
  moreover have sh: "dstate (share_with sender (entry_at ?k s)) = SHARED"
    using st by (cases "dstate (entry_at ?k s)") (simp_all add: share_with_def add_sharer_def Let_def)
  ultimately have "send_message dm sender (mk_msg READ_REPLY (page_addr msg) (depoch (share_with sender (entry_at ?k s))))
      (set_entry ?k (share_with sender) (create_entry ?k s)) = (Inr (), s')"
    by (simp add: reply_read_def Let_def entry_set_entry)
  from send_message_ok [OF this] obtain region where s': "s' = (set_entry ?k (share_with sender) (create_entry ?k s))\<lparr>calls := calls s @
      [PutWithImm sender \<lparr>ga_node_id = sender, ga_region_id = region, ga_offset = 0\<rparr>
        (mk_msg READ_REPLY (page_addr msg) (depoch (share_with sender (entry_at ?k s)))) (op_code READ_REPLY)]\<rparr>"
    by (auto simp: mk_msg_def)
  then have e: "entry_at ?k s' = share_with sender (entry_at ?k s)" by (simp add: entry_set_entry)
  have "has_sharer (share_with sender (entry_at ?k s)) n \<longleftrightarrow> has_sharer (entry_at ?k s) n \<or> n = sender" for n
    using has_add_sharer [of sender "entry_at ?k s" n] small by (simp add: share_with_def Let_def has_sharer_bit)
  moreover have "depoch (share_with sender (entry_at ?k s)) = depoch (entry_at ?k s) + 1"
    by (simp add: share_with_def Let_def add_sharer_def)
  moreover have "\<forall>k. k \<noteq> ?k \<longrightarrow> entry_at k s' = entry_at k s" using s' by (simp add: entry_set_entry)
  moreover have "\<exists>dst. calls s' = calls s @ [PutWithImm sender dst
         (mk_msg READ_REPLY (page_addr msg) (depoch (entry_at ?k s'))) (op_code READ_REPLY)]"
    using s' e by simp
  ultimately show ?thesis using sh unfolding e by blast
qed

theorem read_req_shares_witness:
  "\<exists>s'. handle_message (\<lambda>_. None) (example_msg READ_REQ) 2 (init_coherence 0 True 3\<lparr>msg_bufs := Mapping.update 2 9 Mapping.empty\<rparr>) = (Inr (), s') \<and>
     dstate (entry_at (msg_key (example_msg READ_REQ)) s') = SHARED"
proof -
  let ?s = "init_coherence 0 True 3\<lparr>msg_bufs := Mapping.update 2 9 Mapping.empty\<rparr>"
  have e: "entry_at k ?s = fresh_entry" for k by (simp add: entry_at_def init_coherence_def dir_entry_def)
  have m: "msg_op (example_msg READ_REQ) = READ_REQ" by (simp add: example_msg_def mk_msg_def)
  have "\<exists>s'. handle_message (\<lambda>_. None) (example_msg READ_REQ) 2 ?s = (Inr (), s')"
    using e m by (simp add: handle_message_def handle_read_req_def Let_def andThen_def ret_def fresh_entry_def
        reply_read_def send_message_def dmem_do_def mapping.look_put)
  then obtain s' where "handle_message (\<lambda>_. None) (example_msg READ_REQ) 2 ?s = (Inr (), s')" by blast
  with read_req_shares [OF this m] e show ?thesis by (auto simp: fresh_entry_def)
qed

text \<open>The nodes to which an operation has sent a message of a given kind.\<close>

definition sent_to :: "CoherenceOp \<Rightarrow> dmem_call list \<Rightarrow> u16 set" where
  "sent_to opc cs = {t. \<exists>dst m c. PutWithImm t dst m c \<in> set cs \<and> msg_op m = opc}"

lemma sent_to_append: "sent_to opc (xs @ ys) = sent_to opc xs \<union> sent_to opc ys"
  unfolding sent_to_def set_append by blast

lemma invalidate_loop_sends:
  assumes "forEach xs (\<lambda>i s. if has_sharer (entry_at k s) i then send_message dm i im s else ret () s) s = (Inr (), s')"
    and "msg_op im = INVALIDATE"
  shows "\<exists>cs. calls s' = calls s @ cs \<and> sent_to INVALIDATE cs = {i \<in> set xs. has_sharer (entry_at k s) i}"
  using assms(1)
proof (induction xs arbitrary: s)
  case Nil
  then show ?case by (simp add: sent_to_def)
next
  case (Cons i xs)
  show ?case
  proof (cases "has_sharer (entry_at k s) i")
    case True
    then obtain s1 where s1: "send_message dm i im s = (Inr (), s1)"
      using Cons.prems by (auto split: prod.splits sum.splits)
    from send_message_ok [OF this] obtain c where c: "s1 = s\<lparr>calls := calls s @ [c]\<rparr>" "sent_to INVALIDATE [c] = {i}"
      using assms(2) by (auto simp: sent_to_def)
    have "\<exists>cs. calls s' = calls s1 @ cs \<and> sent_to INVALIDATE cs = {i \<in> set xs. has_sharer (entry_at k s1) i}"
      using Cons.IH [of s1] Cons.prems s1 True by simp
    then obtain cs where cs: "calls s' = calls s1 @ cs" "sent_to INVALIDATE cs = {i \<in> set xs. has_sharer (entry_at k s) i}"
      using c(1) by auto
    have "sent_to INVALIDATE (c # cs) = sent_to INVALIDATE [c] \<union> sent_to INVALIDATE cs"
      using sent_to_append [of INVALIDATE "[c]" cs] by simp
    with c cs True show ?thesis by (intro exI [of _ "c # cs"]) auto
  next
    case False
    with Cons.prems have "forEach xs (\<lambda>i s. if has_sharer (entry_at k s) i then send_message dm i im s else ret () s) s = (Inr (), s')"
      by (simp add: ret_def)
    with Cons.IH [of s] False show ?thesis by auto
  qed
qed

text \<open>
  C29. An exclusive request: if the handler returns, the page is \<open>EXCLUSIVE\<close> with the requester (of the
  first eight nodes) as its only sharer, the epoch has advanced by one, and every other node of the
  cluster that was a sharer before has been sent an invalidation.
\<close>

theorem exclusive_req_grants:
  assumes ret: "handle_message dm msg sender s = (Inr (), s')" and op: "msg_op msg = EXCLUSIVE_REQ"
    and small: "unat sender < 8"
  shows "dstate (entry_at (msg_key msg) s') = EXCLUSIVE \<and>
     (\<forall>n. has_sharer (entry_at (msg_key msg) s') n \<longleftrightarrow> n = sender) \<and>
     depoch (entry_at (msg_key msg) s') = depoch (entry_at (msg_key msg) s) + 1 \<and>
     (\<forall>n \<in> set (other_nodes s). has_sharer (entry_at (msg_key msg) s) n \<longrightarrow>
        n \<in> sent_to INVALIDATE (drop (length (calls s)) (calls s')))"
proof -
  let ?k = "msg_key msg" and ?s0 = "create_entry (msg_key msg) s"
  let ?inval = "\<lambda>s. if 0 < sharer_count (entry_at ?k s) then invalidate_sharers dm ?k s else ret () s"
  let ?wb = "\<lambda>s. if dstate (entry_at ?k s) = EXCLUSIVE \<and> (ucast (exclusive_owner (entry_at ?k s)) :: u16) \<noteq> sender
                then request_writeback dm ?k msg s else ret () s"
  obtain s1 where s1: "?inval ?s0 = (Inr (), s1)"
    using ret op by (auto simp: handle_message_def handle_exclusive_req_def Let_def andThen_def split: prod.splits sum.splits)
  obtain s2 where s2: "?wb s1 = (Inr (), s2)"
    using ret op s1 by (auto simp: handle_message_def handle_exclusive_req_def Let_def andThen_def split: prod.splits sum.splits if_splits)
  have s3: "reply_grant dm ?k msg sender s2 = (Inr (), s')"
    using ret op s1 s2 by (simp add: handle_message_def handle_exclusive_req_def Let_def andThen_def split: if_splits)
  have e1: "entry_at k s1 = entry_at k s" for k
    using s1 invalidate_entry [of k dm ?k ?s0] by (auto simp: ret_def split: if_splits)
  obtain c2 where c2: "calls s2 = calls s1 @ c2" and e2: "entry_at k s2 = entry_at k s1" for k
  proof (cases "dstate (entry_at ?k s1) = EXCLUSIVE \<and> (ucast (exclusive_owner (entry_at ?k s1)) :: u16) \<noteq> sender")
    case True
    with s2 show ?thesis using that send_message_ok [of dm _ _ s1 "()" s2] by (fastforce simp: request_writeback_def)
  next
    case False
    with s2 have "s2 = s1" by (auto simp: ret_def split: if_splits)
    with that [of "[]"] show ?thesis by simp
  qed
  from s3 obtain c3 where c3: "s' = (set_entry ?k (grant_exclusive sender) s2)\<lparr>calls := calls s2 @ c3\<rparr>"
    using send_message_ok [of dm sender _ "set_entry ?k (grant_exclusive sender) s2" "()" s'] by (force simp: reply_grant_def Let_def)
  then have e: "entry_at ?k s' = grant_exclusive sender (entry_at ?k s)" using e1 e2 by (simp add: entry_set_entry)
  have "n \<in> sent_to INVALIDATE (drop (length (calls s)) (calls s'))"
    if n: "n \<in> set (other_nodes s)" and sh: "has_sharer (entry_at ?k s) n" for n
  proof -
    have "sharers (entry_at ?k s) \<noteq> 0" using sh by (auto simp: has_sharer_bit)
    then have "invalidate_sharers dm ?k ?s0 = (Inr (), s1)" using s1 by (simp flip: sharer_count_zero add: ret_def)
    then have "forEach (other_nodes s) (\<lambda>i s'. if has_sharer (entry_at ?k s') i
          then send_message dm i (mk_msg INVALIDATE null_gaddr (depoch (entry_at ?k s))) s' else ret () s')
        (create_entry ?k ?s0) = (Inr (), s1)"
      by (simp add: invalidate_sharers_def Let_def other_nodes_def cong: if_cong)
    from invalidate_loop_sends [OF this] obtain cs where
      "calls s1 = calls s @ cs" "sent_to INVALIDATE cs = {i \<in> set (other_nodes s). has_sharer (entry_at ?k s) i}"
      by (auto simp: mk_msg_def)
    then show ?thesis using n sh c2 c3 by (simp add: sent_to_append)
  qed
  moreover have "has_sharer (grant_exclusive sender (entry_at ?k s)) n \<longleftrightarrow> n = sender" for n
    using has_add_sharer [of sender _ n] small by (simp add: grant_exclusive_def Let_def has_sharer_bit clear_all_sharers_def)
  ultimately show ?thesis
    unfolding e by (simp add: grant_exclusive_def Let_def add_sharer_def clear_all_sharers_def)
qed

theorem exclusive_req_grants_witness:
  "\<exists>s'. handle_message (\<lambda>_. None) (example_msg EXCLUSIVE_REQ) 2 (init_coherence 0 True 3\<lparr>msg_bufs := Mapping.update 2 9 Mapping.empty\<rparr>) = (Inr (), s') \<and>
     dstate (entry_at (msg_key (example_msg EXCLUSIVE_REQ)) s') = EXCLUSIVE \<and>
     has_sharer (entry_at (msg_key (example_msg EXCLUSIVE_REQ)) s') 2"
proof -
  let ?s = "init_coherence 0 True 3\<lparr>msg_bufs := Mapping.update 2 9 Mapping.empty\<rparr>"
  have e: "entry_at k ?s = fresh_entry" for k by (simp add: entry_at_def init_coherence_def dir_entry_def)
  have m: "msg_op (example_msg EXCLUSIVE_REQ) = EXCLUSIVE_REQ" by (simp add: example_msg_def mk_msg_def)
  have "\<exists>s'. handle_message (\<lambda>_. None) (example_msg EXCLUSIVE_REQ) 2 ?s = (Inr (), s')"
    using e m by (simp add: handle_message_def exclusive_req_uncached(1) fresh_entry_def sharer_count_zero
        reply_grant_def Let_def send_message_def dmem_do_def mapping.look_put)
  then obtain s' where "handle_message (\<lambda>_. None) (example_msg EXCLUSIVE_REQ) 2 ?s = (Inr (), s')" by blast
  with exclusive_req_grants [OF this m] show ?thesis by auto
qed

lemma send_all_ok:
  assumes "forEach xs (\<lambda>i. send_message dm i m) s = (Inr (), s')"
  shows "\<exists>cs. s' = s\<lparr>calls := calls s @ cs\<rparr> \<and> sent_to (msg_op m) cs = set xs"
  using assms
proof (induction xs arbitrary: s)
  case Nil
  then show ?case by (intro exI [of _ "[]"]) (simp add: sent_to_def)
next
  case (Cons i xs)
  then obtain s1 where s1: "send_message dm i m s = (Inr (), s1)" "forEach xs (\<lambda>i. send_message dm i m) s1 = (Inr (), s')"
    by (auto split: prod.splits sum.splits)
  from send_message_ok [OF s1(1)] obtain c where c: "s1 = s\<lparr>calls := calls s @ [c]\<rparr>" "sent_to (msg_op m) [c] = {i}"
    by (auto simp: sent_to_def)
  from Cons.IH [OF s1(2)] obtain cs where "s' = s1\<lparr>calls := calls s1 @ cs\<rparr>" "sent_to (msg_op m) cs = set xs" by blast
  with c show ?case using sent_to_append [of "msg_op m" "[c]" cs] by (intro exI [of _ "c # cs"]) simp
qed

text \<open>
  The barrier does not wait for the head, and the head can miss it: when the last agent's
  announcement is handled, every agent is released although the head has not called
  \<open>barrier_all\<close>, and the counter is back at zero, so a head that calls it now keeps waiting.
\<close>

theorem barrier_misses_head:
  assumes "handle_message dm msg sender s = (Inr (), s')" and "msg_op msg = BARRIER_ENTER"
    and "2 \<le> num_nodes s" and "num_nodes s < 2 ^ 31" and "barrier_count s + 1 = agents s"
  shows "sent_to BARRIER_LEAVE (drop (length (calls s)) (calls s')) = set (other_nodes s) \<and>
         barrier_count s' = 0 \<and> barrier_all_head dm s' = None"
proof -
  let ?s1 = "s\<lparr>barrier_count := barrier_count s + 1\<rparr>"
  have "broadcast_leave dm ?s1 = (Inr (), s')"
    using assms(1,2,5) by (simp add: handle_message_def handle_barrier_enter_def Let_def)
  then obtain s2 where s2: "forEach (other_nodes s) (\<lambda>i. send_message dm i (mk_msg BARRIER_LEAVE null_gaddr (global_epoch s)))
      (?s1\<lparr>global_epoch := global_epoch s + 1\<rparr>) = (Inr (), s2)" "s' = s2\<lparr>barrier_count := 0\<rparr>"
    by (auto simp: broadcast_leave_def fetch_add_epoch_def andThen_def modify_def other_nodes_def split: prod.splits sum.splits)
  from send_all_ok [OF s2(1)] obtain cs where
    cs: "s2 = ?s1\<lparr>global_epoch := global_epoch s + 1, calls := calls s @ cs\<rparr>" "sent_to BARRIER_LEAVE cs = set (other_nodes s)"
    by (auto simp: mk_msg_def)
  have "0 < (of_int (int (num_nodes s) - 1) :: u32)"
  proof -
    have "(of_int (int (num_nodes s) - 1) :: u32) = word_of_nat (num_nodes s - 1)" using assms(3) by (simp add: of_nat_diff)
    moreover have "unat (word_of_nat (num_nodes s - 1) :: u32) = num_nodes s - 1"
      using assms(4) by (simp add: unsigned_of_nat take_bit_nat_eq_self)
    ultimately show ?thesis using assms(3) by (simp add: word_less_nat_alt)
  qed
  then show ?thesis using s2(2) cs by (simp add: barrier_all_head_def agents_def)
qed

theorem barrier_misses_head_witness:
  "\<exists>s'. handle_message (\<lambda>_. None) (example_msg BARRIER_ENTER) 1 (init_coherence 0 True 2\<lparr>msg_bufs := Mapping.update 1 9 Mapping.empty\<rparr>) = (Inr (), s') \<and>
     barrier_all_head (\<lambda>_. None) s' = None"
proof -
  let ?s = "init_coherence 0 True 2\<lparr>msg_bufs := Mapping.update 1 9 Mapping.empty\<rparr>"
  have m: "msg_op (example_msg BARRIER_ENTER) = BARRIER_ENTER" by (simp add: example_msg_def mk_msg_def)
  have o: "other_nodes (?s\<lparr>barrier_count := 1, global_epoch := 1\<rparr>) = [1]"
    by (simp add: other_nodes_def init_coherence_def upt_rec numeral_2_eq_2)
  have s: "barrier_count ?s = 0" "global_epoch ?s = 0" "agents ?s = 1" "msg_bufs ?s = Mapping.update 1 9 Mapping.empty"
    by (simp_all add: init_coherence_def agents_def)
  have "\<exists>s'. handle_message (\<lambda>_. None) (example_msg BARRIER_ENTER) 1 ?s = (Inr (), s')"
    using o s by (simp add: m handle_message_def handle_barrier_enter_def broadcast_leave_def
        fetch_add_epoch_def andThen_def modify_def send_message_def dmem_do_def mapping.look_put)
  then obtain s' where "handle_message (\<lambda>_. None) (example_msg BARRIER_ENTER) 1 ?s = (Inr (), s')" by blast
  with barrier_misses_head [OF this m] show ?thesis by (auto simp: init_coherence_def agents_def)
qed

text \<open>
  \<open>release\<close> writes nothing back: in every reachable state it does what \<open>acquire\<close> does, it drains
  pending operations and advances the epoch.
\<close>

theorem release_flushes_nothing:
  assumes "coh_reachable dm (init_coherence nid head n) s"
  shows "release dm keys s = acquire dm s"
proof -
  have "local_cache s = Mapping.empty" using inv_reachable [OF assms] by (simp add: coh_inv_def)
  then have "forEach keys (flush_page dm) s = (Inr (), s)"
    by (induction keys) (simp_all add: flush_page_def ret_def)
  then show ?thesis by (simp add: release_def acquire_def andThen_def)
qed

theorem release_flushes_nothing_witness:
  "release (\<lambda>_. None) [1, 2] (write_page_done null_gaddr (init_coherence 1 False 3)) =
   acquire (\<lambda>_. None) (write_page_done null_gaddr (init_coherence 1 False 3))"
  by (rule release_flushes_nothing [OF coh_reachable.reach_step [OF coh_reachable.reach_init step_write_done]])

end
