(* ===== verification/Memory_Pool.thy ===== *)
theory Memory_Pool
  imports Errors
begin

text \<open>
  The staging buffer pool: \<open>csrc/runtime/MemoryPool.hpp\<close> and \<open>MemoryPool.cpp\<close>. Sizes are 64-bit
  (\<open>size_t\<close>) and wrap. What \<open>posix_memalign\<close> returns for a size is an argument: an address, or no
  memory. Every method holds the pool's mutex, so each is one atomic operation.
\<close>

section \<open>The pool\<close>

record Buffer =
  buf_data :: u64
  capacity :: u64
  used :: u64

record MemoryPool =
  alignment :: u64
  pool :: "Buffer list"
  total_allocated :: u64

definition new_pool :: "u64 \<Rightarrow> MemoryPool" where
  "new_pool a = \<lparr>alignment = a, pool = [], total_allocated = 0\<rparr>"

definition align_up :: "u64 \<Rightarrow> u64 \<Rightarrow> u64" where
  "align_up n a = (n + a - 1) AND NOT (a - 1)"

definition better_fit :: "Buffer list \<Rightarrow> u64 \<Rightarrow> nat option \<Rightarrow> nat \<Rightarrow> nat option" where
  "better_fit p n best i =
     (if n \<le> capacity (p ! i) then
        (case best of None \<Rightarrow> Some i | Some b \<Rightarrow> if capacity (p ! i) < capacity (p ! b) then Some i else best)
      else best)"

definition best_fit :: "Buffer list \<Rightarrow> u64 \<Rightarrow> nat option" where
  "best_fit p n = foldl (better_fit p n) None [0..<length p]"

definition erase_at :: "nat \<Rightarrow> 'a list \<Rightarrow> 'a list" where
  "erase_at i xs = take i xs @ drop (Suc i) xs"

definition alloc_size :: "u64 \<Rightarrow> u64 \<Rightarrow> u64" where
  "alloc_size n a = align_up (if n \<le> push_bit 20 256 then n + drop_bit 2 n else n) a"

definition pool_acquire :: "(u64 \<Rightarrow> u64 option) \<Rightarrow> u64 \<Rightarrow> MemoryPool \<Rightarrow> (failure, MemoryPool, Buffer) res" where
  "pool_acquire memalign nbytes0 s =
     (let nbytes = align_up nbytes0 (alignment s) in
      case best_fit (pool s) nbytes of
        Some best \<Rightarrow> (Inr ((pool s ! best)\<lparr>used := nbytes\<rparr>), s\<lparr>pool := erase_at best (pool s)\<rparr>)
      | None \<Rightarrow>
          let size = alloc_size nbytes (alignment s) in
          case memalign size of
            None \<Rightarrow> throw (Thrown (MCCLError (''MemoryPool: allocation failed for '' @ to_string (unat size) @ '' bytes''))) s
          | Some ptr \<Rightarrow>
              if ptr = 0 then
                throw (Thrown (MCCLError (''MemoryPool: allocation failed for '' @ to_string (unat size) @ '' bytes''))) s
              else (Inr \<lparr>buf_data = ptr, capacity = size, used = nbytes\<rparr>,
                    s\<lparr>total_allocated := total_allocated s + size\<rparr>))"

definition pool_release :: "Buffer \<Rightarrow> MemoryPool \<Rightarrow> MemoryPool" where
  "pool_release b s = (if buf_data b = 0 then s else s\<lparr>pool := pool s @ [b\<lparr>used := 0\<rparr>]\<rparr>)"

definition trim :: "MemoryPool \<Rightarrow> MemoryPool" where
  "trim s = s\<lparr>pool := [], total_allocated := foldl (\<lambda>t b. t - capacity b) (total_allocated s) (pool s)\<rparr>"

definition pool_total :: "MemoryPool \<Rightarrow> u64" where
  "pool_total s = total_allocated s"

definition staging_memory_pool :: MemoryPool where
  "staging_memory_pool = new_pool 16384"

definition pooled_count :: "MemoryPool \<Rightarrow> nat" where
  "pooled_count s = length (pool s)"

text \<open>
  The guard \<open>PooledBuffer\<close>: a buffer that is handed back when the guard is destroyed or overwritten. A
  moved-from guard is empty.
\<close>

type_synonym guard = "Buffer option"

definition guard_new :: "(u64 \<Rightarrow> u64 option) \<Rightarrow> u64 \<Rightarrow> MemoryPool \<Rightarrow> (failure, MemoryPool, guard) res" where
  "guard_new memalign nbytes s = (case pool_acquire memalign nbytes s of (Inl e, s1) \<Rightarrow> (Inl e, s1) | (Inr b, s1) \<Rightarrow> (Inr (Some b), s1))"

definition guard_move :: "guard \<Rightarrow> guard \<times> guard" where
  "guard_move other = (other, None)"

definition guard_destroy :: "guard \<Rightarrow> MemoryPool \<Rightarrow> MemoryPool" where
  "guard_destroy g s = (case g of None \<Rightarrow> s | Some b \<Rightarrow> pool_release b s)"

definition guard_move_assign :: "guard \<Rightarrow> guard \<Rightarrow> MemoryPool \<Rightarrow> (guard \<times> guard) \<times> MemoryPool" where
  "guard_move_assign this other s = ((other, None), guard_destroy this s)"

section \<open>Alignment\<close>

lemma align_up_mask:
  assumes "a = 2 ^ k" and "k < 64"
  shows "align_up n a = push_bit k (drop_bit k (n + a - 1))"
  unfolding align_up_def assms(1)
  by (rule bit_word_eqI) (use assms(2) in \<open>auto simp: bit_simps mask_eq_exp_minus_1 [symmetric]\<close>)

lemma unat_align_up:
  assumes "a = 2 ^ k" and "k < 64" and "unat n + 2 ^ k \<le> 2 ^ 64"
  shows "unat (align_up n a) = (unat n + (2 ^ k - 1)) div 2 ^ k * 2 ^ k"
proof -
  have ua: "unat a = 2 ^ k" using assms(1,2) by (simp add: unat_exp64)
  have "unat (n + (a - 1)) = unat n + (2 ^ k - 1)"
  proof -
    have "unat (a - 1) = 2 ^ k - 1" using ua assms(1,2) by (subst unat_minus_one) auto
    moreover have "unat n + (2 ^ k - 1) < 2 ^ 64" using assms(3) by simp
    ultimately show ?thesis by (simp add: unat_word_ariths)
  qed
  then have s: "unat (n + a - 1) = unat n + (2 ^ k - 1)" by (simp add: add_diff_eq)
  have "unat (align_up n a) = unat (push_bit k (drop_bit k (n + a - 1)))"
    by (simp only: align_up_mask [OF assms(1,2)])
  also have "\<dots> = take_bit 64 (push_bit k (unat (n + a - 1) div 2 ^ k))"
  proof -
    have "take_bit 64 (unat (n + a - 1)) = unat (n + a - 1)"
      by (rule take_bit_nat_eq_self) (use unsigned_less [of "n + a - 1"] in simp)
    then show ?thesis by (simp only: unsigned_push_bit_eq unsigned_drop_bit_eq) (simp add: drop_bit_eq_div)
  qed
  also have "\<dots> = unat (n + a - 1) div 2 ^ k * 2 ^ k"
  proof -
    have "unat (n + a - 1) div 2 ^ k * 2 ^ k \<le> unat (n + a - 1)" by (rule div_times_less_eq_dividend)
    also have "\<dots> < 2 ^ 64" using unsigned_less [of "n + a - 1"] by simp
    finally show ?thesis by (simp add: push_bit_eq_mult take_bit_nat_eq_self)
  qed
  finally show ?thesis by (simp only: s)
qed

lemma align_up_bounds:
  assumes "a = 2 ^ k" and "k < 64" and "unat n + 2 ^ k \<le> 2 ^ 64"
  shows "unat n \<le> unat (align_up n a)" and "unat (align_up n a) < unat n + 2 ^ k" and "2 ^ k dvd unat (align_up n a)"
proof -
  let ?q = "(unat n + (2 ^ k - 1)) div 2 ^ k" and ?m = "(unat n + (2 ^ k - 1)) mod 2 ^ k"
  have e: "unat (align_up n a) = ?q * 2 ^ k" by (rule unat_align_up [OF assms])
  have "?q * 2 ^ k + ?m = unat n + (2 ^ k - 1)" by (rule div_mult_mod_eq)
  moreover have "?m < 2 ^ k" by simp
  ultimately show "unat n \<le> unat (align_up n a)" "unat (align_up n a) < unat n + 2 ^ k"
    unfolding e by linarith+
  show "2 ^ k dvd unat (align_up n a)" unfolding e by simp
qed

text \<open>
  \<open>align_up\<close> rounds to the next multiple of a power of two: the result is the least multiple of
  the alignment that is not below the argument, as long as the sum does not pass \<open>2 ^ 64\<close>.
\<close>

theorem align_up_least:
  assumes "a = 2 ^ k" and "k < 64" and "unat n + 2 ^ k \<le> 2 ^ 64"
  shows "unat n \<le> unat (align_up n a) \<and> 2 ^ k dvd unat (align_up n a) \<and>
     (\<forall>m. unat n \<le> m \<and> 2 ^ k dvd m \<longrightarrow> unat (align_up n a) \<le> m)"
proof -
  have "unat (align_up n a) \<le> m" if m: "unat n \<le> m" "2 ^ k dvd m" for m
  proof (rule ccontr)
    assume "\<not> unat (align_up n a) \<le> m"
    then have "m < unat (align_up n a)" by simp
    moreover obtain i j where "m = 2 ^ k * i" "unat (align_up n a) = 2 ^ k * j"
      using m(2) align_up_bounds(3) [OF assms] by (auto elim!: dvdE)
    ultimately have "m + 2 ^ k \<le> unat (align_up n a)"
      by (metis Suc_leI add.commute mult_Suc_right mult_le_mono2 nat_mult_less_cancel_disj)
    with m(1) align_up_bounds(2) [OF assms] show False by simp
  qed
  then show ?thesis using align_up_bounds [OF assms] by blast
qed

theorem align_up_least_witness: "unat (align_up 100 64) = 128 \<and> 64 dvd unat (align_up 100 64)"
  using align_up_least [of 64 6 100] by (simp add: align_up_def)

section \<open>Best fit\<close>

lemma best_fit_upto:
  assumes "k \<le> length p"
  shows "(case foldl (better_fit p n) None [0..<k] of
            None \<Rightarrow> \<forall>j < k. capacity (p ! j) < n
          | Some i \<Rightarrow> i < k \<and> n \<le> capacity (p ! i) \<and> (\<forall>j < k. n \<le> capacity (p ! j) \<longrightarrow> capacity (p ! i) \<le> capacity (p ! j)))"
  using assms
proof (induction k)
  case (Suc k)
  obtain r where r: "foldl (better_fit p n) None [0..<k] = r" by blast
  then have step: "foldl (better_fit p n) None [0..<Suc k] = better_fit p n r k" by simp
  show ?case
    using Suc.IH Suc.prems unfolding step r
    by (cases r) (auto simp: better_fit_def less_Suc_eq not_le not_less intro: order_less_imp_le order_trans)
qed simp

lemma best_fit_None: "best_fit p n = None \<longleftrightarrow> (\<forall>b \<in> set p. capacity b < n)"
  using best_fit_upto [of "length p" p n]
  by (auto simp: best_fit_def in_set_conv_nth split: option.splits) (metis leD nth_mem)

lemma best_fit_Some:
  "best_fit p n = Some i \<Longrightarrow> i < length p \<and> n \<le> capacity (p ! i) \<and>
     (\<forall>b \<in> set p. n \<le> capacity b \<longrightarrow> capacity (p ! i) \<le> capacity b)"
  using best_fit_upto [of "length p" p n] by (auto simp: best_fit_def in_set_conv_nth split: option.splits)

text \<open>A guard that goes out of scope leaves its buffer for the next one: a request of the same size is served from the pool, whatever the allocator would say.\<close>

lemma guard_reuse:
  assumes "buf_data b \<noteq> 0" and "align_up nbytes (alignment s) \<le> capacity b"
  shows "\<exists>b' s'. guard_new memalign nbytes (guard_destroy (Some b) s) = (Inr (Some b'), s') \<and> pool_total s' = pool_total s \<and>
    align_up nbytes (alignment s) \<le> capacity b'"
proof -
  let ?p = "pool s @ [b\<lparr>used := 0\<rparr>]" and ?n = "align_up nbytes (alignment s)"
  obtain i where i: "best_fit ?p ?n = Some i" using best_fit_None [of ?p ?n] assms(2) by fastforce
  then show ?thesis using assms(1) best_fit_Some [OF i]
    by (auto simp: guard_new_def guard_destroy_def pool_release_def pool_acquire_def pool_total_def Let_def)
qed

lemma mset_erase_at: "i < length xs \<Longrightarrow> mset (erase_at i xs) + {#xs ! i#} = mset xs"
  unfolding erase_at_def using id_take_nth_drop [of i xs] by (metis mset_append mset.simps(2) add_mset_add_single union_mset_add_mset_right)

section \<open>Acquisition\<close>

lemma alloc_size_ge:
  assumes a: "a = 2 ^ k" "k < 62" and n: "unat n \<le> 2 ^ 62"
  shows "n \<le> alloc_size n a"
proof -
  let ?m = "if n \<le> push_bit 20 256 then n + drop_bit 2 n else n"
  have d: "unat (drop_bit 2 n) = unat n div 4" by (simp add: drop_bit_eq_div unat_div_distrib)
  have k: "(2 :: nat) ^ k \<le> 2 ^ 61" using a(2) by (intro power_increasing) auto
  have "unat (n + drop_bit 2 n) = unat n + unat n div 4" using n d by (simp add: unat_word_ariths)
  then have le: "unat n \<le> unat ?m" and lt: "unat ?m \<le> unat n + unat n div 4" by auto
  have "unat ?m + 2 ^ k \<le> 2 ^ 64" using lt k n by simp
  then have "unat ?m \<le> unat (align_up ?m a)" using align_up_bounds(1) [OF a(1), of ?m] a(2) by simp
  then show ?thesis using le unfolding alloc_size_def word_le_nat_alt by (rule order_trans [rotated])
qed

text \<open>
  An acquired buffer is large enough and well chosen: its capacity is at least the aligned
  request, which is at least the request; a pooled buffer is reused whenever one is large enough, and
  then one of least capacity; only otherwise memory is allocated, and only a failed allocation throws.
\<close>

theorem pool_acquire_fits:
  assumes a: "alignment s = 2 ^ k" "k < 61" and n: "unat n \<le> 2 ^ 61"
  shows "(case pool_acquire memalign n s of
      (Inr b, s') \<Rightarrow> n \<le> used b \<and> used b \<le> capacity b \<and> 2 ^ k dvd unat (used b) \<and>
        (if \<exists>p \<in> set (pool s). used b \<le> capacity p
         then (\<exists>p \<in> set (pool s). b = p\<lparr>used := used b\<rparr> \<and> mset (pool s') + {#p#} = mset (pool s) \<and>
                (\<forall>q \<in> set (pool s). used b \<le> capacity q \<longrightarrow> capacity p \<le> capacity q)) \<and>
              total_allocated s' = total_allocated s
         else pool s' = pool s \<and> total_allocated s' = total_allocated s + capacity b)
    | (Inl e, s') \<Rightarrow> s' = s \<and> (\<forall>p \<in> set (pool s). capacity p < align_up n (2 ^ k)))"
proof -
  let ?n = "align_up n (2 ^ k)"
  have k61: "(2 :: nat) ^ k \<le> 2 ^ 60" using a(2) by (intro power_increasing) auto
  have fit: "unat n + 2 ^ k \<le> 2 ^ 64" using n k61 by simp
  note al = align_up_bounds [OF refl _ fit]
  have ge: "n \<le> ?n" and dv: "2 ^ k dvd unat ?n" using al(1,3) a(2) by (simp_all add: word_le_nat_alt)
  have "unat ?n \<le> 2 ^ 62" using al(2) a(2) n k61 by simp
  then have sz: "?n \<le> alloc_size ?n (2 ^ k)" using alloc_size_ge [OF refl, of k ?n] a(2) by simp
  show ?thesis
  proof (cases "best_fit (pool s) ?n")
    case None
    then have "\<forall>p \<in> set (pool s). capacity p < ?n" by (simp add: best_fit_None)
    then show ?thesis using None ge dv sz a(1)
      by (auto simp: pool_acquire_def Let_def throw_def not_le split: option.split)
  next
    case (Some i)
    from best_fit_Some [OF this] have i: "i < length (pool s)" "?n \<le> capacity (pool s ! i)"
      "\<forall>b \<in> set (pool s). ?n \<le> capacity b \<longrightarrow> capacity (pool s ! i) \<le> capacity b" by auto
    then have mem: "pool s ! i \<in> set (pool s)" by simp
    show ?thesis using Some ge dv a(1) i mem mset_erase_at [OF i(1)]
      by (auto simp: pool_acquire_def intro!: bexI [of _ "pool s ! i"])
  qed
qed

theorem pool_acquire_fits_witness:
  "case pool_acquire (\<lambda>_. Some 4096) 100 (new_pool 64) of
     (Inr b, s') \<Rightarrow> 100 \<le> used b \<and> used b \<le> capacity b | (Inl e, s') \<Rightarrow> True"
  using pool_acquire_fits [of "new_pool 64" 6 100 "\<lambda>_. Some 4096"]
  by (auto simp: new_pool_def split: prod.splits sum.splits)

section \<open>Accounting\<close>

text \<open>
  A run of the pool together with the buffers that its clients hold. A client releases only what it
  holds.
\<close>

inductive pool_step :: "(u64 \<Rightarrow> u64 option) \<Rightarrow> MemoryPool \<times> Buffer multiset \<Rightarrow> MemoryPool \<times> Buffer multiset \<Rightarrow> bool"
  for memalign where
  acquired: "pool_acquire memalign n s = (Inr b, s') \<Longrightarrow> pool_step memalign (s, held) (s', held + {#b#})"
| refused: "pool_acquire memalign n s = (Inl e, s') \<Longrightarrow> pool_step memalign (s, held) (s', held)"
| released: "b \<in># held \<Longrightarrow> pool_step memalign (s, held) (pool_release b s, held - {#b#})"
| trimmed: "pool_step memalign (s, held) (trim s, held)"

inductive_cases pool_stepE: "pool_step memalign (s, held) c"

definition capacities :: "Buffer multiset \<Rightarrow> u64" where
  "capacities bs = (\<Sum>b \<in># bs. capacity b)"

definition pool_inv :: "MemoryPool \<times> Buffer multiset \<Rightarrow> bool" where
  "pool_inv c = (case c of (s, held) \<Rightarrow>
     (\<forall>b \<in># mset (pool s) + held. buf_data b \<noteq> 0) \<and>
     total_allocated s = capacities (mset (pool s) + held))"

lemma capacities_add [simp]: "capacities (x + y) = capacities x + capacities y"
  by (simp add: capacities_def)

lemma capacities_add_mset [simp]: "capacities (add_mset b x) = capacity b + capacities x"
  by (simp add: capacities_def)

lemma capacities_empty [simp]: "capacities {#} = 0"
  by (simp add: capacities_def)

lemma foldl_minus_capacity: "foldl (\<lambda>t b. t - capacity b) t bs = t - capacities (mset bs)"
  by (induction bs arbitrary: t) (simp_all add: capacities_def)

lemma pool_inv_acquired:
  assumes "pool_inv (s, held)" and "pool_acquire memalign n s = (Inr b, s')"
  shows "pool_inv (s', held + {#b#})"
proof (cases "best_fit (pool s) (align_up n (alignment s))")
  case None
  with assms show ?thesis
    by (auto simp: pool_acquire_def Let_def throw_def pool_inv_def add_ac split: option.splits if_splits)
next
  case (Some i)
  with best_fit_Some have i: "i < length (pool s)" by blast
  note e = mset_erase_at [OF i, symmetric]
  have s': "s' = s\<lparr>pool := erase_at i (pool s)\<rparr>" "b = (pool s ! i)\<lparr>used := align_up n (alignment s)\<rparr>"
    using assms(2) Some by (auto simp: pool_acquire_def)
  have "set_mset (mset (erase_at i (pool s))) \<subseteq> set (pool s)"
    using e by (metis set_mset_mset mset_subset_eq_add_left set_mset_mono)
  moreover have "pool s ! i \<in> set (pool s)" using i by simp
  moreover have "capacities (mset (pool s)) = capacities (mset (erase_at i (pool s))) + capacity (pool s ! i)"
    by (subst e) simp
  ultimately show ?thesis using assms(1) s' by (auto simp: pool_inv_def add_ac)
qed

lemma pool_inv_step: "pool_step memalign c c' \<Longrightarrow> pool_inv c \<Longrightarrow> pool_inv c'"
proof (induction rule: pool_step.induct)
  case (acquired n s b s' held)
  then show ?case by (blast intro: pool_inv_acquired)
next
  case (refused n s e s' held)
  then have "s' = s" by (auto simp: pool_acquire_def Let_def throw_def split: option.splits if_splits)
  with refused show ?case by simp
next
  case (released b held s)
  then have "buf_data b \<noteq> 0" by (auto simp: pool_inv_def)
  moreover have "capacities held = capacities (held - {#b#}) + capacity b"
    using released(1) capacities_add [of "held - {#b#}" "{#b#}"] by simp
  ultimately show ?case using released
    by (auto simp: pool_inv_def pool_release_def add_ac dest: in_diffD)
next
  case (trimmed s held)
  then show ?case by (auto simp: pool_inv_def trim_def foldl_minus_capacity)
qed

inductive pool_reachable :: "(u64 \<Rightarrow> u64 option) \<Rightarrow> u64 \<Rightarrow> MemoryPool \<times> Buffer multiset \<Rightarrow> bool" for memalign a where
  reach_new: "pool_reachable memalign a (new_pool a, {#})"
| reach_next: "pool_reachable memalign a c \<Longrightarrow> pool_step memalign c c' \<Longrightarrow> pool_reachable memalign a c'"

text \<open>
  C40. Nothing is lost or counted twice: in every reachable state the reported total is the sum of
  the capacities of the pooled buffers and of the buffers in use, and after \<open>trim\<close> it is the sum of
  the buffers in use.
\<close>

theorem pool_accounting:
  assumes "pool_reachable memalign a (s, held)"
  shows "total_allocated s = capacities (mset (pool s) + held) \<and>
     total_allocated (trim s) = capacities held \<and> pooled_count (trim s) = 0"
proof -
  have init: "pool_inv (new_pool a, {#})" by (simp add: pool_inv_def new_pool_def)
  have "pool_inv c" if "pool_reachable memalign a c" for c
    using that by (induction rule: pool_reachable.induct) (auto intro: pool_inv_step init)
  then show ?thesis using assms
    by (fastforce simp: pool_inv_def trim_def foldl_minus_capacity pooled_count_def)
qed

theorem pool_accounting_witness:
  "total_allocated (pool_release \<lparr>buf_data = 4096, capacity = 192, used = 128\<rparr>
     (new_pool 64\<lparr>total_allocated := 192\<rparr>)) = 192"
proof -
  let ?b = "\<lparr>buf_data = 4096, capacity = 192, used = 128 :: u64\<rparr>" and ?s = "new_pool 64\<lparr>total_allocated := 192\<rparr>"
  have "pool_acquire (\<lambda>_. Some 4096) 100 (new_pool 64) = (Inr ?b, ?s)"
    by (simp add: pool_acquire_def new_pool_def best_fit_def Let_def align_up_def alloc_size_def)
  from pool_step.acquired [OF this, of "{#}"] have "pool_reachable (\<lambda>_. Some 4096) 64 (?s, {#?b#})"
    using pool_reachable.reach_next [OF pool_reachable.reach_new] by simp
  from pool_reachable.reach_next [OF this pool_step.released [of ?b]]
  have "pool_reachable (\<lambda>_. Some 4096) 64 (pool_release ?b ?s, {#})" by simp
  from pool_accounting [OF this] show ?thesis by (simp add: pool_release_def new_pool_def capacities_def)
qed

end
