(* ===== verification/Scheduler.thy ===== *)
theory Scheduler
  imports Double Errors
begin

text \<open>
  The job scheduler: \<open>csrc/runtime/Scheduler.hpp\<close> and \<open>Scheduler.cpp\<close>. The clock (\<open>now_us\<close>) is an
  argument of the operations that read it. Every method holds the scheduler's mutex, so each is one
  atomic operation. \<open>std::sort\<close> leaves the order of equal elements open; the model keeps it.
\<close>

section \<open>Jobs, loads and the scheduler state\<close>

datatype JobPriority = LOW | NORMAL | HIGH | CRITICAL

fun prio :: "JobPriority \<Rightarrow> nat" where
  "prio LOW = 0" | "prio NORMAL = 1" | "prio HIGH = 2" | "prio CRITICAL = 3"

datatype JobStatus = PENDING | RUNNING | COMPLETED | FAILED | RESCHEDULING

record JobDescriptor =
  job_id :: u64
  jname :: string
  owner :: string
  requested_nodes :: u16
  job_memory :: u64
  estimated_duration_s :: rat
  priority :: JobPriority
  status :: JobStatus
  assigned_nodes :: "u16 list"
  submitted_at_us :: u64
  started_at_us :: u64
  completed_at_us :: u64

record NodeLoad =
  memory_used :: u64
  compute_utilization :: rat
  load_active_jobs :: int

record Scheduler =
  node_memory :: u64
  preemption_enabled :: bool
  next_job_id :: u64
  queue :: "JobDescriptor list"
  active :: "JobDescriptor list"
  history :: "JobDescriptor list"
  tenant_stats :: "(string, u64) mapping"
  running :: bool

definition new_scheduler :: "u64 \<Rightarrow> bool \<Rightarrow> Scheduler" where
  "new_scheduler mem preempt =
     \<lparr>node_memory = mem, preemption_enabled = preempt, next_job_id = 1, queue = [], active = [], history = [],
      tenant_stats = Mapping.empty, running = False\<rparr>"

definition sched_start :: "Scheduler \<Rightarrow> Scheduler" where "sched_start s = s\<lparr>running := True\<rparr>"
definition sched_shutdown :: "Scheduler \<Rightarrow> Scheduler" where "sched_shutdown s = s\<lparr>running := False\<rparr>"

section \<open>Job management\<close>

definition submit :: "u64 \<Rightarrow> JobDescriptor \<Rightarrow> Scheduler \<Rightarrow> u64 \<times> Scheduler" where
  "submit now job s =
     (let j = job\<lparr>job_id := next_job_id s, status := PENDING, submitted_at_us := now\<rparr> in
      (job_id j, s\<lparr>next_job_id := next_job_id s + 1, queue := queue s @ [j]\<rparr>))"

text \<open>\<open>std::find_if\<close> followed by \<open>erase\<close>: the first element that satisfies the predicate leaves the list.\<close>

fun extract_first :: "('a \<Rightarrow> bool) \<Rightarrow> 'a list \<Rightarrow> ('a \<times> 'a list) option" where
  "extract_first P [] = None"
| "extract_first P (x # xs) =
     (if P x then Some (x, xs) else map_option (\<lambda>(y, ys). (y, x # ys)) (extract_first P xs))"

definition cancel :: "u64 \<Rightarrow> u64 \<Rightarrow> Scheduler \<Rightarrow> bool \<times> Scheduler" where
  "cancel now jid s =
     (case extract_first (\<lambda>j. job_id j = jid) (queue s) of
        Some (_, q) \<Rightarrow> (True, s\<lparr>queue := q\<rparr>)
      | None \<Rightarrow>
         (case extract_first (\<lambda>j. job_id j = jid) (active s) of
            Some (j, a) \<Rightarrow> (True, s\<lparr>active := a, history := history s @ [j\<lparr>status := FAILED, completed_at_us := now\<rparr>]\<rparr>)
          | None \<Rightarrow> (False, s)))"

definition node_seconds :: "string \<Rightarrow> (string, u64) mapping \<Rightarrow> u64" where
  "node_seconds o' m = (case Mapping.lookup m o' of Some n \<Rightarrow> n | None \<Rightarrow> 0)"

definition complete :: "u64 \<Rightarrow> u64 \<Rightarrow> bool \<Rightarrow> Scheduler \<Rightarrow> bool \<times> Scheduler" where
  "complete now jid success s =
     (case extract_first (\<lambda>j. job_id j = jid) (active s) of
        None \<Rightarrow> (False, s)
      | Some (j0, a) \<Rightarrow>
          let j = j0\<lparr>status := (if success then COMPLETED else FAILED), completed_at_us := now\<rparr>;
              stats = (if 0 < started_at_us j
                       then Mapping.update (owner j)
                              (node_seconds (owner j) (tenant_stats s) +
                               (completed_at_us j - started_at_us j) div 1000000 * of_nat (length (assigned_nodes j)))
                              (tenant_stats s)
                       else tenant_stats s) in
          (True, s\<lparr>active := a, history := history s @ [j], tenant_stats := stats\<rparr>))"

section \<open>Fair share\<close>

definition to_double :: "u64 \<Rightarrow> rat" where
  "to_double n = round53 (of_nat (unat n))"

text \<open>\<open>owners\<close> is the order in which a loop visits the tenant table.\<close>

definition total_node_seconds :: "string list \<Rightarrow> (string, u64) mapping \<Rightarrow> u64" where
  "total_node_seconds owners m = foldl (\<lambda>t o'. t + node_seconds o' m) 0 owners"

definition tenant_share :: "string list \<Rightarrow> string \<Rightarrow> Scheduler \<Rightarrow> rat" where
  "tenant_share owners o' s =
     (case Mapping.lookup (tenant_stats s) o' of
        None \<Rightarrow> 0
      | Some n \<Rightarrow> let total_s = total_node_seconds owners (tenant_stats s) in
          if total_s = 0 then 0 else round53 (to_double n / to_double total_s))"

definition below_fair_share :: "u64 \<Rightarrow> nat \<Rightarrow> u64 \<Rightarrow> bool" where
  "below_fair_share n tenants total_s \<longleftrightarrow>
     round53 (to_double n / to_double (max total_s 1)) < round53 (1 / of_nat (max tenants 1))"

definition boost :: "u64 \<Rightarrow> (string, u64) mapping \<Rightarrow> JobDescriptor \<Rightarrow> JobDescriptor" where
  "boost total_s stats job =
     (case Mapping.lookup stats (owner job) of
        Some n \<Rightarrow> if below_fair_share n (Mapping.size stats) total_s \<and> priority job = LOW
                  then job\<lparr>priority := NORMAL\<rparr> else job
      | None \<Rightarrow> job)"

section \<open>Allocation\<close>

definition node_fits :: "u64 \<Rightarrow> JobDescriptor \<Rightarrow> NodeLoad list \<Rightarrow> u16 \<Rightarrow> bool" where
  "node_fits cap job loads nid \<longleftrightarrow>
     unat nid < length loads \<and> memory_used (loads ! unat nid) + job_memory job \<le> cap"

definition can_allocate :: "u64 \<Rightarrow> JobDescriptor \<Rightarrow> u16 list \<Rightarrow> NodeLoad list \<Rightarrow> bool" where
  "can_allocate cap job online loads \<longleftrightarrow>
     unat (requested_nodes job) \<le> length (filter (node_fits cap job loads) online)"

fun allocate_loop :: "u64 \<Rightarrow> JobDescriptor \<Rightarrow> u16 list \<Rightarrow> NodeLoad list \<Rightarrow> JobDescriptor \<times> NodeLoad list" where
  "allocate_loop cap job [] loads = (job, loads)"
| "allocate_loop cap job (nid # online) loads =
     (if unat (requested_nodes job) \<le> length (assigned_nodes job) then (job, loads)
      else if \<not> node_fits cap job loads nid then allocate_loop cap job online loads
      else let l = loads ! unat nid in
        allocate_loop cap (job\<lparr>assigned_nodes := assigned_nodes job @ [nid]\<rparr>) online
          (loads[unat nid := l\<lparr>memory_used := memory_used l + job_memory job, load_active_jobs := load_active_jobs l + 1\<rparr>]))"

definition allocate :: "u64 \<Rightarrow> JobDescriptor \<Rightarrow> u16 list \<Rightarrow> NodeLoad list \<Rightarrow> JobDescriptor \<times> NodeLoad list" where
  "allocate cap job online loads = allocate_loop cap (job\<lparr>assigned_nodes := []\<rparr>) online loads"

section \<open>The scheduling tick\<close>

definition sort_queue :: "JobDescriptor list \<Rightarrow> JobDescriptor list" where
  "sort_queue q = sort_key (\<lambda>j. 3 - prio (priority j)) (sort_key submitted_at_us q)"

text \<open>The first pass over the queue: waiting jobs, started jobs, and the loads they leave.\<close>

fun start_jobs :: "u64 \<Rightarrow> u64 \<Rightarrow> u16 list \<Rightarrow> JobDescriptor list \<Rightarrow> NodeLoad list \<Rightarrow>
    JobDescriptor list \<times> JobDescriptor list \<times> NodeLoad list" where
  "start_jobs now cap online [] loads = ([], [], loads)"
| "start_jobs now cap online (job # q) loads =
     (if can_allocate cap job online loads then
        let (j, loads1) = allocate cap job online loads;
            (waiting, started, loads2) = start_jobs now cap online q loads1 in
        (waiting, j\<lparr>status := RUNNING, started_at_us := now\<rparr> # started, loads2)
      else
        let (waiting, started, loads2) = start_jobs now cap online q loads in
        (job # waiting, started, loads2))"

text \<open>
  The preemption pass. Evicting a job pushes it to the front of the queue that is being iterated,
  which invalidates the loop's iterators; the behaviour from there on is undefined. Without an
  eviction each examined job ends with the removal of active jobs that have no nodes.
\<close>

definition preemptible :: "JobDescriptor \<Rightarrow> JobDescriptor \<Rightarrow> bool" where
  "preemptible job a \<longleftrightarrow> priority a = LOW \<and> unat (requested_nodes job) \<le> length (assigned_nodes a)"

fun preempt_pass :: "u64 \<Rightarrow> u16 list \<Rightarrow> NodeLoad list \<Rightarrow> JobDescriptor list \<Rightarrow> JobDescriptor list \<Rightarrow> failure + JobDescriptor list" where
  "preempt_pass cap online loads [] act = Inr act"
| "preempt_pass cap online loads (job # q) act =
     (if prio (priority job) < prio HIGH then preempt_pass cap online loads q act
      else if can_allocate cap job online loads then preempt_pass cap online loads q act
      else if \<exists>a \<in> set act. preemptible job a then Inl Undefined
      else preempt_pass cap online loads q (filter (\<lambda>j. assigned_nodes j \<noteq> []) act))"

definition schedule_tick :: "u64 \<Rightarrow> string list \<Rightarrow> u16 list \<Rightarrow> NodeLoad list \<Rightarrow> Scheduler \<Rightarrow>
    (failure + nat \<times> NodeLoad list) \<times> Scheduler" where
  "schedule_tick now owners online loads s =
     (let q0 = sort_queue (queue s);
          total_s = total_node_seconds owners (tenant_stats s);
          q1 = (if 0 < total_s then map (boost total_s (tenant_stats s)) q0 else q0);
          (waiting, started, loads1) = start_jobs now (node_memory s) online q1 loads;
          act = active s @ started;
          s1 = s\<lparr>queue := waiting, active := act\<rparr> in
      if preemption_enabled s then
        case preempt_pass (node_memory s) online loads1 waiting act of
          Inl e \<Rightarrow> (Inl e, s1)
        | Inr act' \<Rightarrow> (Inr (length started, loads1), s1\<lparr>active := act'\<rparr>)
      else (Inr (length started, loads1), s1))"

section \<open>Queries and fault recovery\<close>

definition pending_jobs :: "Scheduler \<Rightarrow> JobDescriptor list" where "pending_jobs s = queue s"
definition active_jobs :: "Scheduler \<Rightarrow> JobDescriptor list" where "active_jobs s = active s"

definition recent_history :: "int \<Rightarrow> Scheduler \<Rightarrow> JobDescriptor list" where
  "recent_history limit s =
     (let n = min limit (int (length (history s))) in drop (length (history s) - nat n) (history s))"

definition queue_depth :: "Scheduler \<Rightarrow> nat" where "queue_depth s = length (queue s)"
definition active_count :: "Scheduler \<Rightarrow> nat" where "active_count s = length (active s)"

definition evict_job :: "u64 \<Rightarrow> u16 \<Rightarrow> JobDescriptor \<Rightarrow> Scheduler \<Rightarrow> JobDescriptor \<times> Scheduler" where
  "evict_job now failed job s =
     (if failed \<notin> set (assigned_nodes job) then (job, s)
      else let j = job\<lparr>assigned_nodes := remove1 failed (assigned_nodes job)\<rparr> in
        if assigned_nodes j = [] then
          let j' = j\<lparr>status := FAILED, completed_at_us := now\<rparr> in (j', s\<lparr>history := history s @ [j']\<rparr>)
        else let j' = j\<lparr>status := RESCHEDULING\<rparr> in (j', s\<lparr>queue := j' # queue s\<rparr>))"

fun evict_loop :: "u64 \<Rightarrow> u16 \<Rightarrow> JobDescriptor list \<Rightarrow> Scheduler \<Rightarrow> JobDescriptor list \<times> Scheduler" where
  "evict_loop now failed [] s = ([], s)"
| "evict_loop now failed (job # jobs) s =
     (let (j, s1) = evict_job now failed job s; (js, s2) = evict_loop now failed jobs s1 in (j # js, s2))"

definition evict_node :: "u64 \<Rightarrow> u16 \<Rightarrow> Scheduler \<Rightarrow> Scheduler" where
  "evict_node now failed s =
     (let (jobs, s1) = evict_loop now failed (active s) s in
      s1\<lparr>active := filter (\<lambda>j. status j \<noteq> FAILED \<and> status j \<noteq> RESCHEDULING) jobs\<rparr>)"

section \<open>Allocation is exact\<close>

lemma fits_update_other:
  "nid \<noteq> n' \<Longrightarrow> node_fits cap job (loads[unat nid := l]) n' \<longleftrightarrow> node_fits cap job loads n'"
  by (auto simp: node_fits_def word_unat_eq_iff)

lemma fits_job_cong: "job_memory j = job_memory job \<Longrightarrow> node_fits cap j = node_fits cap job"
  by (simp add: node_fits_def fun_eq_iff)

definition charge :: "JobDescriptor \<Rightarrow> NodeLoad \<Rightarrow> NodeLoad" where
  "charge job l = l\<lparr>memory_used := memory_used l + job_memory job, load_active_jobs := load_active_jobs l + 1\<rparr>"

definition fitting :: "nat \<Rightarrow> u64 \<Rightarrow> JobDescriptor \<Rightarrow> u16 list \<Rightarrow> NodeLoad list \<Rightarrow> u16 list" where
  "fitting k cap job online loads = take k (filter (node_fits cap job loads) online)"

definition charge_all :: "JobDescriptor \<Rightarrow> u16 list \<Rightarrow> NodeLoad list \<Rightarrow> NodeLoad list" where
  "charge_all job ns loads = fold (\<lambda>n ls. ls[unat n := charge job (ls ! unat n)]) ns loads"

lemma allocate_loop_spec:
  "distinct online \<Longrightarrow> allocate_loop cap job online loads =
     (let chosen = fitting (unat (requested_nodes job) - length (assigned_nodes job)) cap job online loads in
      (job\<lparr>assigned_nodes := assigned_nodes job @ chosen\<rparr>, charge_all job chosen loads))"
  unfolding fitting_def charge_all_def Let_def
proof (induction online arbitrary: job loads)
  case (Cons nid online)
  show ?case
  proof (cases "unat (requested_nodes job) \<le> length (assigned_nodes job)")
    case False
    show ?thesis
    proof (cases "node_fits cap job loads nid")
      case True
      let ?job = "job\<lparr>assigned_nodes := assigned_nodes job @ [nid]\<rparr>" and ?loads = "loads[unat nid := charge job (loads ! unat nid)]"
      have m: "job_memory ?job = job_memory job" by simp
      have "filter (node_fits cap ?job ?loads) online = filter (node_fits cap job loads) online"
      proof -
        have "node_fits cap job ?loads x = node_fits cap job loads x" if "x \<in> set online" for x
          using that Cons.prems by (intro fits_update_other) auto
        then show ?thesis unfolding fits_job_cong [OF m] by (simp cong: filter_cong)
      qed
      moreover have "charge ?job = charge job" by (simp add: charge_def fun_eq_iff)
      moreover have "Suc (unat (requested_nodes job) - Suc (length (assigned_nodes job))) = unat (requested_nodes job) - length (assigned_nodes job)"
        using False by simp
      ultimately show ?thesis
        using False True Cons.IH [of ?job ?loads] Cons.prems by (simp add: charge_def Let_def take_Suc_Cons flip: \<open>Suc _ = _\<close>)
    next
      case False': False
      then show ?thesis using False Cons.IH [of job loads] Cons.prems by simp
    qed
  qed simp
qed simp

lemma allocate_spec:
  assumes "distinct online"
  shows "allocate cap job online loads =
     (let chosen = fitting (unat (requested_nodes job)) cap job online loads in
      (job\<lparr>assigned_nodes := chosen\<rparr>, charge_all job chosen loads))"
proof -
  have m: "job_memory (job\<lparr>assigned_nodes := []\<rparr>) = job_memory job" by simp
  have "charge (job\<lparr>assigned_nodes := []\<rparr>) = charge job" by (simp add: charge_def fun_eq_iff)
  then show ?thesis
    unfolding allocate_def using allocate_loop_spec [OF assms, of cap "job\<lparr>assigned_nodes := []\<rparr>" loads]
    by (simp add: fitting_def charge_all_def Let_def fits_job_cong [OF m])
qed

lemma length_charge_all [simp]: "length (charge_all job ns loads) = length loads"
  unfolding charge_all_def by (induction ns arbitrary: loads) simp_all

lemma charge_all_nth:
  "distinct ns \<Longrightarrow> i < length loads \<Longrightarrow>
   charge_all job ns loads ! i = (if i \<in> unat ` set ns then charge job (loads ! i) else loads ! i)"
  unfolding charge_all_def
proof (induction ns arbitrary: loads)
  case (Cons n ns)
  have "unat n \<notin> unat ` set ns" using Cons.prems(1) by (auto simp: word_unat_eq_iff [symmetric])
  then have "i \<in> unat ` set ns \<Longrightarrow> unat n \<noteq> i" by auto
  then show ?case using Cons by (cases "unat n = i"; cases "i \<in> unat ` set ns") (simp_all add: nth_list_update)
qed simp

text \<open>The memory that a list of started jobs takes on node \<open>i\<close>.\<close>

definition taken :: "JobDescriptor list \<Rightarrow> nat \<Rightarrow> nat" where
  "taken jobs i = (\<Sum>j \<leftarrow> jobs. if i \<in> unat ` set (assigned_nodes j) then unat (job_memory j) else 0)"

definition mem_at :: "NodeLoad list \<Rightarrow> nat \<Rightarrow> nat" where
  "mem_at loads i = unat (memory_used (loads ! i))"

text \<open>A check that does not wrap: every job's memory and the node size add up below \<open>2 ^ 64\<close>.\<close>

definition no_wrap :: "u64 \<Rightarrow> JobDescriptor \<Rightarrow> bool" where
  "no_wrap cap job \<longleftrightarrow> unat cap + unat (job_memory job) < 2 ^ 64"

lemma charge_mem:
  assumes "no_wrap cap job" and "mem_at loads i \<le> unat cap"
  shows "unat (memory_used (charge job (loads ! i))) = mem_at loads i + unat (job_memory job)"
    and "memory_used (loads ! i) + job_memory job \<le> cap \<longleftrightarrow> mem_at loads i + unat (job_memory job) \<le> unat cap"
proof -
  have "unat (memory_used (loads ! i) + job_memory job) = mem_at loads i + unat (job_memory job)"
    using assms by (simp add: no_wrap_def mem_at_def unat_word_ariths)
  then show "unat (memory_used (charge job (loads ! i))) = mem_at loads i + unat (job_memory job)"
    and "memory_used (loads ! i) + job_memory job \<le> cap \<longleftrightarrow> mem_at loads i + unat (job_memory job) \<le> unat cap"
    by (simp_all add: charge_def word_le_nat_alt)
qed

lemma fitting_facts:
  assumes "distinct online"
  shows "distinct (fitting k cap job online loads)"
    and "set (fitting k cap job online loads) \<subseteq> {n \<in> set online. node_fits cap job loads n}"
    and "k \<le> length (filter (node_fits cap job loads) online) \<Longrightarrow> length (fitting k cap job online loads) = k"
  using assms set_take_subset [of k "filter (node_fits cap job loads) online"] by (auto simp: fitting_def)

lemma charged_mem:
  assumes "distinct online" and "no_wrap cap job" and "\<forall>i < length loads. mem_at loads i \<le> unat cap"
    and "i < length loads"
  shows "mem_at (charge_all job (fitting k cap job online loads) loads) i =
           mem_at loads i + (if i \<in> unat ` set (fitting k cap job online loads) then unat (job_memory job) else 0)"
    and "mem_at (charge_all job (fitting k cap job online loads) loads) i \<le> unat cap"
proof -
  let ?ns = "fitting k cap job online loads"
  have le: "mem_at loads i \<le> unat cap" using assms(3,4) by blast
  have eq: "charge_all job ?ns loads ! i = (if i \<in> unat ` set ?ns then charge job (loads ! i) else loads ! i)"
    by (rule charge_all_nth [OF fitting_facts(1) [OF assms(1)] assms(4)])
  show m: "mem_at (charge_all job ?ns loads) i = mem_at loads i + (if i \<in> unat ` set ?ns then unat (job_memory job) else 0)"
    using charge_mem(1) [OF assms(2) le] eq by (simp add: mem_at_def)
  have "mem_at loads i + unat (job_memory job) \<le> unat cap" if "i \<in> unat ` set ?ns"
    using that fitting_facts(2) [OF assms(1), of k cap job loads] charge_mem(2) [OF assms(2) le] by (auto simp: node_fits_def)
  then show "mem_at (charge_all job ?ns loads) i \<le> unat cap" using m le by simp
qed

definition good_start :: "u64 \<Rightarrow> u16 list \<Rightarrow> JobDescriptor \<Rightarrow> bool" where
  "good_start now online j \<longleftrightarrow> status j = RUNNING \<and> started_at_us j = now \<and>
     length (assigned_nodes j) = unat (requested_nodes j) \<and> distinct (assigned_nodes j) \<and> set (assigned_nodes j) \<subseteq> set online"

lemma start_jobs_spec:
  assumes "distinct online" and "\<forall>j \<in> set q. no_wrap cap j" and "\<forall>i < length loads. mem_at loads i \<le> unat cap"
    and "start_jobs now cap online q loads = (waiting, started, loads')"
  shows "length loads' = length loads \<and> (\<forall>i < length loads. mem_at loads' i = mem_at loads i + taken started i \<and> mem_at loads' i \<le> unat cap) \<and>
     (\<forall>j \<in> set started. good_start now online j) \<and>
     mset (map job_id waiting) + mset (map job_id started) = mset (map job_id q) \<and> set waiting \<subseteq> set q"
  using assms(2-4)
proof (induction q arbitrary: loads waiting started loads')
  case Nil
  then show ?case by (simp add: taken_def)
next
  case (Cons job q)
  show ?case
  proof (cases "can_allocate cap job online loads")
    case True
    let ?ns = "fitting (unat (requested_nodes job)) cap job online loads"
    let ?loads = "charge_all job ?ns loads"
    obtain st where rec: "start_jobs now cap online q ?loads = (waiting, st, loads')"
      and st: "started = job\<lparr>assigned_nodes := ?ns, status := RUNNING, started_at_us := now\<rparr> # st"
      using Cons.prems(3) True by (auto simp: allocate_spec [OF assms(1)] Let_def split: prod.splits)
    note ch = charged_mem [OF assms(1) _ Cons.prems(2)]
    have nw: "no_wrap cap job" using Cons.prems(1) by simp
    have "\<forall>i < length ?loads. mem_at ?loads i \<le> unat cap" using ch(2) [OF nw] by simp
    note IH = Cons.IH [OF _ this rec]
    have "length ?ns = unat (requested_nodes job)"
      using True by (intro fitting_facts(3) [OF assms(1)]) (simp add: can_allocate_def)
    then have "good_start now online (job\<lparr>assigned_nodes := ?ns, status := RUNNING, started_at_us := now\<rparr>)"
      using fitting_facts(1,2) [OF assms(1), of "unat (requested_nodes job)" cap job loads] by (auto simp: good_start_def)
    then show ?thesis using IH Cons.prems(1) st ch(1) [OF nw] by (auto simp: taken_def)
  next
    case False
    then obtain w where "start_jobs now cap online q loads = (w, started, loads')" "waiting = job # w"
      using Cons.prems(3) by (auto simp: Let_def split: prod.splits)
    then show ?thesis using Cons.IH [OF _ Cons.prems(2)] Cons.prems(1) by fastforce
  qed
qed

lemma start_jobs_requested:
  "start_jobs now cap online q loads = (waiting, started, loads') \<Longrightarrow>
   requested_nodes ` set started \<subseteq> requested_nodes ` set q"
proof (induction q arbitrary: loads waiting started loads')
  case (Cons job q)
  have "requested_nodes (fst (allocate cap job online loads)) = requested_nodes job"
  proof -
    have "requested_nodes (fst (allocate_loop cap j xs ls)) = requested_nodes j" for j xs ls
      by (induction cap j xs ls rule: allocate_loop.induct) (auto simp: Let_def)
    then show ?thesis by (simp add: allocate_def)
  qed
  with Cons show ?case by (fastforce simp: Let_def split: prod.splits if_splits)
qed simp

lemma boost_fields [simp]:
  "job_id (boost t st j) = job_id j" "job_memory (boost t st j) = job_memory j" "requested_nodes (boost t st j) = requested_nodes j"
  by (simp_all add: boost_def split: option.split)

definition tick_queue :: "string list \<Rightarrow> Scheduler \<Rightarrow> JobDescriptor list" where
  "tick_queue owners s =
     (let total_s = total_node_seconds owners (tenant_stats s) in
      if 0 < total_s then map (boost total_s (tenant_stats s)) (sort_queue (queue s)) else sort_queue (queue s))"

lemma mset_sort_queue: "mset (sort_queue q) = mset q"
  by (simp add: sort_queue_def)

lemma tick_queue_ids: "mset (map job_id (tick_queue owners s)) = mset (map job_id (queue s))"
proof -
  have "map job_id (map (boost t st) q) = map job_id q" for t st q by simp
  then show ?thesis
    using mset_sort_queue [of "queue s"] by (auto simp: tick_queue_def Let_def simp del: map_map) (metis mset_map)+
qed

lemma tick_queue_no_wrap:
  "\<forall>j \<in> set (queue s). no_wrap cap j \<Longrightarrow> \<forall>j \<in> set (tick_queue owners s). no_wrap cap j"
  using mset_sort_queue [of "queue s"] by (auto simp: tick_queue_def Let_def no_wrap_def dest: mset_eq_setD)

lemma preempt_pass_keeps:
  "preempt_pass cap online loads q act = Inr act' \<Longrightarrow> \<forall>j \<in> set act. assigned_nodes j \<noteq> [] \<Longrightarrow> act' = act"
proof (induction q arbitrary: act)
  case (Cons job q)
  have "filter (\<lambda>j. assigned_nodes j \<noteq> []) act = act" using Cons.prems(2) by simp
  with Cons show ?case by (auto split: if_splits)
qed simp

lemma tick_unfold:
  assumes "schedule_tick now owners online loads s = (Inr (n, loads'), s')"
  obtains waiting started where
    "start_jobs now (node_memory s) online (tick_queue owners s) loads = (waiting, started, loads')"
    "n = length started" "queue s' = waiting" "history s' = history s" "node_memory s' = node_memory s"
    "if preemption_enabled s then preempt_pass (node_memory s) online loads' waiting (active s @ started) = Inr (active s')
     else active s' = active s @ started"
  using assms by (auto simp: schedule_tick_def tick_queue_def Let_def split: prod.splits sum.splits if_splits)

text \<open>
  C17. A scheduling tick that returns never over-commits a node and loses no job. With distinct online
  nodes and no wrap-around in the memory check: every started job runs on exactly as many distinct
  online nodes as it asked for; the memory of each node grows by exactly what the started jobs take
  there and stays within its size; and, when every active job holds a node and every queued job asks
  for one, each job of the queue is afterwards either still queued or active.
\<close>

theorem tick_sound:
  assumes tick: "schedule_tick now owners online loads s = (Inr (n, loads'), s')"
    and d: "distinct online" and nw: "\<forall>j \<in> set (queue s). no_wrap (node_memory s) j"
    and cap: "\<forall>i < length loads. mem_at loads i \<le> unat (node_memory s)"
    and act: "\<forall>j \<in> set (active s). assigned_nodes j \<noteq> []" and req: "\<forall>j \<in> set (queue s). requested_nodes j \<noteq> 0"
  shows "\<exists>started. active s' = active s @ started \<and> n = length started \<and> (\<forall>j \<in> set started. good_start now online j) \<and>
     (\<forall>i < length loads. mem_at loads' i = mem_at loads i + taken started i \<and> mem_at loads' i \<le> unat (node_memory s)) \<and>
     mset (map job_id (queue s')) + mset (map job_id started) = mset (map job_id (queue s))"
proof -
  from tick obtain waiting started where
    st: "start_jobs now (node_memory s) online (tick_queue owners s) loads = (waiting, started, loads')" and
    n: "n = length started" and q: "queue s' = waiting" and
    pre: "if preemption_enabled s then preempt_pass (node_memory s) online loads' waiting (active s @ started) = Inr (active s')
     else active s' = active s @ started" by (rule tick_unfold)
  note sp = start_jobs_spec [OF d tick_queue_no_wrap [OF nw] cap st]
  have "requested_nodes j \<noteq> 0" if "j \<in> set started" for j
  proof -
    have "\<forall>j \<in> set (tick_queue owners s). requested_nodes j \<noteq> 0"
      using req mset_sort_queue [of "queue s"] by (auto simp: tick_queue_def Let_def dest: mset_eq_setD)
    then show ?thesis using start_jobs_requested [OF st] that by auto
  qed
  then have "assigned_nodes j \<noteq> []" if "j \<in> set started" for j
    using sp that by (fastforce simp: good_start_def unat_eq_0)
  then have "\<forall>j \<in> set (active s @ started). assigned_nodes j \<noteq> []" using act by auto
  then have "active s' = active s @ started" using pre preempt_pass_keeps by (auto split: if_splits)
  then show ?thesis using sp n q tick_queue_ids [of owners s] by auto
qed

definition example_job :: "JobPriority \<Rightarrow> JobDescriptor" where
  "example_job p =
     \<lparr>job_id = 0, jname = ''train'', owner = ''alice'', requested_nodes = 1, job_memory = 60, estimated_duration_s = 0,
      priority = p, status = PENDING, assigned_nodes = [], submitted_at_us = 0, started_at_us = 0, completed_at_us = 0\<rparr>"

definition idle_node :: NodeLoad where
  "idle_node = \<lparr>memory_used = 0, compute_utilization = 0, load_active_jobs = 0\<rparr>"

definition one_submitted :: Scheduler where
  "one_submitted = snd (submit 5 (example_job LOW) (new_scheduler 100 True))"

definition one_running :: "NodeLoad list \<times> Scheduler" where
  "one_running = (case schedule_tick 6 [] [0] [idle_node] one_submitted of
     (Inr (n, loads), s) \<Rightarrow> (loads, s) | (Inl e, s) \<Rightarrow> ([], s))"

lemmas sched_eval = schedule_tick_def one_submitted_def submit_def new_scheduler_def example_job_def idle_node_def
  sort_queue_def total_node_seconds_def can_allocate_def node_fits_def allocate_def Let_def

lemma first_tick:
  "schedule_tick 6 [] [0] [idle_node] one_submitted = (Inr (1, fst one_running), snd one_running)"
  by (simp add: one_running_def sched_eval)

theorem tick_sound_witness:
  "\<exists>started. active (snd one_running) = started \<and> 1 = length started \<and> (\<forall>j \<in> set started. good_start 6 [0] j)"
proof -
  have "\<exists>started. active (snd one_running) = active one_submitted @ started \<and> 1 = length started \<and>
      (\<forall>j \<in> set started. good_start 6 [0] j) \<and>
      (\<forall>i < length [idle_node]. mem_at (fst one_running) i = mem_at [idle_node] i + taken started i \<and>
         mem_at (fst one_running) i \<le> unat (node_memory one_submitted)) \<and>
      mset (map job_id (queue (snd one_running))) + mset (map job_id started) = mset (map job_id (queue one_submitted))"
    by (rule tick_sound [OF first_tick])
      (simp_all add: one_submitted_def submit_def new_scheduler_def example_job_def idle_node_def no_wrap_def mem_at_def Let_def)
  then show ?thesis by (auto simp: one_submitted_def submit_def new_scheduler_def Let_def)
qed

section \<open>Preemption\<close>

lemma preempt_pass_undefined:
  assumes "job \<in> set q" and "prio HIGH \<le> prio (priority job)" and "\<not> can_allocate cap job online loads"
    and "a \<in> set act" and "preemptible job a" and "assigned_nodes a \<noteq> []"
  shows "preempt_pass cap online loads q act = Inl Undefined"
  using assms(1,4)
proof (induction q arbitrary: act)
  case (Cons j q)
  have "a \<in> set (filter (\<lambda>j. assigned_nodes j \<noteq> []) act)" using Cons.prems(2) assms(6) by simp
  then show ?case using Cons assms(2,3,5) by auto
qed simp

text \<open>
  Preemption is undefined behaviour: whenever a \<open>HIGH\<close> or \<open>CRITICAL\<close> job has to wait while a
  \<open>LOW\<close> job with enough nodes is active, the tick pushes the evicted job into the queue it is iterating
  over, which invalidates the iterator of the loop.
\<close>

theorem preemption_undefined:
  assumes "preemption_enabled s"
    and "start_jobs now (node_memory s) online (tick_queue owners s) loads = (waiting, started, loads1)"
    and "job \<in> set waiting" and "prio HIGH \<le> prio (priority job)" and "\<not> can_allocate (node_memory s) job online loads1"
    and "a \<in> set (active s)" and "preemptible job a" and "assigned_nodes a \<noteq> []"
  shows "fst (schedule_tick now owners online loads s) = Inl Undefined"
proof -
  have "a \<in> set (active s @ started)" using assms(6) by simp
  from preempt_pass_undefined [OF assms(3-5) this assms(7,8)] show ?thesis
    using assms(1,2) by (simp add: schedule_tick_def tick_queue_def Let_def split: if_splits)
qed

definition high_waiting :: Scheduler where
  "high_waiting = snd (submit 7 (example_job HIGH) (snd one_running))"

theorem preemption_undefined_witness:
  "fst (schedule_tick 8 [] [0] (fst one_running) high_waiting) = Inl Undefined"
proof (rule preemption_undefined)
  have r: "one_running = ([idle_node\<lparr>memory_used := 60, load_active_jobs := 1\<rparr>],
      (new_scheduler 100 True)\<lparr>next_job_id := 2, active := [(example_job LOW)\<lparr>job_id := 1, submitted_at_us := 5,
        status := RUNNING, assigned_nodes := [0], started_at_us := 6\<rparr>]\<rparr>)"
    by (simp add: one_running_def sched_eval)
  show "preemption_enabled high_waiting" by (simp add: high_waiting_def r submit_def new_scheduler_def Let_def)
  have q: "tick_queue [] high_waiting = [(example_job HIGH)\<lparr>job_id := 2, submitted_at_us := 7\<rparr>]"
    by (simp add: high_waiting_def r submit_def new_scheduler_def Let_def tick_queue_def total_node_seconds_def sort_queue_def example_job_def)
  show "start_jobs 8 (node_memory high_waiting) [0] (tick_queue [] high_waiting) (fst one_running) =
      (tick_queue [] high_waiting, [], fst one_running)"
    unfolding q by (simp add: high_waiting_def r submit_def new_scheduler_def example_job_def can_allocate_def node_fits_def Let_def)
  show "(example_job HIGH)\<lparr>job_id := 2, submitted_at_us := 7\<rparr> \<in> set (tick_queue [] high_waiting)" unfolding q by simp
  show "prio HIGH \<le> prio (priority ((example_job HIGH)\<lparr>job_id := 2, submitted_at_us := 7\<rparr>))" by (simp add: example_job_def)
  show "\<not> can_allocate (node_memory high_waiting) ((example_job HIGH)\<lparr>job_id := 2, submitted_at_us := 7\<rparr>) [0] (fst one_running)"
    by (simp add: high_waiting_def r submit_def new_scheduler_def example_job_def can_allocate_def node_fits_def Let_def)
  show "(example_job LOW)\<lparr>job_id := 1, submitted_at_us := 5, status := RUNNING, assigned_nodes := [0], started_at_us := 6\<rparr> \<in> set (active high_waiting)"
    by (simp add: high_waiting_def r submit_def new_scheduler_def Let_def)
qed (simp_all add: preemptible_def example_job_def)

section \<open>Fault recovery\<close>

abbreviation "still_active j \<equiv> status j \<noteq> FAILED \<and> status j \<noteq> RESCHEDULING"

definition evict_outcome :: "u16 \<Rightarrow> JobDescriptor list \<Rightarrow> JobDescriptor list \<Rightarrow> JobDescriptor list \<Rightarrow> JobDescriptor list \<Rightarrow> bool" where
  "evict_outcome failed jobs kept requeued lost \<longleftrightarrow>
     mset (map job_id kept) + mset (map job_id requeued) + mset (map job_id lost) = mset (map job_id jobs) \<and>
     (\<forall>j \<in> set kept. j \<in> set jobs \<and> failed \<notin> set (assigned_nodes j)) \<and>
     (\<forall>j \<in> set requeued. status j = RESCHEDULING \<and> assigned_nodes j \<noteq> [] \<and> failed \<notin> set (assigned_nodes j)) \<and>
     (\<forall>j \<in> set lost. status j = FAILED \<and> assigned_nodes j = [])"

lemma evict_loop_outcome:
  assumes "evict_loop now failed jobs s = (js, s')"
    and "\<forall>j \<in> set jobs. status j = RUNNING \<and> distinct (assigned_nodes j)"
  shows "\<exists>requeued lost. queue s' = requeued @ queue s \<and> history s' = history s @ lost \<and>
     evict_outcome failed jobs (filter still_active js) requeued lost"
  using assms
proof (induction jobs arbitrary: s js)
  case Nil
  then show ?case by (simp add: evict_outcome_def)
next
  case (Cons job jobs)
  obtain j s1 where j: "evict_job now failed job s = (j, s1)" by (meson surj_pair)
  obtain js' where js: "evict_loop now failed jobs s1 = (js', s')" "js = j # js'"
    using Cons.prems(1) j by (auto simp: Let_def split: prod.splits)
  obtain rq lost where IH: "queue s' = rq @ queue s1" "history s' = history s1 @ lost"
    "evict_outcome failed jobs (filter still_active js') rq lost"
    using Cons.IH [OF js(1)] Cons.prems(2) by auto
  have run: "status job = RUNNING" "distinct (assigned_nodes job)" using Cons.prems(2) by auto
  consider "failed \<notin> set (assigned_nodes job)" "j = job" "s1 = s"
    | "failed \<in> set (assigned_nodes job)" "assigned_nodes j = []" "status j = FAILED" "s1 = s\<lparr>history := history s @ [j]\<rparr>"
    | "failed \<in> set (assigned_nodes job)" "assigned_nodes j = remove1 failed (assigned_nodes job)" "assigned_nodes j \<noteq> []"
      "status j = RESCHEDULING" "s1 = s\<lparr>queue := j # queue s\<rparr>"
    using j by (auto simp: evict_job_def Let_def split: if_splits)
  moreover have id: "job_id j = job_id job" using j by (auto simp: evict_job_def Let_def split: if_splits)
  ultimately show ?case
  proof cases
    case 1
    then show ?thesis using IH js(2) run by (intro exI [of _ rq] exI [of _ lost]) (auto simp: evict_outcome_def)
  next
    case 2
    then show ?thesis using IH js(2) id by (intro exI [of _ rq] exI [of _ "j # lost"]) (auto simp: evict_outcome_def)
  next
    case 3
    then have "failed \<notin> set (assigned_nodes j)" using run(2) by simp
    with 3 show ?thesis using IH js(2) id by (intro exI [of _ "rq @ [j]"] exI [of _ lost]) (auto simp: evict_outcome_def)
  qed
qed



section \<open>Job identity\<close>

definition all_jobs :: "Scheduler \<Rightarrow> JobDescriptor list" where
  "all_jobs s = queue s @ active s @ history s"

lemma extract_first_mset: "extract_first P xs = Some (x, ys) \<Longrightarrow> mset xs = add_mset x (mset ys) \<and> P x"
  by (induction xs arbitrary: ys) (auto split: if_splits)

definition ids_ok :: "Scheduler \<Rightarrow> bool" where
  "ids_ok s \<longleftrightarrow> distinct (map job_id (all_jobs s)) \<and> (\<forall>j \<in> set (all_jobs s). job_id j < next_job_id s)"

lemma ids_ok_sub:
  assumes "ids_ok s" and "mset (map job_id (all_jobs s')) \<subseteq># mset (map job_id (all_jobs s))" and "next_job_id s' = next_job_id s"
  shows "ids_ok s'"
proof -
  have "distinct (map job_id (all_jobs s'))"
    using assms(1,2) unfolding ids_ok_def by (blast intro: distinct_submset)
  moreover have "job_id ` set (all_jobs s') \<subseteq> job_id ` set (all_jobs s)"
    using set_mset_mono [OF assms(2)] by simp
  ultimately show ?thesis using assms(1,3) unfolding ids_ok_def by fastforce
qed

text \<open>
  Job numbers are unique: as long as fewer than \<open>2 ^ 64\<close> jobs have been submitted, submitting,
  cancelling and completing never give two jobs of the scheduler the same number.
\<close>

theorem job_ids_unique:
  assumes "ids_ok s"
  shows "(next_job_id s \<noteq> - 1 \<longrightarrow> ids_ok (snd (submit now job s)) \<and> fst (submit now job s) = next_job_id s) \<and>
     ids_ok (snd (cancel now jid s)) \<and> ids_ok (snd (complete now jid ok s))"
proof (intro conjI impI)
  assume nw: "next_job_id s \<noteq> - 1"
  have inc: "next_job_id s < next_job_id s + 1" using nw inc_less_eq_self_iff_eq [of "next_job_id s"] by (simp add: not_le [symmetric])
  show "ids_ok (snd (submit now job s))"
    using assms inc unfolding ids_ok_def submit_def all_jobs_def Let_def by (auto dest: order_less_trans)
  show "fst (submit now job s) = next_job_id s" by (simp add: submit_def Let_def)
next
  show "ids_ok (snd (cancel now jid s))"
  proof (rule ids_ok_sub [OF assms])
    show "mset (map job_id (all_jobs (snd (cancel now jid s)))) \<subseteq># mset (map job_id (all_jobs s))"
      by (auto simp: cancel_def all_jobs_def split: option.splits dest: extract_first_mset)
  qed (simp add: cancel_def split: option.split)
next
  show "ids_ok (snd (complete now jid ok s))"
  proof (rule ids_ok_sub [OF assms])
    show "mset (map job_id (all_jobs (snd (complete now jid ok s)))) \<subseteq># mset (map job_id (all_jobs s))"
      by (auto simp: complete_def all_jobs_def Let_def split: option.splits dest: extract_first_mset)
  qed (simp add: complete_def Let_def split: option.split)
qed

theorem job_ids_unique_witness: "ids_ok (snd (submit 5 (example_job LOW) (new_scheduler 100 True)))"
  using job_ids_unique [of "new_scheduler 100 True" 5 "example_job LOW"]
  by (simp add: ids_ok_def all_jobs_def new_scheduler_def)

end
