(* ===== verification/Cluster_Manager.thy ===== *)
theory Cluster_Manager
  imports Scheduler Memory_Catalog
begin

text \<open>
  The cluster manager: \<open>csrc/runtime/ClusterManager.hpp\<close> and \<open>ClusterManager.cpp\<close>. One record holds the
  membership table, the replicated catalog and the job scheduler; the clock is an argument. An index
  outside the table of eight nodes is an undefined access. Each handler is one atomic operation, as
  its mutex makes it; \<open>handle_node_failure\<close> takes the mutex for its first part only, and the model has
  no other thread run between its parts. \<open>online_count\<close>, a signed \<open>int\<close>, is an unbounded integer.
\<close>

section \<open>Cluster state\<close>

definition MAX_CLUSTER_NODES :: nat where "MAX_CLUSTER_NODES = 8"

datatype NodeStatus = UNKNOWN | ONLINE | DEGRADED | OFFLINE

record NodeInfo =
  ni_node_id :: u16
  ni_hostname :: string
  ni_ip_address :: string
  ni_control_port :: u16
  ni_total_memory :: u64
  ni_free_memory :: u64
  ni_compute_capacity :: rat
  ni_status :: NodeStatus
  ni_last_heartbeat_us :: u64
  ni_heartbeat_seq :: u64

definition default_node :: NodeInfo where
  "default_node = \<lparr>ni_node_id = 0, ni_hostname = [], ni_ip_address = [], ni_control_port = 9800, ni_total_memory = 0,
     ni_free_memory = 0, ni_compute_capacity = 1, ni_status = UNKNOWN, ni_last_heartbeat_us = 0, ni_heartbeat_seq = 0\<rparr>"

record ClusterState =
  cs_nodes :: "NodeInfo list"
  cs_version :: u64
  cs_leader_id :: u16
  cs_online_count :: int

record ClusterConfig =
  cfg_node_id :: u16
  cfg_total_nodes :: int
  cfg_control_port :: u16
  cfg_heartbeat_interval_ms :: int
  cfg_heartbeat_timeout_ms :: int
  cfg_scheduler_tick_ms :: int
  cfg_memory_per_node :: u64
  cfg_is_head :: bool

record ClusterManager =
  cm_config :: ClusterConfig
  cm_state :: ClusterState
  cm_catalog :: MemoryCatalog
  cm_scheduler :: Scheduler
  cm_running :: bool

type_synonym 'a cm_op = "ClusterManager \<Rightarrow> (failure, ClusterManager, 'a) res"

definition cm_self :: "ClusterManager \<Rightarrow> u16" where "cm_self cm = cfg_node_id (cm_config cm)"

definition cm_node :: "ClusterManager \<Rightarrow> u16 \<Rightarrow> NodeInfo" where
  "cm_node cm nid = cs_nodes (cm_state cm) ! unat nid"

definition set_node :: "u16 \<Rightarrow> NodeInfo \<Rightarrow> ClusterState \<Rightarrow> ClusterState" where
  "set_node nid n st = st\<lparr>cs_nodes := (cs_nodes st)[unat nid := n]\<rparr>"

definition new_cluster :: "ClusterConfig \<Rightarrow> failure + ClusterManager" where
  "new_cluster cfg =
     (if MAX_CLUSTER_NODES \<le> unat (cfg_node_id cfg) then Inl Undefined
      else Inr \<lparr>cm_config = cfg,
        cm_state = set_node (cfg_node_id cfg)
           (default_node\<lparr>ni_node_id := cfg_node_id cfg, ni_status := ONLINE, ni_hostname := ''localhost'',
             ni_control_port := cfg_control_port cfg\<rparr>)
           \<lparr>cs_nodes = replicate MAX_CLUSTER_NODES default_node, cs_version = 0, cs_leader_id = cfg_node_id cfg, cs_online_count = 1\<rparr>,
        cm_catalog = empty_catalog, cm_scheduler = new_scheduler (cfg_memory_per_node cfg) True, cm_running = False\<rparr>)"

definition cm_start :: "ClusterManager \<Rightarrow> ClusterManager" where
  "cm_start cm = (if cm_running cm then cm else cm\<lparr>cm_running := True, cm_scheduler := sched_start (cm_scheduler cm)\<rparr>)"

definition cm_shutdown :: "ClusterManager \<Rightarrow> ClusterManager" where
  "cm_shutdown cm = (if \<not> cm_running cm then cm else cm\<lparr>cm_running := False, cm_scheduler := sched_shutdown (cm_scheduler cm)\<rparr>)"

section \<open>Leader election and health\<close>

definition online_nodes :: "ClusterManager \<Rightarrow> u16 list" where
  "online_nodes cm = filter (\<lambda>i. ni_status (cm_node cm i) = ONLINE) (map word_of_nat [0..<MAX_CLUSTER_NODES])"

fun first_online :: "ClusterManager \<Rightarrow> u16 list \<Rightarrow> u16" where
  "first_online cm [] = cm_self cm"
| "first_online cm (i # is) = (if ni_status (cm_node cm i) = ONLINE then i else first_online cm is)"

definition elect_leader :: "ClusterManager \<Rightarrow> ClusterManager" where
  "elect_leader cm =
     cm\<lparr>cm_state := (cm_state cm)\<lparr>cs_leader_id := first_online cm (map word_of_nat [0..<MAX_CLUSTER_NODES])\<rparr>\<rparr>"

definition is_leader :: "ClusterManager \<Rightarrow> bool" where
  "is_leader cm \<longleftrightarrow> cs_leader_id (cm_state cm) = cm_self cm"

definition leader_id :: "ClusterManager \<Rightarrow> u16" where
  "leader_id cm = cs_leader_id (cm_state cm)"

definition get_state :: "ClusterManager \<Rightarrow> ClusterState" where
  "get_state cm = cm_state cm"

definition cm_pending_jobs :: "ClusterManager \<Rightarrow> JobDescriptor list" where
  "cm_pending_jobs cm = pending_jobs (cm_scheduler cm)"

definition cm_active_jobs :: "ClusterManager \<Rightarrow> JobDescriptor list" where
  "cm_active_jobs cm = active_jobs (cm_scheduler cm)"

definition node_info :: "ClusterManager \<Rightarrow> u16 \<Rightarrow> NodeInfo option" where
  "node_info cm nid =
     (if unat nid < MAX_CLUSTER_NODES \<and> ni_status (cm_node cm nid) \<noteq> UNKNOWN then Some (cm_node cm nid) else None)"

definition is_node_alive :: "ClusterManager \<Rightarrow> u16 \<Rightarrow> bool" where
  "is_node_alive cm nid \<longleftrightarrow> unat nid < MAX_CLUSTER_NODES \<and> ni_status (cm_node cm nid) = ONLINE"

section \<open>Membership handlers\<close>

text \<open>Store a table entry and count a change of the membership.\<close>

definition membership :: "u16 \<Rightarrow> NodeInfo \<Rightarrow> int \<Rightarrow> ClusterManager \<Rightarrow> ClusterManager" where
  "membership nid n d cm =
     cm\<lparr>cm_state := (set_node nid n (cm_state cm))\<lparr>cs_online_count := cs_online_count (cm_state cm) + d,
                      cs_version := cs_version (cm_state cm) + 1\<rparr>\<rparr>"

definition handle_join :: "u64 \<Rightarrow> NodeInfo \<Rightarrow> unit cm_op" where
  "handle_join now info cm =
     (if MAX_CLUSTER_NODES \<le> unat (ni_node_id info) then (Inl Undefined, cm)
      else (Inr (), elect_leader (membership (ni_node_id info) (info\<lparr>ni_status := ONLINE, ni_last_heartbeat_us := now\<rparr>) 1 cm)))"

definition handle_leave :: "u16 \<Rightarrow> unit cm_op" where
  "handle_leave nid cm =
     (if MAX_CLUSTER_NODES \<le> unat nid then (Inl Undefined, cm)
      else if ni_status (cm_node cm nid) = OFFLINE then (Inr (), cm)
      else let cm1 = membership nid ((cm_node cm nid)\<lparr>ni_status := OFFLINE\<rparr>) (- 1) cm;
               cm2 = cm1\<lparr>cm_catalog := remove_node nid (cm_catalog cm1)\<rparr>;
               cm3 = elect_leader cm2 in
        if nid = cs_leader_id (cm_state cm3)
        then (Inl Deadlock, cm3) \<comment> \<open>\<open>handle_node_failure\<close> locks \<open>state_mu_\<close>, which this method holds\<close>
        else (Inr (), cm3))"

definition handle_heartbeat :: "u64 \<Rightarrow> NodeInfo \<Rightarrow> unit cm_op" where
  "handle_heartbeat now info cm =
     (if MAX_CLUSTER_NODES \<le> unat (ni_node_id info) then (Inl Undefined, cm)
      else let nid = ni_node_id info;
               e0 = (if ni_status (cm_node cm nid) = UNKNOWN then info\<lparr>ni_status := ONLINE\<rparr> else cm_node cm nid);
               e1 = e0\<lparr>ni_last_heartbeat_us := now, ni_heartbeat_seq := ni_heartbeat_seq info, ni_free_memory := ni_free_memory info\<rparr> in
        if ni_status e1 \<noteq> ONLINE then (Inr (), membership nid (e1\<lparr>ni_status := ONLINE\<rparr>) 1 cm)
        else (Inr (), cm\<lparr>cm_state := set_node nid e1 (cm_state cm)\<rparr>))"

definition handle_node_failure :: "u64 \<Rightarrow> u16 \<Rightarrow> unit cm_op" where
  "handle_node_failure now failed cm =
     (if MAX_CLUSTER_NODES \<le> unat failed then (Inl Undefined, cm)
      else let cm1 = membership failed ((cm_node cm failed)\<lparr>ni_status := OFFLINE\<rparr>) (- 1) cm;
               cm2 = cm1\<lparr>cm_catalog := remove_node failed (cm_catalog cm1)\<rparr>;
               cm3 = cm2\<lparr>cm_scheduler := evict_node now failed (cm_scheduler cm2)\<rparr> in
        (Inr (), if is_leader cm3 then elect_leader cm3 else cm3))"

section \<open>Regions and jobs\<close>

definition publish_region :: "u16 \<Rightarrow> u32 \<Rightarrow> u64 \<Rightarrow> u64 \<Rightarrow> u32 \<Rightarrow> ClusterManager \<Rightarrow> ClusterManager" where
  "publish_region nid region_id addr len rkey cm =
     cm\<lparr>cm_catalog := upsert region_id
          \<lparr>rde_local_addr = addr, rde_length = len, rde_rkey = rkey, rde_flags = ucast (READABLE OR WRITABLE), rde_epoch = 1\<rparr>
          (cm_catalog cm)\<rparr>"

definition unpublish_region :: "u16 \<Rightarrow> u32 \<Rightarrow> ClusterManager \<Rightarrow> ClusterManager" where
  "unpublish_region nid region_id cm = cm\<lparr>cm_catalog := catalog_remove region_id (cm_catalog cm)\<rparr>"

definition lookup_region :: "ClusterManager \<Rightarrow> u16 \<Rightarrow> u32 \<Rightarrow> RegionDirectoryEntry option" where
  "lookup_region cm nid region_id = catalog_lookup (cm_catalog cm) nid region_id"

definition submit_job :: "u64 \<Rightarrow> string \<Rightarrow> string \<Rightarrow> u16 \<Rightarrow> u64 \<Rightarrow> JobPriority \<Rightarrow> ClusterManager \<Rightarrow> u64 \<times> ClusterManager" where
  "submit_job now name own nodes mem prio' cm =
     (let job = \<lparr>job_id = 0, jname = name, owner = own, requested_nodes = nodes, job_memory = mem, estimated_duration_s = 0,
            priority = prio', status = PENDING, assigned_nodes = [], submitted_at_us = 0, started_at_us = 0, completed_at_us = 0\<rparr>;
          (jid, sch) = submit now job (cm_scheduler cm) in
      (jid, cm\<lparr>cm_scheduler := sch\<rparr>))"

definition cancel_job :: "u64 \<Rightarrow> u64 \<Rightarrow> ClusterManager \<Rightarrow> bool \<times> ClusterManager" where
  "cancel_job now jid cm = (let (b, sch) = cancel now jid (cm_scheduler cm) in (b, cm\<lparr>cm_scheduler := sch\<rparr>))"

definition complete_job :: "u64 \<Rightarrow> u64 \<Rightarrow> bool \<Rightarrow> ClusterManager \<Rightarrow> bool \<times> ClusterManager" where
  "complete_job now jid success cm =
     (let (b, sch) = complete now jid success (cm_scheduler cm) in (b, cm\<lparr>cm_scheduler := sch\<rparr>))"

section \<open>The bodies of the three loops\<close>

text \<open>
  One round of the heartbeat sender. \<open>answers nid\<close> says whether the agent of node \<open>nid\<close> answered the
  PING, and \<open>clock nid\<close> is the time at which \<open>handle_heartbeat\<close> reads the clock for it.
\<close>

definition ping_node :: "(u16 \<Rightarrow> bool) \<Rightarrow> (u16 \<Rightarrow> u64) \<Rightarrow> u16 \<Rightarrow> unit cm_op" where
  "ping_node answers clock nid cm =
     (if nid = cm_self cm then (Inr (), cm)
      else case node_info cm nid of
        None \<Rightarrow> (Inr (), cm)
      | Some info \<Rightarrow>
          if answers nid
          then handle_heartbeat (clock nid)
                 (info\<lparr>ni_last_heartbeat_us := clock nid, ni_heartbeat_seq := ni_heartbeat_seq info + 1\<rparr>) cm
          else (Inr (), cm))"

definition heartbeat_sender_round :: "(u16 \<Rightarrow> bool) \<Rightarrow> (u16 \<Rightarrow> u64) \<Rightarrow> unit cm_op" where
  "heartbeat_sender_round answers clock cm = forEach (online_nodes cm) (ping_node answers clock) cm"

definition timed_out :: "u64 \<Rightarrow> NodeInfo \<Rightarrow> ClusterManager \<Rightarrow> bool" where
  "timed_out now n cm \<longleftrightarrow> word_of_int (cfg_heartbeat_timeout_ms (cm_config cm)) * 1000 < now - ni_last_heartbeat_us n"

definition monitor_node :: "u64 \<Rightarrow> (nat \<Rightarrow> u64) \<Rightarrow> nat \<Rightarrow> unit cm_op" where
  "monitor_node now clock i cm =
     (if i = unat (cm_self cm) then (Inr (), cm)
      else if MAX_CLUSTER_NODES \<le> i then (Inl Undefined, cm)
      else let node = cs_nodes (cm_state cm) ! i in
        if ni_status node \<noteq> ONLINE \<and> ni_status node \<noteq> DEGRADED then (Inr (), cm)
        else if timed_out now node cm then handle_node_failure (clock i) (ni_node_id node) cm
        else (Inr (), cm))"

definition heartbeat_monitor_round :: "u64 \<Rightarrow> (nat \<Rightarrow> u64) \<Rightarrow> unit cm_op" where
  "heartbeat_monitor_round now clock cm =
     forEach [0..<nat (cfg_total_nodes (cm_config cm))] (monitor_node now clock) cm"

definition node_loads :: "ClusterManager \<Rightarrow> NodeLoad list" where
  "node_loads cm =
     fold (\<lambda>nid loads. case node_info cm nid of
             None \<Rightarrow> loads
           | Some info \<Rightarrow> loads[unat nid := (loads ! unat nid)\<lparr>memory_used := ni_total_memory info - ni_free_memory info\<rparr>])
       (online_nodes cm)
       (replicate MAX_CLUSTER_NODES \<lparr>memory_used = 0, compute_utilization = 0, load_active_jobs = 0\<rparr>)"

definition scheduler_round :: "u64 \<Rightarrow> string list \<Rightarrow> unit cm_op" where
  "scheduler_round now owners cm =
     (case schedule_tick now owners (online_nodes cm) (node_loads cm) (cm_scheduler cm) of
        (Inl e, sch) \<Rightarrow> (Inl e, cm\<lparr>cm_scheduler := sch\<rparr>)
      | (Inr _, sch) \<Rightarrow> (Inr (), cm\<lparr>cm_scheduler := sch\<rparr>))"

section \<open>The membership table\<close>

definition table_ok :: "ClusterManager \<Rightarrow> bool" where
  "table_ok cm \<longleftrightarrow> length (cs_nodes (cm_state cm)) = MAX_CLUSTER_NODES"

lemma node_indices: "map word_of_nat [0..<MAX_CLUSTER_NODES] = [0, 1, 2, 3, 4, 5, 6, 7 :: u16]"
  by (simp add: MAX_CLUSTER_NODES_def upt_rec)

lemma in_table: "unat nid < MAX_CLUSTER_NODES \<longleftrightarrow> nid \<in> {0, 1, 2, 3, 4, 5, 6, 7 :: u16}"
proof
  assume "unat nid < MAX_CLUSTER_NODES"
  then have "nid \<in> set (map word_of_nat [0..<MAX_CLUSTER_NODES])"
    by (subst list.set_map) (rule image_eqI [of _ _ "unat nid"], simp_all)
  then show "nid \<in> {0, 1, 2, 3, 4, 5, 6, 7}" by (simp only: node_indices) simp
qed (auto simp: MAX_CLUSTER_NODES_def)

lemma set_online_nodes [simp]: "set (online_nodes cm) = {n. is_node_alive cm n}"
  unfolding online_nodes_def node_indices is_node_alive_def in_table by auto

lemma distinct_online_nodes [simp]: "distinct (online_nodes cm)"
  unfolding online_nodes_def node_indices by (rule distinct_filter) simp

lemma sorted_online_nodes: "sorted (online_nodes cm)"
  unfolding online_nodes_def node_indices by (rule sorted_wrt_filter) simp

lemma first_online_filter:
  "first_online cm is = (case filter (\<lambda>i. ni_status (cm_node cm i) = ONLINE) is of [] \<Rightarrow> cm_self cm | i # _ \<Rightarrow> i)"
  by (induction "is") simp_all

definition lowest_alive :: "ClusterManager \<Rightarrow> u16 \<Rightarrow> bool" where
  "lowest_alive cm l \<longleftrightarrow>
     (if \<exists>n. is_node_alive cm n then is_node_alive cm l \<and> (\<forall>n. is_node_alive cm n \<longrightarrow> l \<le> n) else l = cm_self cm)"

lemma elect_leader_fields [simp]:
  "cs_nodes (cm_state (elect_leader cm)) = cs_nodes (cm_state cm)"
  "cs_online_count (cm_state (elect_leader cm)) = cs_online_count (cm_state cm)"
  "cs_version (cm_state (elect_leader cm)) = cs_version (cm_state cm)"
  "cm_catalog (elect_leader cm) = cm_catalog cm" "cm_scheduler (elect_leader cm) = cm_scheduler cm"
  "cm_self (elect_leader cm) = cm_self cm" "cm_config (elect_leader cm) = cm_config cm"
  by (simp_all add: elect_leader_def cm_self_def)

lemma elect_leader_node [simp]:
  "cm_node (elect_leader cm) n = cm_node cm n" "is_node_alive (elect_leader cm) n = is_node_alive cm n"
  "online_nodes (elect_leader cm) = online_nodes cm"
  by (simp_all add: cm_node_def is_node_alive_def online_nodes_def)

lemma elected: "lowest_alive (elect_leader cm) (cs_leader_id (cm_state (elect_leader cm)))"
proof (cases "online_nodes cm")
  case Nil
  then have "\<not> is_node_alive cm n" for n using set_online_nodes [of cm] by simp
  moreover have "cs_leader_id (cm_state (elect_leader cm)) = cm_self cm"
    using Nil by (simp add: elect_leader_def first_online_filter online_nodes_def)
  ultimately show ?thesis by (simp add: lowest_alive_def)
next
  case (Cons l ls)
  then have "is_node_alive cm l" "is_node_alive cm n \<Longrightarrow> l \<le> n" for n
    using set_online_nodes [of cm] sorted_online_nodes [of cm] by auto
  moreover have "cs_leader_id (cm_state (elect_leader cm)) = l"
    using Cons by (simp add: elect_leader_def first_online_filter online_nodes_def)
  ultimately show ?thesis by (auto simp: lowest_alive_def)
qed

text \<open>How many nodes the counter is ahead of the table.\<close>

definition count_gap :: "ClusterManager \<Rightarrow> int" where
  "count_gap cm = cs_online_count (cm_state cm) - int (length (online_nodes cm))"

lemma length_online_nodes: "length (online_nodes cm) = card {n. is_node_alive cm n}"
  by (metis distinct_card distinct_online_nodes set_online_nodes)

lemma finite_alive [simp]: "finite {n. is_node_alive cm n}"
  by (metis finite_set set_online_nodes)

lemma alive_put_node:
  assumes "table_ok cm" and "unat nid < MAX_CLUSTER_NODES" and "cs_nodes (cm_state cm') = (cs_nodes (cm_state cm))[unat nid := n]"
  shows "is_node_alive cm' m \<longleftrightarrow> (if m = nid then ni_status n = ONLINE else is_node_alive cm m)"
  using assms by (auto simp: is_node_alive_def cm_node_def table_ok_def word_unat_eq_iff nth_list_update)

lemma gap_put_node:
  assumes "table_ok cm" and "unat nid < MAX_CLUSTER_NODES" and "cs_nodes (cm_state cm') = (cs_nodes (cm_state cm))[unat nid := n]"
    and "cs_online_count (cm_state cm') = cs_online_count (cm_state cm) + d"
  shows "count_gap cm' = count_gap cm + d - of_bool (ni_status n = ONLINE) + of_bool (is_node_alive cm nid)"
proof -
  note al = alive_put_node [OF assms(1-3)]
  have "{m. is_node_alive cm' m} =
     (if ni_status n = ONLINE then insert nid {m. is_node_alive cm m} else {m. is_node_alive cm m} - {nid})"
    using al by auto
  then have "int (length (online_nodes cm')) = int (length (online_nodes cm)) + of_bool (ni_status n = ONLINE) - of_bool (is_node_alive cm nid)"
    using card_gt_0_iff [of "{m. is_node_alive cm m}"] by (auto simp: length_online_nodes card_insert_if of_nat_diff)
  then show ?thesis using assms(4) by (simp add: count_gap_def)
qed

lemma membership_fields [simp]:
  "cs_nodes (cm_state (membership nid n d cm)) = (cs_nodes (cm_state cm))[unat nid := n]"
  "cs_online_count (cm_state (membership nid n d cm)) = cs_online_count (cm_state cm) + d"
  "cs_version (cm_state (membership nid n d cm)) = cs_version (cm_state cm) + 1"
  "cs_leader_id (cm_state (membership nid n d cm)) = cs_leader_id (cm_state cm)"
  "cm_catalog (membership nid n d cm) = cm_catalog cm" "cm_scheduler (membership nid n d cm) = cm_scheduler cm"
  "cm_self (membership nid n d cm) = cm_self cm" "cm_config (membership nid n d cm) = cm_config cm"
  by (simp_all add: membership_def set_node_def cm_self_def)

text \<open>Each handler is one change of the entry of its node, and moves the counter by a fixed amount.\<close>

definition entry_change :: "u16 \<Rightarrow> NodeStatus \<Rightarrow> int \<Rightarrow> ClusterManager \<Rightarrow> ClusterManager \<Rightarrow> bool" where
  "entry_change nid stat d cm cm' \<longleftrightarrow>
     (\<exists>n. ni_status n = stat \<and> cs_nodes (cm_state cm') = (cs_nodes (cm_state cm))[unat nid := n]) \<and>
     cs_online_count (cm_state cm') = cs_online_count (cm_state cm) + d"

lemma entry_changeI:
  "ni_status n = stat \<Longrightarrow> cs_nodes (cm_state cm') = (cs_nodes (cm_state cm))[unat nid := n] \<Longrightarrow>
   cs_online_count (cm_state cm') = cs_online_count (cm_state cm) + d \<Longrightarrow> entry_change nid stat d cm cm'"
  by (auto simp: entry_change_def)

lemma join_change:
  "unat (ni_node_id info) < MAX_CLUSTER_NODES \<Longrightarrow> entry_change (ni_node_id info) ONLINE 1 cm (snd (handle_join now info cm))"
  by (rule entry_changeI) (simp_all add: handle_join_def)

lemma leave_change:
  "unat nid < MAX_CLUSTER_NODES \<Longrightarrow> ni_status (cm_node cm nid) \<noteq> OFFLINE \<Longrightarrow>
   entry_change nid OFFLINE (- 1) cm (snd (handle_leave nid cm))"
  by (rule entry_changeI [of "(cm_node cm nid)\<lparr>ni_status := OFFLINE\<rparr>"]) (simp_all add: handle_leave_def Let_def)

lemma failure_change:
  "unat nid < MAX_CLUSTER_NODES \<Longrightarrow> entry_change nid OFFLINE (- 1) cm (snd (handle_node_failure now nid cm))"
  by (rule entry_changeI [of "(cm_node cm nid)\<lparr>ni_status := OFFLINE\<rparr>"]) (simp_all add: handle_node_failure_def Let_def)

lemma heartbeat_change:
  assumes "unat (ni_node_id info) < MAX_CLUSTER_NODES"
  shows "entry_change (ni_node_id info) ONLINE (of_bool (ni_status (cm_node cm (ni_node_id info)) \<in> {DEGRADED, OFFLINE}))
     cm (snd (handle_heartbeat now info cm))"
proof -
  let ?st = "ni_status (cm_node cm (ni_node_id info))"
  let ?e = "if ?st = UNKNOWN then info\<lparr>ni_status := ONLINE\<rparr> else cm_node cm (ni_node_id info)"
  let ?e1 = "?e\<lparr>ni_last_heartbeat_us := now, ni_heartbeat_seq := ni_heartbeat_seq info, ni_free_memory := ni_free_memory info\<rparr>"
  show ?thesis
  proof (cases "?st \<in> {DEGRADED, OFFLINE}")
    case True
    then show ?thesis using assms
      by (intro entry_changeI [of "?e1\<lparr>ni_status := ONLINE\<rparr>"]) (auto simp: handle_heartbeat_def Let_def)
  next
    case False
    then have "ni_status ?e1 = ONLINE" by (cases ?st) auto
    with False show ?thesis using assms
      by (intro entry_changeI [of ?e1]) (auto simp: handle_heartbeat_def Let_def set_node_def)
  qed
qed

lemma entry_change_effect:
  assumes "entry_change nid stat d cm cm'" and "table_ok cm" and "unat nid < MAX_CLUSTER_NODES"
  shows "table_ok cm' \<and> {n. is_node_alive cm' n} = (if stat = ONLINE then insert nid else (\<lambda>A. A - {nid})) {n. is_node_alive cm n} \<and>
     count_gap cm' = count_gap cm + d - of_bool (stat = ONLINE) + of_bool (is_node_alive cm nid)"
proof -
  from assms(1) obtain n where n: "ni_status n = stat" "cs_nodes (cm_state cm') = (cs_nodes (cm_state cm))[unat nid := n]"
    "cs_online_count (cm_state cm') = cs_online_count (cm_state cm) + d" by (auto simp: entry_change_def)
  have "table_ok cm'" using assms(2) n(2) by (simp add: table_ok_def)
  with alive_put_node [OF assms(2,3) n(2)] gap_put_node [OF assms(2,3) n(2,3)] n(1) show ?thesis by auto
qed

section \<open>Properties\<close>

text \<open>
  Membership: a join or heartbeat makes exactly its node alive, a leave or failure exactly its node not
  alive. \<open>online_count\<close> stays equal to the number of online nodes only when the event changes the node's
  state as intended: a node that joins while online is counted twice, and a heartbeat from an unknown
  node, a leave of a node that is unknown, or a failure of a node that is not online leave the
  counter one short.
\<close>

theorem membership_counts:
  assumes "table_ok cm" and "unat nid < MAX_CLUSTER_NODES" and "ni_node_id info = nid"
  shows "{n. is_node_alive (snd (handle_join now info cm)) n} = insert nid {n. is_node_alive cm n} \<and>
     count_gap (snd (handle_join now info cm)) = count_gap cm + of_bool (is_node_alive cm nid) \<and>
     {n. is_node_alive (snd (handle_heartbeat now info cm)) n} = insert nid {n. is_node_alive cm n} \<and>
     count_gap (snd (handle_heartbeat now info cm)) = count_gap cm - of_bool (ni_status (cm_node cm nid) = UNKNOWN) \<and>
     {n. is_node_alive (snd (handle_leave nid cm)) n} = {n. is_node_alive cm n} - {nid} \<and>
     count_gap (snd (handle_leave nid cm)) =
           count_gap cm - of_bool (ni_status (cm_node cm nid) = UNKNOWN \<or> ni_status (cm_node cm nid) = DEGRADED) \<and>
     {n. is_node_alive (snd (handle_node_failure now nid cm)) n} = {n. is_node_alive cm n} - {nid} \<and>
     count_gap (snd (handle_node_failure now nid cm)) = count_gap cm - of_bool (\<not> is_node_alive cm nid)"
proof (intro conjI)
  note st = is_node_alive_def [of cm nid]
  show "{n. is_node_alive (snd (handle_join now info cm)) n} = insert nid {n. is_node_alive cm n}"
    "count_gap (snd (handle_join now info cm)) = count_gap cm + of_bool (is_node_alive cm nid)"
    using entry_change_effect [OF join_change assms(1)] assms(2,3) by auto
  show "{n. is_node_alive (snd (handle_heartbeat now info cm)) n} = insert nid {n. is_node_alive cm n}"
    "count_gap (snd (handle_heartbeat now info cm)) = count_gap cm - of_bool (ni_status (cm_node cm nid) = UNKNOWN)"
    using entry_change_effect [OF heartbeat_change assms(1)] assms(2,3) st by (cases "ni_status (cm_node cm nid)"; auto)+
  show "{n. is_node_alive (snd (handle_leave nid cm)) n} = {n. is_node_alive cm n} - {nid}"
    "count_gap (snd (handle_leave nid cm)) =
           count_gap cm - of_bool (ni_status (cm_node cm nid) = UNKNOWN \<or> ni_status (cm_node cm nid) = DEGRADED)"
    using entry_change_effect [OF leave_change assms(1)] assms(2) st
    by (cases "ni_status (cm_node cm nid)"; auto simp: handle_leave_def)+
  show "{n. is_node_alive (snd (handle_node_failure now nid cm)) n} = {n. is_node_alive cm n} - {nid}"
    "count_gap (snd (handle_node_failure now nid cm)) = count_gap cm - of_bool (\<not> is_node_alive cm nid)"
    using entry_change_effect [OF failure_change assms(1)] assms(2) by auto
qed

definition example_cluster :: ClusterManager where
  "example_cluster =
     projr (new_cluster \<lparr>cfg_node_id = 0, cfg_total_nodes = 3, cfg_control_port = 9800, cfg_heartbeat_interval_ms = 500,
       cfg_heartbeat_timeout_ms = 2000, cfg_scheduler_tick_ms = 1000, cfg_memory_per_node = 100, cfg_is_head = True\<rparr>)"

definition example_peer :: "u16 \<Rightarrow> NodeInfo" where
  "example_peer nid = default_node\<lparr>ni_node_id := nid, ni_total_memory := 100, ni_free_memory := 60\<rparr>"

lemmas cluster_eval = example_cluster_def new_cluster_def example_peer_def default_node_def set_node_def table_ok_def
  MAX_CLUSTER_NODES_def cm_node_def cm_self_def empty_catalog_def new_scheduler_def

lemma example_table: "table_ok example_cluster" by (simp add: cluster_eval)

text \<open>Node 0, which is online, joins again: one node online, two counted.\<close>

theorem membership_counts_witness:
  "count_gap (snd (handle_join 5 (example_peer 0) example_cluster)) = count_gap example_cluster + of_bool (is_node_alive example_cluster 0) \<and>
   is_node_alive example_cluster 0"
  using membership_counts [OF example_table, of 0 "example_peer 0" 5]
  by (auto simp: cluster_eval is_node_alive_def)

text \<open>
  Election: after a join or a leave the leader is the lowest online node (the manager's own node when
  none is online). A leave does not touch the scheduler: jobs of the node that left stay active. When
  the node that leaves is the manager's own and no other node is online, \<open>handle_leave\<close> calls
  \<open>handle_node_failure\<close> while it holds the mutex that call needs, and never returns.
\<close>

theorem leadership:
  assumes "table_ok cm" and "unat nid < MAX_CLUSTER_NODES" and "ni_node_id info = nid" and "ni_status (cm_node cm nid) \<noteq> OFFLINE"
  shows "lowest_alive (snd (handle_join now info cm)) (cs_leader_id (cm_state (snd (handle_join now info cm)))) \<and>
     lowest_alive (snd (handle_leave nid cm)) (cs_leader_id (cm_state (snd (handle_leave nid cm)))) \<and>
     cm_scheduler (snd (handle_leave nid cm)) = cm_scheduler cm \<and>
     fst (handle_leave nid cm) = (if nid = cm_self cm \<and> (\<forall>n. is_node_alive cm n \<longrightarrow> n = nid) then Inl Deadlock else Inr ())"
proof (intro conjI)
  show "lowest_alive (snd (handle_join now info cm)) (cs_leader_id (cm_state (snd (handle_join now info cm))))"
    using assms(2,3) elected by (simp add: handle_join_def)
  let ?cm = "snd (handle_leave nid cm)"
  obtain c where c: "?cm = elect_leader c" "cm_self c = cm_self cm"
    using assms(2,4) by (simp add: handle_leave_def Let_def cm_self_def)
  have self: "cm_self ?cm = cm_self cm" using c by simp
  have el: "lowest_alive ?cm (cs_leader_id (cm_state ?cm))" using elected c by simp
  show "lowest_alive ?cm (cs_leader_id (cm_state ?cm))" by (rule el)
  show "cm_scheduler ?cm = cm_scheduler cm" by (simp add: handle_leave_def Let_def)
  have alive: "is_node_alive ?cm n \<longleftrightarrow> is_node_alive cm n \<and> n \<noteq> nid" for n
    using entry_change_effect [OF leave_change [OF assms(2,4)] assms(1,2)] by (auto simp: set_eq_iff)
  have "fst (handle_leave nid cm) = (if nid = cs_leader_id (cm_state ?cm) then Inl Deadlock else Inr ())"
    using assms(2,4) by (simp add: handle_leave_def Let_def)
  moreover have "nid = cs_leader_id (cm_state ?cm) \<longleftrightarrow> nid = cm_self cm \<and> (\<forall>n. is_node_alive cm n \<longrightarrow> n = nid)"
    using el self unfolding lowest_alive_def alive by (auto split: if_splits)
  ultimately show "fst (handle_leave nid cm) = (if nid = cm_self cm \<and> (\<forall>n. is_node_alive cm n \<longrightarrow> n = nid) then Inl Deadlock else Inr ())"
    by simp
qed

lemma example_alive: "is_node_alive example_cluster n \<longleftrightarrow> n = 0"
proof -
  have "is_node_alive example_cluster n \<longleftrightarrow> n \<in> set (online_nodes example_cluster)" by simp
  also have "online_nodes example_cluster = [0]"
    unfolding online_nodes_def node_indices by (simp add: cluster_eval)
  finally show ?thesis by simp
qed

theorem leadership_witness: "fst (handle_leave 0 example_cluster) = Inl Deadlock"
proof -
  have "cm_self example_cluster = 0" "ni_status (cm_node example_cluster 0) \<noteq> OFFLINE" "ni_node_id (example_peer 0) = 0"
    "unat (0 :: u16) < MAX_CLUSTER_NODES" by (simp_all add: cluster_eval)
  with leadership [OF example_table, of 0 "example_peer 0"] show ?thesis by (simp add: example_alive)
qed

section \<open>The heartbeat monitor\<close>

definition suspect :: "u64 \<Rightarrow> ClusterManager \<Rightarrow> nat \<Rightarrow> bool" where
  "suspect now cm i \<longleftrightarrow> i \<noteq> unat (cm_self cm) \<and> i < nat (cfg_total_nodes (cm_config cm)) \<and>
     ni_status (cs_nodes (cm_state cm) ! i) \<in> {ONLINE, DEGRADED} \<and> timed_out now (cs_nodes (cm_state cm) ! i) cm"

text \<open>An online entry carries the number of its slot.\<close>

definition labelled :: "ClusterManager \<Rightarrow> bool" where
  "labelled cm \<longleftrightarrow> (\<forall>i < MAX_CLUSTER_NODES. ni_status (cs_nodes (cm_state cm) ! i) \<in> {ONLINE, DEGRADED} \<longrightarrow>
     unat (ni_node_id (cs_nodes (cm_state cm) ! i)) = i)"

definition jobs_running :: "ClusterManager \<Rightarrow> bool" where
  "jobs_running cm \<longleftrightarrow> (\<forall>j \<in> set (active (cm_scheduler cm)). status j = RUNNING \<and> distinct (assigned_nodes j))"

lemma evicted_active:
  assumes "\<forall>j \<in> set (active s). status j = RUNNING \<and> distinct (assigned_nodes j)" and "j \<in> set (active (evict_node now failed s))"
  shows "j \<in> set (active s) \<and> failed \<notin> set (assigned_nodes j)"
proof -
  obtain js s' where js: "evict_loop now failed (active s) s = (js, s')" by (meson surj_pair)
  from evict_loop_outcome [OF js assms(1)] assms(2) show ?thesis by (auto simp: evict_node_def js evict_outcome_def)
qed

lemma monitor_node_step:
  assumes "table_ok cm" and "labelled cm" and "i < MAX_CLUSTER_NODES" and "i < nat (cfg_total_nodes (cm_config cm))"
  shows "\<exists>cm'. monitor_node now clock i cm = (Inr (), cm') \<and> cm_config cm' = cm_config cm \<and>
     cs_nodes (cm_state cm') = (if suspect now cm i then (cs_nodes (cm_state cm))[i := (cs_nodes (cm_state cm) ! i)\<lparr>ni_status := OFFLINE\<rparr>]
                                else cs_nodes (cm_state cm)) \<and>
     cm_scheduler cm' = (if suspect now cm i then evict_node (clock i) (word_of_nat i) (cm_scheduler cm) else cm_scheduler cm)"
proof (cases "suspect now cm i")
  case True
  let ?id = "ni_node_id (cs_nodes (cm_state cm) ! i)"
  have id: "unat ?id = i" using True assms(2,3) unfolding suspect_def labelled_def by blast
  have "word_of_nat (unat ?id) = ?id" by simp
  then have "?id = word_of_nat i" unfolding id by simp
  moreover have "monitor_node now clock i cm = handle_node_failure (clock i) ?id cm"
    using True assms(3) by (auto simp: monitor_node_def suspect_def)
  ultimately show ?thesis using True id assms(3) by (simp add: handle_node_failure_def cm_node_def Let_def)
next
  case False
  then show ?thesis using assms(3,4) by (auto simp: monitor_node_def suspect_def Let_def)
qed

definition watched_entry :: "u64 \<Rightarrow> ClusterManager \<Rightarrow> nat \<Rightarrow> nat \<Rightarrow> NodeInfo" where
  "watched_entry now cm k i =
     (if i < k \<and> suspect now cm i then (cs_nodes (cm_state cm) ! i)\<lparr>ni_status := OFFLINE\<rparr> else cs_nodes (cm_state cm) ! i)"

definition watched :: "u64 \<Rightarrow> ClusterManager \<Rightarrow> nat \<Rightarrow> ClusterManager \<Rightarrow> bool" where
  "watched now cm k cm' \<longleftrightarrow> table_ok cm' \<and> cm_config cm' = cm_config cm \<and>
     (\<forall>i < MAX_CLUSTER_NODES. cs_nodes (cm_state cm') ! i = watched_entry now cm k i) \<and>
     (\<forall>j \<in> set (active (cm_scheduler cm')). j \<in> set (active (cm_scheduler cm)) \<and>
        (\<forall>i < k. suspect now cm i \<longrightarrow> word_of_nat i \<notin> set (assigned_nodes j)))"

lemma watched_step:
  assumes "watched now cm k c" and "labelled cm" and "jobs_running cm" and "k < MAX_CLUSTER_NODES"
    and "k < nat (cfg_total_nodes (cm_config cm))"
  shows "\<exists>c'. monitor_node now clock k c = (Inr (), c') \<and> watched now cm (Suc k) c'"
proof -
  have nodes: "cs_nodes (cm_state c) ! i = watched_entry now cm k i" if "i < MAX_CLUSTER_NODES" for i
    using assms(1) that by (simp add: watched_def)
  have cfg: "cm_config c = cm_config cm" and tab: "table_ok c" using assms(1) by (simp_all add: watched_def)
  have sus: "suspect now c k \<longleftrightarrow> suspect now cm k"
    using nodes [OF assms(4)] cfg by (simp add: suspect_def cm_self_def timed_out_def watched_entry_def)
  have lab: "labelled c" using assms(2) nodes unfolding labelled_def by (auto simp: watched_entry_def)
  obtain c' where c': "monitor_node now clock k c = (Inr (), c')" "cm_config c' = cm_config c"
    "cs_nodes (cm_state c') = (if suspect now c k then (cs_nodes (cm_state c))[k := (cs_nodes (cm_state c) ! k)\<lparr>ni_status := OFFLINE\<rparr>]
                                else cs_nodes (cm_state c))"
    "cm_scheduler c' = (if suspect now c k then evict_node (clock k) (word_of_nat k) (cm_scheduler c) else cm_scheduler c)"
    using monitor_node_step [OF tab lab assms(4)] assms(5) cfg by auto
  have run: "\<forall>j \<in> set (active (cm_scheduler c)). status j = RUNNING \<and> distinct (assigned_nodes j)"
    using assms(1,3) by (auto simp: watched_def jobs_running_def)
  have jobs: "j \<in> set (active (cm_scheduler c)) \<and> (suspect now cm k \<longrightarrow> word_of_nat k \<notin> set (assigned_nodes j))"
    if "j \<in> set (active (cm_scheduler c'))" for j
    using that evicted_active [OF run] c'(4) sus by (auto split: if_splits)
  have "cs_nodes (cm_state c') ! i = watched_entry now cm (Suc k) i" if "i < MAX_CLUSTER_NODES" for i
    using that nodes [OF that] nodes [OF assms(4)] tab c'(3) sus assms(4)
    by (cases "i = k") (auto simp: watched_entry_def table_ok_def less_Suc_eq)
  moreover have "table_ok c'" using tab c'(3) by (simp add: table_ok_def)
  ultimately have "watched now cm (Suc k) c'"
    using assms(1) c'(2) cfg jobs unfolding watched_def by (auto simp: less_Suc_eq)
  with c'(1) show ?thesis by blast
qed

lemma watched_prefix:
  assumes "table_ok cm" and "labelled cm" and "jobs_running cm" and "k \<le> MAX_CLUSTER_NODES" and "k \<le> nat (cfg_total_nodes (cm_config cm))"
  shows "\<exists>c. forEach [0..<k] (monitor_node now clock) cm = (Inr (), c) \<and> watched now cm k c"
  using assms(4,5)
proof (induction k)
  case 0
  then show ?case using assms(1) by (simp add: watched_def watched_entry_def)
next
  case (Suc k)
  then obtain c where c: "forEach [0..<k] (monitor_node now clock) cm = (Inr (), c)" "watched now cm k c" by auto
  obtain c' where c': "monitor_node now clock k c = (Inr (), c')" "watched now cm (Suc k) c'"
    using watched_step [OF c(2) assms(2,3)] Suc.prems by auto
  have "forEach [0..<Suc k] (monitor_node now clock) cm = (Inr (), c')" by (simp add: forEach_append andThen_def c c')
  with c'(2) show ?case by blast
qed


definition pair_cluster :: ClusterManager where
  "pair_cluster = snd (handle_join 5 (example_peer 1) example_cluster)"

lemma pair_nodes: "cs_nodes (cm_state pair_cluster) =
    [(default_node\<lparr>ni_status := ONLINE, ni_hostname := ''localhost''\<rparr>),
     (example_peer 1)\<lparr>ni_status := ONLINE, ni_last_heartbeat_us := 5\<rparr>] @ replicate 6 default_node"
  by (simp add: pair_cluster_def handle_join_def cluster_eval numeral_eq_Suc)

lemma pair_config: "cm_config pair_cluster = cm_config example_cluster" "cm_scheduler pair_cluster = cm_scheduler example_cluster"
  by (simp_all add: pair_cluster_def handle_join_def cluster_eval)


text \<open>
  A wrong node is declared dead. When a node that never joined leaves and then sends heartbeats, its entry is online
  but still carries the default number 0. Once it falls silent, the monitor reports that number: node 0 goes offline, and
  the silent node stays online.
\<close>

theorem monitor_fails_wrong_node:
  assumes "table_ok cm" and "unat nid < MAX_CLUSTER_NODES" and "nid \<noteq> cm_self cm" and "nid \<noteq> 0"
    and "cm_node cm nid = default_node" and "ni_node_id info = nid" and "is_node_alive cm 0"
    and "cm1 = snd (handle_leave nid cm)" and "cm2 = snd (handle_heartbeat t info cm1)"
    and "word_of_int (cfg_heartbeat_timeout_ms (cm_config cm)) * 1000 < now - t"
  shows "is_node_alive cm2 0 \<and> is_node_alive cm2 nid \<and>
     is_node_alive (snd (monitor_node now clock (unat nid) cm2)) nid \<and>
     \<not> is_node_alive (snd (monitor_node now clock (unat nid) cm2)) 0"
proof -
  have st: "ni_status (cm_node cm nid) = UNKNOWN" using assms(5) by (simp add: default_node_def)
  have nodes1: "cs_nodes (cm_state cm1) = (cs_nodes (cm_state cm))[unat nid := default_node\<lparr>ni_status := OFFLINE\<rparr>]"
    using assms(2,5,8) st by (simp add: handle_leave_def Let_def)
  have cfg1: "cm_config cm1 = cm_config cm" using assms(8) by (simp add: handle_leave_def Let_def)
  let ?e = "default_node\<lparr>ni_last_heartbeat_us := t, ni_heartbeat_seq := ni_heartbeat_seq info, ni_free_memory := ni_free_memory info, ni_status := ONLINE\<rparr>"
  have old: "cm_node cm1 nid = default_node\<lparr>ni_status := OFFLINE\<rparr>" using nodes1 assms(1,2) by (simp add: cm_node_def table_ok_def)
  have nodes2: "cs_nodes (cm_state cm2) = (cs_nodes (cm_state cm1))[unat nid := ?e]" and cfg2: "cm_config cm2 = cm_config cm"
    using old assms(2,6,9) cfg1 by (simp_all add: handle_heartbeat_def Let_def default_node_def)
  have tab: "table_ok cm1" "table_ok cm2" using assms(1) nodes1 nodes2 by (simp_all add: table_ok_def)
  have alive1: "is_node_alive cm1 0" using alive_put_node [OF assms(1,2) nodes1, of 0] assms(4,7) by simp
  note alive2 = alive_put_node [OF tab(1) assms(2) nodes2]
  have e: "cs_nodes (cm_state cm2) ! unat nid = ?e" using nodes2 tab(1) assms(2) by (simp add: table_ok_def)
  have "unat nid \<noteq> unat (cm_self cm2)" using assms(3) cfg2 by (simp add: cm_self_def word_unat_eq_iff)
  then have m: "monitor_node now clock (unat nid) cm2 = handle_node_failure (clock (unat nid)) 0 cm2"
    using assms(2,10) cfg2 by (simp add: monitor_node_def e Let_def timed_out_def default_node_def)
  have "unat (0 :: u16) < MAX_CLUSTER_NODES" by (simp add: MAX_CLUSTER_NODES_def)
  from entry_change_effect [OF failure_change [OF this] tab(2) this]
  have "{n. is_node_alive (snd (monitor_node now clock (unat nid) cm2)) n} = {n. is_node_alive cm2 n} - {0}" by (simp add: m)
  with alive1 alive2 assms(4) show ?thesis by auto
qed

theorem monitor_fails_wrong_node_witness:
  "\<not> is_node_alive (snd (monitor_node 3000000 (\<lambda>_. 3000000) 1
        (snd (handle_heartbeat 6 (example_peer 1) (snd (handle_leave 1 (example_cluster\<lparr>cm_config := (cm_config example_cluster)\<lparr>cfg_node_id := 2\<rparr>\<rparr>))))))) 0"
proof -
  let ?cm = "example_cluster\<lparr>cm_config := (cm_config example_cluster)\<lparr>cfg_node_id := 2\<rparr>\<rparr>"
  have "table_ok ?cm" "is_node_alive ?cm 0" "unat (1 :: u16) < MAX_CLUSTER_NODES" "1 \<noteq> cm_self ?cm" "cm_node ?cm 1 = default_node"
    "ni_node_id (example_peer 1) = 1" "word_of_int (cfg_heartbeat_timeout_ms (cm_config ?cm)) * 1000 < 3000000 - (6 :: u64)"
    by (simp_all add: cluster_eval is_node_alive_def)
  then show ?thesis using monitor_fails_wrong_node [of ?cm 1 "example_peer 1" _ _ 6 3000000 "\<lambda>_. 3000000"] by simp
qed

text \<open>
  A dead leader stays leader: on a manager that is not the leader itself, the failure of the leader leaves
  \<open>leader_id\<close> at the failed node, which is offline; the re-election is guarded by the wrong condition.
\<close>

theorem leader_failure_keeps_leader:
  assumes "table_ok cm" and "unat (cs_leader_id (cm_state cm)) < MAX_CLUSTER_NODES" and "\<not> is_leader cm"
  shows "let cm' = snd (handle_node_failure now (cs_leader_id (cm_state cm)) cm) in
     cs_leader_id (cm_state cm') = cs_leader_id (cm_state cm) \<and> \<not> is_node_alive cm' (cs_leader_id (cm_state cm'))"
proof -
  have l: "cs_leader_id (cm_state (snd (handle_node_failure now (cs_leader_id (cm_state cm)) cm))) = cs_leader_id (cm_state cm)"
    using assms(2,3) by (simp add: handle_node_failure_def is_leader_def cm_self_def Let_def)
  show ?thesis unfolding Let_def l
    using entry_change_effect [OF failure_change [OF assms(2)] assms(1,2)] by auto
qed

theorem leader_failure_keeps_leader_witness:
  "let cm = pair_cluster\<lparr>cm_config := (cm_config pair_cluster)\<lparr>cfg_node_id := 1\<rparr>\<rparr>;
       cm' = snd (handle_node_failure 9 (cs_leader_id (cm_state cm)) cm) in
   cs_leader_id (cm_state cm') = cs_leader_id (cm_state cm) \<and> \<not> is_node_alive cm' (cs_leader_id (cm_state cm'))"
proof -
  let ?cm = "pair_cluster\<lparr>cm_config := (cm_config pair_cluster)\<lparr>cfg_node_id := 1\<rparr>\<rparr>"
  have "cs_leader_id (cm_state pair_cluster) = 0"
    unfolding pair_cluster_def handle_join_def elect_leader_def node_indices by (simp add: cluster_eval membership_def)
  then have "table_ok ?cm" "unat (cs_leader_id (cm_state ?cm)) < MAX_CLUSTER_NODES" "\<not> is_leader ?cm"
    by (simp_all add: table_ok_def pair_nodes MAX_CLUSTER_NODES_def is_leader_def cm_self_def)
  from leader_failure_keeps_leader [OF this, of 9] show ?thesis unfolding Let_def .
qed

text \<open>
  Published regions are all filed under node 0, whatever node publishes them: a region of another node is not found
  under its own number, and it replaces the region of node 0 with the same region number.
\<close>

theorem publish_region_ignores_node:
  "lookup_region (publish_region nid region addr len rkey cm) n r =
     (if n = 0 \<and> r = region
      then Some \<lparr>rde_local_addr = addr, rde_length = len, rde_rkey = rkey, rde_flags = 3, rde_epoch = 1\<rparr>
      else lookup_region cm n r)"
  by (simp add: lookup_region_def publish_region_def lookup_upsert READABLE_def WRITABLE_def)

end
