(* ===== verification/Progress_Engine.thy ===== *)
theory Progress_Engine
  imports Work_MCCL
begin

text \<open>
  The bounded engine of \<open>csrc/runtime/ProgressEngine.cpp\<close>. A submitter first takes a sequence number, then
  waits for room in the queue; several submitters may be between the two. The worker runs the
  operation at the front and calls back. The engine is modelled without metrics (\<open>metrics_\<close> null).
\<close>

section \<open>Operations and callbacks\<close>

text \<open>The callbacks are given by their outcomes; \<^term>\<open>None\<close> on the outside means that there is no callback.\<close>

record 'e EngineOp =
  seq_num :: u32
  execute :: "'e outcome"
  on_complete :: "'e outcome option"
  on_error :: "('e \<Rightarrow> 'e outcome) option"

text \<open>What an operation's functions are called with, in order.\<close>

datatype 'e call = Execute | OnComplete | OnError 'e

definition notify_error :: "'e EngineOp \<Rightarrow> 'e \<Rightarrow> 'e call list" where
  "notify_error op e = (case on_error op of None \<Rightarrow> [] | Some _ \<Rightarrow> [OnError e])"

definition run_op :: "'e EngineOp \<Rightarrow> 'e call list" where
  "run_op op =
     Execute #
     (case execute op of
        Some e \<Rightarrow> notify_error op e
      | None \<Rightarrow>
         (case on_complete op of
            None \<Rightarrow> []
          | Some None \<Rightarrow> [OnComplete]
          | Some (Some e) \<Rightarrow> OnComplete # notify_error op e))"

section \<open>The engine\<close>

record 'e engine =
  max_depth :: nat
  running :: bool
  stop_requested :: bool
  seq_counter :: u32
  waiting :: "'e EngineOp list"
  equeue :: "'e EngineOp list"
  worker_exited :: bool
  taken_in :: "'e EngineOp list"
  done_ops :: "'e EngineOp list"
  calls :: "(u32 \<times> 'e call) list"

definition new_engine :: "nat \<Rightarrow> failure + 'e engine" where
  "new_engine depth =
     (if depth = 0 then Inl (Thrown (MCCLError ''max_queue_depth must be > 0''))
      else Inr \<lparr>max_depth = depth, running = False, stop_requested = False, seq_counter = 0, waiting = [], equeue = [],
                worker_exited = False, taken_in = [], done_ops = [], calls = []\<rparr>)"

definition engine_start :: "'e engine \<Rightarrow> 'e engine" where
  "engine_start s =
     (if running s then s else s\<lparr>stop_requested := False, running := True, worker_exited := False\<rparr>)"

text \<open>\<open>submit\<close> up to the wait: the check, the sequence number and the operation.\<close>

definition reserve :: "'e outcome \<Rightarrow> 'e outcome option \<Rightarrow> ('e \<Rightarrow> 'e outcome) option \<Rightarrow> 'e engine \<Rightarrow> (failure, 'e engine, u32) res" where
  "reserve ex oc oe s =
     (if \<not> running s then (Inl (Thrown (MCCLError ''ProgressEngine is not running'')), s)
      else (Inr (seq_counter s),
            s\<lparr>seq_counter := seq_counter s + 1,
              waiting := waiting s @ [\<lparr>seq_num = seq_counter s, execute = ex, on_complete = oc, on_error = oe\<rparr>]\<rparr>))"

text \<open>
  \<open>submit\<close> from the wait on, for the \<open>i\<close>-th waiting submitter: \<^term>\<open>None\<close> while the queue is full and no stop
  is requested; an exception when a stop is requested.
\<close>

definition enqueue :: "nat \<Rightarrow> 'e engine \<Rightarrow> (failure, 'e engine, u32) res option" where
  "enqueue i s =
     (let op = waiting s ! i; s1 = s\<lparr>waiting := take i (waiting s) @ drop (Suc i) (waiting s)\<rparr> in
      if \<not> (length (equeue s) < max_depth s \<or> stop_requested s) then None
      else if stop_requested s then Some (Inl (Thrown (MCCLError ''ProgressEngine shutting down, cannot submit'')), s1)
      else Some (Inr (seq_num op), s1\<lparr>equeue := equeue s @ [op], taken_in := taken_in s @ [op]\<rparr>))"

definition request_stop :: "'e engine \<Rightarrow> 'e engine" where
  "request_stop s = (if \<not> running s then s else s\<lparr>stop_requested := True\<rparr>)"

text \<open>The end of \<open>stop\<close>: the join returns once the worker has left its loop.\<close>

definition join_worker :: "'e engine \<Rightarrow> 'e engine option" where
  "join_worker s = (if stop_requested s \<and> worker_exited s then Some (s\<lparr>running := False\<rparr>) else None)"

text \<open>One iteration of \<open>worker_loop\<close>: \<^term>\<open>None\<close> while it waits.\<close>

definition worker_iteration :: "'e engine \<Rightarrow> 'e engine option" where
  "worker_iteration s =
     (if \<not> running s \<or> worker_exited s then None
      else case equeue s of
        [] \<Rightarrow> if stop_requested s then Some (s\<lparr>worker_exited := True\<rparr>) else None
      | op # q \<Rightarrow> Some (s\<lparr>equeue := q, done_ops := done_ops s @ [op], calls := calls s @ map (Pair (seq_num op)) (run_op op)\<rparr>))"

inductive engine_step :: "'e engine \<Rightarrow> 'e engine \<Rightarrow> bool" where
  start_step: "engine_step s (engine_start s)"
| reserve_step: "engine_step s (snd (reserve ex oc oe s))"
| enqueue_step: "i < length (waiting s) \<Longrightarrow> enqueue i s = Some (r, s') \<Longrightarrow> engine_step s s'"
| request_stop_step: "engine_step s (request_stop s)"
| join_step: "join_worker s = Some s' \<Longrightarrow> engine_step s s'"
| worker_step: "worker_iteration s = Some s' \<Longrightarrow> engine_step s s'"

inductive_cases engine_stepE: "engine_step s s'"

lemmas engine_ops = engine_start_def reserve_def enqueue_def request_stop_def join_worker_def worker_iteration_def Let_def

section \<open>Order, bound and completeness\<close>

definition idle_engine :: "nat \<Rightarrow> 'e engine" where
  "idle_engine depth = projr (new_engine depth)"

lemma idle_engine: "0 < depth \<Longrightarrow> new_engine depth = Inr (idle_engine depth)"
  by (simp add: idle_engine_def new_engine_def)

text \<open>The laws of the shared contract hold for every depth; the locale is interpreted at a positive one.\<close>

lemma engine_step_fifo:
  assumes "engine_step s s'"
  shows "(\<exists>t. taken_in s' = taken_in s @ [t] \<and> equeue s' = equeue s @ [t] \<and> done_ops s' = done_ops s) \<or>
       (\<exists>t. equeue s = t # equeue s' \<and> done_ops s' = done_ops s @ [t] \<and> taken_in s' = taken_in s) \<or>
       (taken_in s' = taken_in s \<and> equeue s' = equeue s \<and> done_ops s' = done_ops s)"
  using assms by (cases rule: engine_step.cases) (auto simp: engine_ops split: if_splits list.splits)

interpretation engine: fifo_engine "idle_engine (Suc d)" engine_step taken_in done_ops equeue for d
  by unfold_locales (auto simp: idle_engine_def new_engine_def dest: engine_step_fifo)

definition engine_inv :: "'e engine \<Rightarrow> bool" where
  "engine_inv s \<longleftrightarrow> length (equeue s) \<le> max_depth s \<and>
     (worker_exited s \<longrightarrow> stop_requested s \<and> equeue s = []) \<and>
     calls s = concat (map (\<lambda>op. map (Pair (seq_num op)) (run_op op)) (done_ops s)) \<and>
     (\<not> running s \<longrightarrow> equeue s = [] \<and> (stop_requested s \<or> waiting s = []))"

lemma engine_inv_new: "engine_inv (idle_engine (Suc d))"
  by (simp add: engine_inv_def idle_engine_def new_engine_def)

lemma engine_inv_worker: "engine_inv s \<Longrightarrow> worker_iteration s = Some s' \<Longrightarrow> engine_inv s'"
  by (cases "equeue s") (auto simp: engine_inv_def worker_iteration_def split: if_splits)

lemma engine_inv_enqueue:
  assumes "engine_inv s" and "i < length (waiting s)" and "enqueue i s = Some (r, s')"
  shows "engine_inv s'"
proof (cases "stop_requested s")
  case True
  then have "s' = s\<lparr>waiting := take i (waiting s) @ drop (Suc i) (waiting s)\<rparr>" using assms(3) by (simp add: enqueue_def Let_def)
  with assms(1) True show ?thesis by (simp add: engine_inv_def)
next
  case False
  then have "running s" using assms(1,2) unfolding engine_inv_def by auto
  moreover have "length (equeue s) < max_depth s \<and>
      s' = s\<lparr>waiting := take i (waiting s) @ drop (Suc i) (waiting s), equeue := equeue s @ [waiting s ! i], taken_in := taken_in s @ [waiting s ! i]\<rparr>"
    using False assms(3) by (simp add: enqueue_def Let_def split: if_splits)
  ultimately show ?thesis using assms(1) False unfolding engine_inv_def by auto
qed

lemma engine_inv_step:
  assumes "engine_inv s" and "engine_step s s'"
  shows "engine_inv s'"
  using assms(2)
proof (cases rule: engine_step.cases)
  case start_step
  with assms(1) show ?thesis by (simp add: engine_inv_def engine_start_def)
next
  case (reserve_step ex oc oe)
  with assms(1) show ?thesis by (simp add: engine_inv_def reserve_def)
next
  case (enqueue_step i r)
  with engine_inv_enqueue [OF assms(1)] show ?thesis by blast
next
  case request_stop_step
  with assms(1) show ?thesis by (simp add: engine_inv_def request_stop_def)
next
  case join_step
  with assms(1) show ?thesis by (auto simp: engine_inv_def join_worker_def split: if_splits)
next
  case worker_step
  with engine_inv_worker [OF assms(1)] show ?thesis by blast
qed

lemma engine_inv_reachable: "engine_step\<^sup>*\<^sup>* (idle_engine (Suc d)) s \<Longrightarrow> engine_inv s"
  by (induction rule: rtranclp_induct) (blast intro: engine_inv_new engine_inv_step)+

lemma run_op_notifies:
  assumes "on_complete op \<noteq> None" and "on_error op \<noteq> None"
  shows "run_op op =
     (case execute op of Some e \<Rightarrow> [Execute, OnError e]
      | None \<Rightarrow> (case the (on_complete op) of None \<Rightarrow> [Execute, OnComplete] | Some e \<Rightarrow> [Execute, OnComplete, OnError e]))"
  using assms by (auto simp: run_op_def notify_error_def split: option.split)

text \<open>
  C23. The bounded engine: under every interleaving of submitters, \<open>start\<close>, \<open>stop\<close> and the worker, the queue never
  exceeds its depth; accepted operations are run once each, in the order of acceptance; when the worker has
  exited, or \<open>stop\<close> has returned, none is left behind; and an operation with both callbacks gets exactly one
  verdict, completion or the exception of the step that failed.
\<close>

theorem engine_sound:
  assumes "engine_step\<^sup>*\<^sup>* (idle_engine (Suc d)) s"
  shows "length (equeue s) \<le> max_depth s \<and> taken_in s = done_ops s @ equeue s \<and>
     (worker_exited s \<or> \<not> running s \<longrightarrow> done_ops s = taken_in s) \<and>
     calls s = concat (map (\<lambda>op. map (Pair (seq_num op)) (run_op op)) (done_ops s)) \<and>
     (\<forall>op. on_complete op \<noteq> None \<and> on_error op \<noteq> None \<longrightarrow>
        run_op op = (case execute op of Some e \<Rightarrow> [Execute, OnError e]
          | None \<Rightarrow> (case the (on_complete op) of None \<Rightarrow> [Execute, OnComplete] | Some e \<Rightarrow> [Execute, OnComplete, OnError e])))"
proof -
  have inv: "engine_inv s" by (rule engine_inv_reachable [OF assms])
  have order: "taken_in s = done_ops s @ equeue s" by (rule engine.fifo_order [OF assms])
  have "worker_exited s \<or> \<not> running s \<Longrightarrow> done_ops s = taken_in s"
    using inv order unfolding engine_inv_def by auto
  then show ?thesis using inv order run_op_notifies unfolding engine_inv_def by blast
qed

definition busy_engine :: "string engine" where
  "busy_engine = snd (the (enqueue 0 (snd (reserve None (Some None) (Some (\<lambda>_. None)) (engine_start (idle_engine (Suc 0)))))))"

lemma busy_reachable: "engine_step\<^sup>*\<^sup>* (idle_engine (Suc 0)) (the (worker_iteration busy_engine))"
proof -
  let ?s0 = "idle_engine (Suc 0) :: string engine"
  let ?s1 = "engine_start ?s0"
  let ?s2 = "snd (reserve None (Some None) (Some (\<lambda>_. None)) ?s1)"
  have e: "enqueue 0 ?s2 = Some (Inr 0, busy_engine)" "0 < length (waiting ?s2)"
    "worker_iteration busy_engine = Some (the (worker_iteration busy_engine))"
    by (simp_all add: busy_engine_def engine_ops idle_engine_def new_engine_def)
  have "engine_step ?s0 ?s1" "engine_step ?s1 ?s2" by (rule start_step, rule reserve_step)
  moreover have "engine_step ?s2 busy_engine" by (rule enqueue_step [OF e(2,1)])
  moreover have "engine_step busy_engine (the (worker_iteration busy_engine))" by (rule worker_step [OF e(3)])
  ultimately show ?thesis by (meson r_into_rtranclp rtranclp_trans)
qed

theorem engine_sound_witness: "calls (the (worker_iteration busy_engine)) = [(0, Execute), (0, OnComplete)]"
proof -
  have "done_ops (the (worker_iteration busy_engine)) = [\<lparr>seq_num = 0, execute = None, on_complete = Some None, on_error = Some (\<lambda>_. None)\<rparr>]"
    by (simp add: busy_engine_def engine_ops idle_engine_def new_engine_def)
  moreover have "calls (the (worker_iteration busy_engine)) =
      concat (map (\<lambda>op. map (Pair (seq_num op)) (run_op op)) (done_ops (the (worker_iteration busy_engine))))"
    using engine_sound [OF busy_reachable] by blast
  ultimately show ?thesis by (simp add: run_op_def)
qed

section \<open>Blocking\<close>

text \<open>A blocked submitter is never stuck for good: the worker can always make room, or the submitter can fail.\<close>

lemma submitter_progress:
  assumes "engine_step\<^sup>*\<^sup>* (idle_engine (Suc d)) s" and "i < length (waiting s)" and "enqueue i s = None" and "0 < max_depth s"
  shows "\<exists>s'. worker_iteration s = Some s' \<and> length (equeue s') < max_depth s'"
proof -
  have inv: "engine_inv s" by (rule engine_inv_reachable [OF assms(1)])
  have full: "\<not> length (equeue s) < max_depth s" "\<not> stop_requested s" using assms(3) by (auto simp: enqueue_def Let_def split: if_splits)
  then obtain op q where q: "equeue s = op # q" using assms(4) by (cases "equeue s") auto
  moreover have "running s" "\<not> worker_exited s" using inv full(2) q unfolding engine_inv_def by auto
  ultimately show ?thesis using inv by (auto simp: worker_iteration_def engine_inv_def)
qed

end
