(* ===== verification/Dmem_Properties.thy ===== *)
theory Dmem_Properties
  imports Dmem
begin

text \<open>
  Properties of whole runs of the distributed memory manager: what stays true under every sequence
  of its operations, local transfers, and the sharing of the completion queue.
\<close>

section \<open>Runs\<close>

inductive dmem_step :: "dmem_env \<Rightarrow> dmem \<Rightarrow> dmem \<Rightarrow> bool" for env where
  register_step: "dmem_step env s (snd (register_region mr base len flags s))"
| unregister_step: "dmem_step env s (unregister_region rid s)"
| put_step: "dmem_step env s (snd (dmem_put env target addr src len s))"
| get_step: "dmem_step env s (snd (dmem_get env target addr dst len s))"
| imm_step: "dmem_step env s (snd (put_with_imm env target addr src len imm s))"
| fence_step: "dmem_step env s (snd (dmem_fence env target s))"
| drain_step: "dmem_step env s (s\<lparr>pending_ops := drain_pending outcomes (pending_ops s)\<rparr>)"
| poller_step: "dmem_step env s (poller_iteration p s)"
| start_step: "dmem_step env s (dmem_start s)"
| shutdown_step: "dmem_step env s (dmem_shutdown s)"

inductive_cases dmem_stepE: "dmem_step env s s'"

definition no_peers :: "dmem \<Rightarrow> bool" where
  "no_peers s \<longleftrightarrow> peer_conns s = replicate MAX_NODES None"

lemma peer_conn_none: "no_peers s \<Longrightarrow> \<exists>e. peer_conn target s = Inl e"
  by (auto simp: no_peers_def peer_conn_def MAX_NODES_def)

lemma put_no_peers:
  assumes "no_peers s"
  shows "fst (dmem_put env target addr src len s) = Inr w \<Longrightarrow> is_local (resolve addr s)"
    and "peer_conns (snd (dmem_put env target addr src len s)) = peer_conns s"
    and "dm_node_id (snd (dmem_put env target addr src len s)) = dm_node_id s"
  using peer_conn_none [OF assms, of target] by (auto simp: dmem_put_def put_chunked_def Let_def split: if_splits)

lemma get_no_peers:
  assumes "no_peers s"
  shows "fst (dmem_get env target addr dst len s) = Inr w \<Longrightarrow> is_local (resolve addr s)"
    and "peer_conns (snd (dmem_get env target addr dst len s)) = peer_conns s"
    and "dm_node_id (snd (dmem_get env target addr dst len s)) = dm_node_id s"
  using peer_conn_none [OF assms, of target] by (auto simp: dmem_get_def get_chunked_def Let_def split: if_splits)

lemma imm_fence_no_peers:
  assumes "no_peers s"
  shows "snd (put_with_imm env target addr src len imm s) = s" and "snd (dmem_fence env target s) = s"
    and "\<exists>e. fst (put_with_imm env target addr src len imm s) = Inl e"
  using peer_conn_none [OF assms, of target] by (auto simp: put_with_imm_def dmem_fence_def Let_def split: failure.split)

lemma register_frame:
  "peer_conns (snd (register_region mr base len flags s)) = peer_conns s" "dm_node_id (snd (register_region mr base len flags s)) = dm_node_id s"
  by (auto simp: register_region_def Let_def split: option.split)

lemma no_peers_step:
  assumes "dmem_step env s s'" and "no_peers s"
  shows "no_peers s' \<and> dm_node_id s' = dm_node_id s"
  using assms
proof (cases rule: dmem_step.cases)
  case (imm_step target addr src len imm)
  then show ?thesis using imm_fence_no_peers(1) [OF assms(2)] assms(2) by simp
next
  case (fence_step target)
  then show ?thesis using imm_fence_no_peers(2) [OF assms(2)] assms(2) by simp
qed (use assms(2) put_no_peers(2,3) [OF assms(2)] get_no_peers(2,3) [OF assms(2)] register_frame in
    \<open>auto simp: no_peers_def unregister_region_def poller_iteration_def dmem_start_def dmem_shutdown_def split: poll_result.split\<close>)

lemma new_dmem_no_peers: "new_dmem su m n = Inr s \<Longrightarrow> no_peers s \<and> dm_node_id s = n"
  by (auto simp: new_dmem_def no_peers_def Let_def split: if_splits prod.splits option.splits)

lemma reachable_no_peers:
  assumes "new_dmem su m n = Inr s0" and "(dmem_step env)\<^sup>*\<^sup>* s0 s"
  shows "no_peers s \<and> dm_node_id s = n"
  using assms(2)
proof (induction rule: rtranclp_induct)
  case base
  then show ?case using new_dmem_no_peers [OF assms(1)] .
next
  case (step s s')
  then show ?case using no_peers_step by metis
qed

text \<open>
  No remote transfer ever succeeds: no operation of the manager opens a connection to a peer, so in every state it can reach, a put, a get or a put with
  immediate data to a region of another node fails (with an exception, or undefined behaviour for a node number
  beyond the table).
\<close>

theorem remote_transfers_fail:
  assumes "new_dmem su m n = Inr s0" and "(dmem_step env)\<^sup>*\<^sup>* s0 s" and "ga_node_id addr \<noteq> n"
  shows "(\<exists>e. fst (dmem_put env target addr src len s) = Inl e) \<and> (\<exists>e. fst (dmem_get env target addr src len s) = Inl e) \<and>
     (\<exists>e. fst (put_with_imm env target addr src len imm s) = Inl e)"
proof -
  have inv: "no_peers s" "dm_node_id s = n" using reachable_no_peers [OF assms(1,2)] by auto
  have "\<not> is_local (resolve addr s)"
    using assms(3) inv(2) by (auto simp: resolve_def no_resolution_def split: option.split)
  moreover have "\<exists>e. x = Inl e" if "\<And>w. x = Inr w \<Longrightarrow> False" for x :: "failure + u64" using that by (cases x) auto
  ultimately show ?thesis
    using put_no_peers(1) [OF inv(1)] get_no_peers(1) [OF inv(1)] imm_fence_no_peers(3) [OF inv(1)] by meson
qed

theorem remote_transfers_fail_witness:
  "\<exists>e. fst (dmem_put prompt_env 0 example_addr 0x500 64 (projr (new_dmem example_setup (\<lambda>_. 0) 1))) = Inl e"
proof -
  have "new_dmem example_setup (\<lambda>_. 0) 1 = Inr (projr (new_dmem example_setup (\<lambda>_. 0) 1))"
    by (simp add: new_dmem_def example_setup_def buf_allocate_def buf_cleanup_def register_with_def empty_buffer_def
      CATALOG_BUF_SIZE_def MAX_REGIONS_PER_NODE_def RDE_WIRE_SIZE_def kRdmaBufSize_def Let_def)
  from remote_transfers_fail [OF this rtranclp.rtrancl_refl, of example_addr] show ?thesis by simp
qed

section \<open>Registered regions\<close>

lemma register_success:
  assumes "base \<noteq> 0" and "len \<noteq> 0" and "unat (next_region_id s) < 2 ^ 32 - 1"
  shows "\<exists>rs. register_region (Some (rkey, lkey)) base len flags s =
     (Inr (next_region_id s), s\<lparr>next_region_id := next_region_id s + 1, dm_regions := rs,
        dm_catalog := upsert (next_region_id s) \<lparr>rde_local_addr = base, rde_length = len, rde_rkey = rkey, rde_flags = ucast flags, rde_epoch = 1\<rparr> (dm_catalog s)\<rparr>) \<and>
     unat (next_region_id s) < length rs \<and>
     rs ! unat (next_region_id s) = \<lparr>mr_gaddr = \<lparr>ga_node_id = dm_node_id s, ga_region_id = next_region_id s, ga_offset = 0\<rparr>,
        mr_local_addr = base, mr_length = len, mr_rkey = rkey, mr_lkey = lkey, mr_flags = flags\<rparr>"
proof -
  let ?r = "next_region_id s"
  have nxt: "unat (?r + 1) = unat ?r + 1" using assms(3) by (simp add: unat_word_ariths(1))
  let ?rs = "if length (dm_regions s) \<le> unat ?r then resize_regions (unat (?r + 1)) (dm_regions s) else dm_regions s"
  have "unat ?r < length ?rs" unfolding nxt by (auto simp: resize_regions_def)
  then show ?thesis using assms(1,2) by (auto simp: register_region_def Let_def)
qed

lemma resolve_registered:
  assumes "unat rid < length (dm_regions s)" and "dm_regions s ! unat rid = r" and "off < mr_length r"
  shows "resolve \<lparr>ga_node_id = dm_node_id s, ga_region_id = rid, ga_offset = off\<rparr> s =
     no_resolution\<lparr>is_local := True, local_ptr := mr_local_addr r + off, local_lkey := mr_lkey r, res_length := mr_length r - off\<rparr>"
proof -
  have "0 < mr_length r" using assms(3) by (metis word_gt_0 word_not_simps(1))
  then show ?thesis using assms by (simp add: resolve_def Let_def)
qed

text \<open>
  C34. Local transfers round trip and stay inside the region: after registering a buffer, a put of \<open>n\<close> bytes at an offset within its bounds followed by a get of the same
  address returns the bytes that were put, which then stand at the buffer's address plus the offset, and the put changes no byte outside the registered buffer.
\<close>

theorem local_put_get:
  assumes "base \<noteq> 0" and "unat (next_region_id s) < 2 ^ 32 - 1" and "unat off + unat n \<le> unat len" and "0 < n"
  shows "\<exists>rid s1 s2 s3. register_region (Some (rkey, lkey)) base len flags s = (Inr rid, s1) \<and>
     (let addr = \<lparr>ga_node_id = dm_node_id s, ga_region_id = rid, ga_offset = off\<rparr> in
      dmem_put env (dm_node_id s) addr src n s1 = (Inr 0, s2) \<and> dmem_get env target addr dst n s2 = (Inr 0, s3)) \<and>
     (\<forall>i < unat n. mem_read (dm_mem s2) (base + off) i = mem_read (dm_mem s) src i \<and> mem_read (dm_mem s3) dst i = mem_read (dm_mem s) src i) \<and>
     (\<forall>x. dm_mem s2 x \<noteq> dm_mem s1 x \<longrightarrow> unat (x - base) < unat len)"
proof -
  let ?rid = "next_region_id s"
  let ?addr = "\<lparr>ga_node_id = dm_node_id s, ga_region_id = ?rid, ga_offset = off\<rparr>"
  note fits = fits_in_region [OF assms(3,4)]
  have "len \<noteq> 0" using fits by (metis word_not_simps(1))
  from register_success [OF assms(1) this assms(2), of rkey lkey flags] obtain s1 where reg: "register_region (Some (rkey, lkey)) base len flags s = (Inr ?rid, s1)"
    "dm_mem s1 = dm_mem s" "dm_node_id s1 = dm_node_id s" "unat ?rid < length (dm_regions s1)"
    "mr_local_addr (dm_regions s1 ! unat ?rid) = base" "mr_length (dm_regions s1 ! unat ?rid) = len" by auto
  have res: "resolve ?addr t = no_resolution\<lparr>is_local := True, local_ptr := base + off, local_lkey := mr_lkey (dm_regions s1 ! unat ?rid), res_length := len - off\<rparr>"
    if "dm_regions t = dm_regions s1" "dm_node_id t = dm_node_id s1" for t
    using resolve_registered [of ?rid t _ off] fits reg(3-6) that by simp
  let ?s2 = "s1\<lparr>dm_mem := mem_write (dm_mem s1) (base + off) (unat n) (mem_read (dm_mem s1) src)\<rparr>"
  let ?s3 = "?s2\<lparr>dm_mem := mem_write (dm_mem ?s2) dst (unat n) (mem_read (dm_mem ?s2) (base + off))\<rparr>"
  have put: "dmem_put env (dm_node_id s) ?addr src n s1 = (Inr 0, ?s2)"
    using res [of s1] fits reg(3) by (simp add: dmem_put_def no_resolution_def Let_def)
  have get: "dmem_get env target ?addr dst n ?s2 = (Inr 0, ?s3)"
    using res [of ?s2] fits by (simp add: dmem_get_def no_resolution_def Let_def)
  have n64: "unat n < 2 ^ 64" using unsigned_less [of n] by simp
  have "mem_read (dm_mem ?s2) (base + off) i = mem_read (dm_mem s) src i \<and> mem_read (dm_mem ?s3) dst i = mem_read (dm_mem s) src i" if "i < unat n" for i
  proof -
    have "unat (word_of_nat i :: u64) = i" using that n64 by (intro unat_word_of_nat_less) simp
    then show ?thesis using that reg(2) by (simp add: mem_read_def mem_write_def)
  qed
  moreover have "unat (x - base) < unat len" if "dm_mem ?s2 x \<noteq> dm_mem s1 x" for x
  proof -
    have w: "unat (x - (base + off)) < unat n" using that by (auto simp: mem_write_def split: if_splits)
    have "unat len < 2 ^ 64" using unsigned_less [of len] by simp
    then have "unat ((x - (base + off)) + off) = unat (x - (base + off)) + unat off"
      using w assms(3) unfolding unat_word_ariths(1) by simp
    moreover have "(x - (base + off)) + off = x - base" by simp
    ultimately have "unat (x - base) = unat (x - (base + off)) + unat off" by metis
    then show ?thesis using w assms(3) by simp
  qed
  ultimately show ?thesis using reg(1) put get by (intro exI [of _ ?rid] exI [of _ s1] exI [of _ ?s2] exI [of _ ?s3]) (simp add: Let_def)
qed

definition fresh_dmem :: "u16 \<Rightarrow> dmem" where
  "fresh_dmem n = projr (new_dmem example_setup (\<lambda>a. ucast a) n)"

lemma fresh_dmem_facts: "next_region_id (fresh_dmem n) = 1" "dm_node_id (fresh_dmem n) = n" "dm_mem (fresh_dmem n) = (\<lambda>a. ucast a)"
  "new_dmem example_setup (\<lambda>a. ucast a) n = Inr (fresh_dmem n)"
  by (simp_all add: fresh_dmem_def new_dmem_def example_setup_def buf_allocate_def buf_cleanup_def register_with_def empty_buffer_def
      CATALOG_BUF_SIZE_def MAX_REGIONS_PER_NODE_def RDE_WIRE_SIZE_def kRdmaBufSize_def Let_def)

theorem local_put_get_witness:
  "\<exists>rid s1 s2 s3. register_region (Some (7, 8)) 0x1000 64 3 (fresh_dmem 2) = (Inr rid, s1) \<and>
     dmem_put prompt_env 2 \<lparr>ga_node_id = 2, ga_region_id = rid, ga_offset = 16\<rparr> 0x2030 8 s1 = (Inr 0, s2) \<and>
     dmem_get prompt_env 2 \<lparr>ga_node_id = 2, ga_region_id = rid, ga_offset = 16\<rparr> 0x3000 8 s2 = (Inr 0, s3) \<and>
     mem_read (dm_mem s3) 0x3000 5 = 0x35"
proof -
  obtain rid s1 s2 s3 where r: "register_region (Some (7, 8)) 0x1000 64 3 (fresh_dmem 2) = (Inr rid, s1)"
    "let addr = \<lparr>ga_node_id = dm_node_id (fresh_dmem 2), ga_region_id = rid, ga_offset = 16\<rparr> in
      dmem_put prompt_env (dm_node_id (fresh_dmem 2)) addr 0x2030 8 s1 = (Inr 0, s2) \<and> dmem_get prompt_env 2 addr 0x3000 8 s2 = (Inr 0, s3)"
    "\<forall>i < unat (8 :: u64). mem_read (dm_mem s3) 0x3000 i = mem_read (dm_mem (fresh_dmem 2)) 0x2030 i"
    using local_put_get [of "0x1000" "fresh_dmem 2" 16 8 64 7 8 3 prompt_env "0x2030" 2 "0x3000"] fresh_dmem_facts(1) by auto
  have "mem_read (dm_mem (fresh_dmem 2)) 0x2030 5 = 0x35" by (simp add: fresh_dmem_facts mem_read_def)
  moreover have "mem_read (dm_mem s3) 0x3000 5 = mem_read (dm_mem (fresh_dmem 2)) 0x2030 5" using r(3) by simp
  ultimately show ?thesis using r(1,2) fresh_dmem_facts(2) [of 2] by (metis (no_types, lifting))
qed

text \<open>
  A region registered on another node than node 0 is published under node 0: an address of node 0 with the same region number then resolves, on that node, to the
  node's own buffer, as if it were remote memory of node 0.
\<close>

theorem own_region_shadows_node0:
  assumes "register_region (Some (rkey, lkey)) base len flags s = (Inr rid, s')" and "dm_node_id s \<noteq> 0" and "off < len"
  shows "resolve \<lparr>ga_node_id = 0, ga_region_id = rid, ga_offset = off\<rparr> s' =
     no_resolution\<lparr>remote_addr := base + off, remote_rkey := rkey, res_length := len - off\<rparr>"
proof -
  have "dm_node_id s' = dm_node_id s" "catalog_lookup (dm_catalog s') 0 rid = Some \<lparr>rde_local_addr = base, rde_length = len, rde_rkey = rkey, rde_flags = ucast flags, rde_epoch = 1\<rparr>"
    using assms(1) by (auto simp: register_region_def Let_def lookup_upsert split: if_splits)
  then show ?thesis using assms(2,3) by (subst resolve_remote) auto
qed

theorem own_region_shadows_node0_witness:
  "\<exists>rid s'. register_region (Some (7, 8)) 0x1000 64 3 (fresh_dmem 2) = (Inr rid, s') \<and>
     remote_addr (resolve \<lparr>ga_node_id = 0, ga_region_id = rid, ga_offset = 16\<rparr> s') = 0x1010"
proof -
  obtain rid s' where r: "register_region (Some (7, 8)) 0x1000 64 3 (fresh_dmem 2) = (Inr rid, s')"
    using register_success [of "0x1000" 64 "fresh_dmem 2" 7 8 3] fresh_dmem_facts(1) by auto
  from own_region_shadows_node0 [OF r, of 16] r show ?thesis using fresh_dmem_facts(2) by simp
qed

section \<open>Completions and destruction\<close>

text \<open>
  The poller and \<open>poll_completion\<close> take completions from the same queue, and each discards what the other is waiting for: a completion
  that the poller took is not seen by the waiting thread, which then times out.
\<close>

lemma poller_steals_completion:
  assumes "distinct (map wc_wr_id queue)" and "wc \<in> set (take kCqPollBatch queue)" and "\<forall>b \<in> set batches. set b \<subseteq> set (drop kCqPollBatch queue)"
  shows "\<not> poll_completion (wc_wr_id wc) (map Batch batches)"
proof -
  have "set (map wc_wr_id (take kCqPollBatch queue)) \<inter> set (map wc_wr_id (drop kCqPollBatch queue)) = {}"
    using assms(1) by (metis append_take_drop_id distinct_append map_append)
  then have "\<forall>b \<in> set batches. find (\<lambda>v. wc_wr_id v = wc_wr_id wc) b = None"
    using assms(2,3) by (auto simp: find_None_iff)
  then show ?thesis by (induction batches) auto
qed

lemma poll_completion_finds:
  "\<forall>b \<in> set bs. find (\<lambda>v. wc_wr_id v = w) b = None \<Longrightarrow> find (\<lambda>v. wc_wr_id v = w) b = Some wc \<Longrightarrow>
     poll_completion w (map Batch bs @ Batch b # rest) = wc_success wc"
  by (induction bs) auto

text \<open>With request numbers in order, draining waits for the last and empties the list; a failed wait leaves it as it is.\<close>

lemma drain_pending_sorted:
  assumes "sorted ops" and "\<forall>w \<in> set ops. w \<noteq> 0"
  shows "drain_pending (True # oks) ops = []" and "ops \<noteq> [] \<Longrightarrow> drain_pending (False # oks) ops = ops"
proof -
  have "\<forall>v \<in> set ops. v \<le> last ops" using assms(1)
    by (induction ops) auto
  then have d: "dropWhile (\<lambda>v. v \<le> last ops) ops = []" by simp
  have "drain_pending (True # oks) ops = drain_pending oks (dropWhile (\<lambda>v. v \<le> last ops) ops)" if "ops \<noteq> []"
    using that assms(2) by (cases ops) (auto simp: Let_def)
  then show "drain_pending (True # oks) ops = []" unfolding d by (cases "ops = []") simp_all
  show "ops \<noteq> [] \<Longrightarrow> drain_pending (False # oks) ops = ops" by (cases ops) (auto simp: Let_def)
qed

lemma registrations_step:
  assumes "dmem_step env s s'" and "no_peers s"
  shows "staging_mr s' = staging_mr s \<and> staging_buf s' = staging_buf s \<and> catalog_mr s' = catalog_mr s \<and> catalog_buf s' = catalog_buf s"
  using assms
proof (cases rule: dmem_step.cases)
  case (put_step target addr src len)
  then show ?thesis using peer_conn_none [OF assms(2), of target] by (auto simp: dmem_put_def put_chunked_def Let_def)
next
  case (get_step target addr dst len)
  then show ?thesis using peer_conn_none [OF assms(2), of target] by (auto simp: dmem_get_def get_chunked_def Let_def)
next
  case (imm_step target addr src len imm)
  then show ?thesis using imm_fence_no_peers(1) [OF assms(2)] by simp
next
  case (fence_step target)
  then show ?thesis using imm_fence_no_peers(2) [OF assms(2)] by simp
qed (auto simp: register_region_def unregister_region_def poller_iteration_def dmem_start_def dmem_shutdown_def Let_def
    split: poll_result.split option.split)

lemma new_dmem_registrations:
  assumes "new_dmem su m n = Inr s"
  shows "registrations (staging_buf s) = [the (staging_mr s)] \<and> registrations (catalog_buf s) = [the (catalog_mr s)] \<and>
     staging_mr s = su_staging_mr su \<and> catalog_mr s = su_catalog_mr su \<and> staging_mr s \<noteq> None \<and> catalog_mr s \<noteq> None"
  using assms
  by (auto simp: new_dmem_def buf_allocate_def buf_cleanup_def register_with_def empty_buffer_def Let_def split: if_splits option.splits)

text \<open>
  The destructor gives both memory registrations back twice, once directly and once through the buffer that recorded
  them, in every state the manager can reach (the two registrations being different).
\<close>

theorem destructor_deregisters_twice:
  assumes "new_dmem su m n = Inr s0" and "(dmem_step env)\<^sup>*\<^sup>* s0 s" and "su_staging_mr su \<noteq> su_catalog_mr su"
  shows "count_list (dmem_destroy s) (DeregMr (the (staging_mr s))) = 2 \<and> count_list (dmem_destroy s) (DeregMr (the (catalog_mr s))) = 2"
proof -
  have "staging_mr s = staging_mr s0 \<and> staging_buf s = staging_buf s0 \<and> catalog_mr s = catalog_mr s0 \<and> catalog_buf s = catalog_buf s0"
    using assms(2)
  proof (induction rule: rtranclp_induct)
    case (step s s')
    then show ?case using registrations_step reachable_no_peers [OF assms(1)] by metis
  qed simp
  moreover have "su_staging_mr su \<noteq> None" "su_catalog_mr su \<noteq> None" using new_dmem_registrations [OF assms(1)] by metis+
  then obtain a b where "su_staging_mr su = Some a" "su_catalog_mr su = Some b" by blast
  moreover from this have "a \<noteq> b" using assms(3) by simp
  ultimately show ?thesis
    using new_dmem_registrations [OF assms(1)] by (auto simp: dmem_destroy_def give_back_def buf_cleanup_def)
qed

theorem destructor_deregisters_twice_witness: "count_list (dmem_destroy (fresh_dmem 0)) (DeregMr 12) = 2"
proof -
  have "su_staging_mr example_setup \<noteq> su_catalog_mr example_setup" by (simp add: example_setup_def)
  from destructor_deregisters_twice [OF fresh_dmem_facts(4) rtranclp.rtrancl_refl this, of 0]
    new_dmem_registrations [OF fresh_dmem_facts(4), of 0] show ?thesis by (simp add: example_setup_def)
qed

end
