(* ===== verification/Tensor_Transfer.thy ===== *)
theory Tensor_Transfer
  imports Metal_Runtime Dmem_Properties
begin

text \<open>
  The asynchronous interface of the head's runtime (\<open>csrc/runtime/DistributedMetalRuntime.cpp\<close>): \<open>transfer_tensor\<close> on the memory manager of \<open>Dmem\<close>, with the future that its
  detached thread completes, and \<open>dispatch_data_parallel_async\<close>.
\<close>

datatype future_state = FutureValue | FutureException string

text \<open>
  \<open>polls\<close> are the results of polling the completion queue until the deadline of \<open>poll_completion\<close>. The destination, node and address, is not used by the code; the local buffer
  it passes is the null pointer, so copying from a local region is undefined unless the length is 0.
\<close>

definition transfer_tensor_future ::
    "dmem_env \<Rightarrow> poll_result list \<Rightarrow> GlobalAddress \<Rightarrow> u16 \<Rightarrow> GlobalAddress \<Rightarrow> u64 \<Rightarrow> dmem \<Rightarrow> (failure, dmem, future_state) res" where
  "transfer_tensor_future env polls src dst_node dst len s =
     (if is_local (resolve src s) \<and> len \<le> res_length (resolve src s) \<and> 0 < len then (Inl Undefined, s)
      else case dmem_get env (ga_node_id src) src 0 len s of
        (Inl e, s1) \<Rightarrow> (Inl e, s1)
      | (Inr w, s1) \<Rightarrow> (Inr (if poll_completion w polls then FutureValue else FutureException ''RDMA transfer failed''), s1))"

definition dispatch_data_parallel_async :: "ShaderDispatch \<Rightarrow> future_state list" where
  "dispatch_data_parallel_async d = []"

text \<open>The result does not depend on the destination: where the caller wants the tensor is ignored.\<close>

lemma transfer_ignores_destination:
  "transfer_tensor_future env polls src n1 d1 len s = transfer_tensor_future env polls src n2 d2 len s"
  by (simp add: transfer_tensor_future_def)

lemma poll_completion_absent:
  "\<forall>wcs. Batch wcs \<in> set polls \<longrightarrow> (\<forall>wc \<in> set wcs. wc_wr_id wc \<noteq> w) \<Longrightarrow> \<not> poll_completion w polls"
proof (induction w polls rule: poll_completion.induct)
  case (3 w wcs ps)
  then have "find (\<lambda>wc. wc_wr_id wc = w) wcs = None" by (auto simp: find_None_iff)
  with 3 show ?case by simp
qed auto

text \<open>
  \<open>transfer_tensor\<close> never completes: in every state the memory manager can reach, a transfer from another node raises (there is no connection), a transfer from the own
  node copies to the null pointer, and an empty one gives a future that is set to an exception, since it has request number 0, which no completion carries.
\<close>

theorem transfer_never_completes:
  assumes "new_dmem su m n = Inr s0" and "(dmem_step env)\<^sup>*\<^sup>* s0 s"
    and "\<And>wcs wc. Batch wcs \<in> set polls \<Longrightarrow> wc \<in> set wcs \<Longrightarrow> wc_wr_id wc \<noteq> 0"
  shows "fst (transfer_tensor_future env polls src dst_node dst len s) \<noteq> Inr FutureValue"
proof (cases "is_local (resolve src s)")
  case True
  have "\<not> poll_completion 0 polls" using assms(3) by (intro poll_completion_absent) blast
  with True show ?thesis by (simp add: transfer_tensor_future_def dmem_get_def Let_def)
next
  case False
  have "no_peers s" using reachable_no_peers [OF assms(1, 2)] by simp
  from get_no_peers(1) [OF this] False
  have "fst (dmem_get env (ga_node_id src) src 0 len s) \<noteq> Inr w" for w by blast
  then obtain e s1 where "dmem_get env (ga_node_id src) src 0 len s = (Inl e, s1)"
    by (metis prod.exhaust_sel sum.exhaust_sel)
  then show ?thesis by (simp add: transfer_tensor_future_def)
qed

theorem transfer_never_completes_witness:
  "fst (transfer_tensor_future prompt_env [Batch []] example_addr 1 example_addr 64 (projr (new_dmem example_setup (\<lambda>_. 0) 1))) \<noteq> Inr FutureValue"
proof -
  have "new_dmem example_setup (\<lambda>_. 0) 1 = Inr (projr (new_dmem example_setup (\<lambda>_. 0) 1))"
    by (simp add: new_dmem_def example_setup_def buf_allocate_def buf_cleanup_def register_with_def empty_buffer_def
      CATALOG_BUF_SIZE_def MAX_REGIONS_PER_NODE_def RDE_WIRE_SIZE_def kRdmaBufSize_def Let_def)
  from transfer_never_completes [OF this rtranclp.rtrancl_refl, of "[Batch []]"] show ?thesis by simp
qed

end
