(* ===== verification/Metrics.thy ===== *)
theory Metrics
  imports Double Prelude "HOL-Library.Mapping"
begin

text \<open>
  The metrics collector: \<open>csrc/runtime/Metrics.hpp\<close> and \<open>Metrics.cpp\<close>. Time points are nanoseconds of the steady
  clock, which never goes back (0 is the default time point); the double precision numbers are rationals rounded after every
  operation. Every method holds the mutex, so each is one atomic operation; the clock is an argument.
\<close>

section \<open>Measurements of one operation\<close>

record OpMetric =
  om_seq :: u32
  op_name :: string
  om_bytes :: u64
  om_start :: nat
  om_execute_start :: nat
  om_end :: nat
  sync_ms :: rat
  network_ms :: rat
  reduce_ms :: rat

definition dbl :: "nat \<Rightarrow> rat" where "dbl n = round53 (of_nat n)"

definition millis :: "nat \<Rightarrow> rat" where "millis ns = round53 (dbl ns / 10 ^ 6)"

definition elapsed_ms :: "OpMetric \<Rightarrow> rat" where
  "elapsed_ms m = millis (om_end m - om_start m)"

definition queue_wait_ms :: "OpMetric \<Rightarrow> rat" where
  "queue_wait_ms m = (if om_execute_start m = 0 then 0 else millis (om_execute_start m - om_start m))"

definition execution_ms :: "OpMetric \<Rightarrow> rat" where
  "execution_ms m = (if om_execute_start m = 0 then elapsed_ms m else millis (om_end m - om_execute_start m))"

definition throughput_gbps :: "OpMetric \<Rightarrow> rat" where
  "throughput_gbps m =
     (let elapsed_s = round53 (dbl (om_end m - om_start m) / 10 ^ 9) in
      if elapsed_s \<le> 0 then 0
      else round53 (round53 (dbl (unat (om_bytes m)) * 8) / round53 (elapsed_s * 10 ^ 9)))"

section \<open>The collector\<close>

record metrics =
  inflight :: "(u32, OpMetric) mapping"
  completed_ops :: "OpMetric list"
  total_bytes_sent :: u64
  total_bytes_recv :: u64
  total_errors :: u64

definition max_history :: nat where "max_history = 10000"

definition new_metrics :: metrics where
  "new_metrics = \<lparr>inflight = Mapping.empty, completed_ops = [], total_bytes_sent = 0, total_bytes_recv = 0, total_errors = 0\<rparr>"

definition op_start :: "nat \<Rightarrow> u32 \<Rightarrow> string \<Rightarrow> u64 \<Rightarrow> metrics \<Rightarrow> metrics" where
  "op_start now seq name bytes s =
     s\<lparr>inflight := Mapping.update seq \<lparr>om_seq = seq, op_name = name, om_bytes = bytes, om_start = now, om_execute_start = 0,
        om_end = 0, sync_ms = 0, network_ms = 0, reduce_ms = 0\<rparr> (inflight s)\<rparr>"

definition op_execute_start :: "nat \<Rightarrow> u32 \<Rightarrow> metrics \<Rightarrow> metrics" where
  "op_execute_start now seq s =
     (case Mapping.lookup (inflight s) seq of
        None \<Rightarrow> s
      | Some m \<Rightarrow> s\<lparr>inflight := Mapping.update seq (m\<lparr>om_execute_start := now\<rparr>) (inflight s)\<rparr>)"

definition op_end :: "nat \<Rightarrow> u32 \<Rightarrow> metrics \<Rightarrow> metrics" where
  "op_end now seq s =
     (case Mapping.lookup (inflight s) seq of
        None \<Rightarrow> s
      | Some m \<Rightarrow>
          let done = completed_ops s @ [m\<lparr>om_end := now\<rparr>] in
          s\<lparr>completed_ops := (if max_history < length done then drop (length done - max_history) done else done),
            inflight := Mapping.delete seq (inflight s)\<rparr>)"

definition record_phase :: "u32 \<Rightarrow> rat \<Rightarrow> rat \<Rightarrow> rat \<Rightarrow> metrics \<Rightarrow> metrics" where
  "record_phase seq sync net red s =
     (case Mapping.lookup (inflight s) seq of
        None \<Rightarrow> s
      | Some m \<Rightarrow> s\<lparr>inflight := Mapping.update seq (m\<lparr>sync_ms := round53 (sync_ms m + sync),
           network_ms := round53 (network_ms m + net), reduce_ms := round53 (reduce_ms m + red)\<rparr>) (inflight s)\<rparr>)"

definition record_transport_bytes :: "u64 \<Rightarrow> bool \<Rightarrow> metrics \<Rightarrow> metrics" where
  "record_transport_bytes bytes is_send s =
     (if is_send then s\<lparr>total_bytes_sent := total_bytes_sent s + bytes\<rparr> else s\<lparr>total_bytes_recv := total_bytes_recv s + bytes\<rparr>)"

definition record_error :: "metrics \<Rightarrow> metrics" where
  "record_error s = s\<lparr>total_errors := total_errors s + 1\<rparr>"

definition reset :: "metrics \<Rightarrow> metrics" where
  "reset s = s\<lparr>inflight := Mapping.empty, completed_ops := [], total_bytes_sent := 0, total_bytes_recv := 0, total_errors := 0\<rparr>"

definition recent_ops :: "nat \<Rightarrow> metrics \<Rightarrow> OpMetric list" where
  "recent_ops n s = (if length (completed_ops s) \<le> n then completed_ops s else drop (length (completed_ops s) - n) (completed_ops s))"

section \<open>Summaries\<close>

record Summary =
  total_ops :: u64
  sum_bytes_sent :: u64
  sum_bytes_recv :: u64
  sum_errors :: u64
  avg_latency_ms :: rat
  p50_latency_ms :: rat
  p99_latency_ms :: rat
  peak_throughput_gbps :: rat
  avg_sync_ms :: rat
  avg_network_ms :: rat
  avg_reduce_ms :: rat
  avg_queue_wait_ms :: rat
  avg_execution_ms :: rat

definition dsum :: "rat list \<Rightarrow> rat" where "dsum xs = foldl (\<lambda>a x. round53 (a + x)) 0 xs"

definition mean :: "rat list \<Rightarrow> rat" where "mean xs = round53 (dsum xs / dbl (length xs))"

definition p99_index :: "nat \<Rightarrow> nat" where
  "p99_index n = min (n - 1) (nat \<lfloor>round53 (dbl n * round53 (99 / 100))\<rfloor>)"

definition summarize :: "metrics \<Rightarrow> Summary" where
  "summarize s =
     (let base = \<lparr>total_ops = word_of_nat (length (completed_ops s)), sum_bytes_sent = total_bytes_sent s, sum_bytes_recv = total_bytes_recv s,
            sum_errors = total_errors s, avg_latency_ms = 0, p50_latency_ms = 0, p99_latency_ms = 0, peak_throughput_gbps = 0,
            avg_sync_ms = 0, avg_network_ms = 0, avg_reduce_ms = 0, avg_queue_wait_ms = 0, avg_execution_ms = 0\<rparr>;
          latencies = sort (map elapsed_ms (completed_ops s));
          n = length latencies
      in if completed_ops s = [] then base
         else base\<lparr>avg_latency_ms := mean latencies,
                   p50_latency_ms := latencies ! (n div 2),
                   p99_latency_ms := latencies ! p99_index n,
                   peak_throughput_gbps := foldl (\<lambda>p m. if p < throughput_gbps m then throughput_gbps m else p) 0 (completed_ops s),
                   avg_sync_ms := mean (map sync_ms (completed_ops s)),
                   avg_network_ms := mean (map network_ms (completed_ops s)),
                   avg_reduce_ms := mean (map reduce_ms (completed_ops s)),
                   avg_queue_wait_ms := mean (map queue_wait_ms (completed_ops s)),
                   avg_execution_ms := mean (map execution_ms (completed_ops s))\<rparr>)"

section \<open>The history is the recent part of an unbounded log\<close>

datatype metrics_event =
    Started nat u32 string u64 | Executing nat u32 | Ended nat u32 | Phase u32 rat rat rat
  | Transported u64 bool | Failed_transport | Reset_all

fun apply_event :: "metrics_event \<Rightarrow> metrics \<Rightarrow> metrics" where
  "apply_event (Started now seq name bytes) = op_start now seq name bytes"
| "apply_event (Executing now seq) = op_execute_start now seq"
| "apply_event (Ended now seq) = op_end now seq"
| "apply_event (Phase seq a b c) = record_phase seq a b c"
| "apply_event (Transported n d) = record_transport_bytes n d"
| "apply_event Failed_transport = record_error"
| "apply_event Reset_all = reset"

text \<open>The specification keeps every completed operation.\<close>

fun spec_event :: "metrics_event \<Rightarrow> metrics \<Rightarrow> metrics" where
  "spec_event (Ended now seq) s =
     (case Mapping.lookup (inflight s) seq of
        None \<Rightarrow> s
      | Some m \<Rightarrow> s\<lparr>completed_ops := completed_ops s @ [m\<lparr>om_end := now\<rparr>], inflight := Mapping.delete seq (inflight s)\<rparr>)"
| "spec_event e s = apply_event e s"

definition last_n :: "nat \<Rightarrow> 'a list \<Rightarrow> 'a list" where
  "last_n n xs = drop (length xs - n) xs"

definition forget :: "metrics \<Rightarrow> metrics" where
  "forget s = s\<lparr>completed_ops := last_n max_history (completed_ops s)\<rparr>"

lemma last_n_append1: "0 < n \<Longrightarrow> last_n n (last_n n xs @ [x]) = last_n n (xs @ [x])"
  by (cases "length xs \<le> n") (auto simp: last_n_def Suc_diff_le)

lemma trim_last_n: "(if n < length xs then drop (length xs - n) xs else xs) = last_n n xs"
  by (simp add: last_n_def)

lemma forget_event: "apply_event e (forget s) = forget (spec_event e s)"
proof (cases e)
  case (Ended now seq)
  have "0 < max_history" by (simp add: max_history_def)
  then show ?thesis using Ended
    by (simp add: forget_def op_end_def Let_def trim_last_n last_n_append1 split: option.split)
qed (auto simp: forget_def op_start_def op_execute_start_def record_phase_def record_transport_bytes_def record_error_def reset_def
    last_n_def split: option.split)

lemma forget_run: "fold apply_event es (forget s) = forget (fold spec_event es s)"
  by (induction es arbitrary: s) (simp_all add: forget_event)

text \<open>
  The collector refines the unbounded log: after any sequence of calls its state is that of a collector that keeps every
  completed operation, with all but the last 10000 of them forgotten; in particular the tables of operations in flight and the
  counters agree, and the history never exceeds its bound.
\<close>

theorem history_refines_log:
  "fold apply_event es new_metrics = forget (fold spec_event es new_metrics) \<and>
   length (completed_ops (fold apply_event es new_metrics)) \<le> max_history"
proof -
  have "forget new_metrics = new_metrics" by (simp add: forget_def new_metrics_def last_n_def)
  then have run: "fold apply_event es new_metrics = forget (fold spec_event es new_metrics)"
    using forget_run [of es new_metrics] by simp
  show ?thesis unfolding run by (simp add: forget_def last_n_def)
qed

section \<open>Percentiles\<close>

lemma double_99: "round53 (99 / 100) = 4458563631096791 / 4503599627370496"
  by code_simp

lemma p99_index_bounds:
  assumes "0 < n" and "n \<le> max_history"
  shows "p99_index n < n" and "n div 2 \<le> p99_index n" and "100 * (n - 1 - p99_index n) \<le> n"
proof -
  let ?r = "round53 (dbl n * round53 (99 / 100))"
  have n: "n \<le> 10000" using assms(2) by (simp add: max_history_def)
  then have d: "dbl n = of_nat n" by (simp add: dbl_def round53_of_nat)
  define k where "k = (99 * n - 1) div 100"
  have "100 * k \<le> 99 * n - 1" by (simp add: k_def)
  then have "100 * k + 1 \<le> 99 * n" using assms(1) by linarith
  then have "(of_nat (100 * k + 1) :: rat) \<le> of_nat (99 * n)" by (simp only: of_nat_le_iff)
  then have "(100 * of_nat k + 1 :: rat) \<le> 99 * of_nat n" by simp
  moreover have "(of_nat n :: rat) \<le> of_nat 10000" using n by (simp only: of_nat_le_iff)
  ultimately have "(of_nat k :: rat) \<le> of_nat n * (4458563631096791 / 4503599627370496)" by simp
  then have "round53 (of_nat k) \<le> ?r" unfolding d double_99 by (rule round53_mono)
  moreover have "k < 2 ^ 53" using n unfolding k_def by simp
  ultimately have "of_nat k \<le> ?r" by (simp add: round53_of_nat)
  then have "int k \<le> \<lfloor>?r\<rfloor>" by (simp add: le_floor_iff)
  then have "k \<le> nat \<lfloor>?r\<rfloor>" by linarith
  then have i: "min (n - 1) k \<le> p99_index n" by (simp add: p99_index_def)
  show "p99_index n < n" using assms(1) by (simp add: p99_index_def)
  show "n div 2 \<le> p99_index n" using i assms(1) unfolding k_def by simp
  show "100 * (n - 1 - p99_index n) \<le> n" using i assms(1) unfolding k_def by simp
qed

lemma sorted_above_nth:
  fixes xs :: "rat list"
  assumes "sorted xs" and "i < length xs"
  shows "length (filter (\<lambda>x. xs ! i < x) xs) \<le> length xs - 1 - i" and "Suc i \<le> length (filter (\<lambda>x. x \<le> xs ! i) xs)"
proof -
  have split: "filter P xs = filter P (take (Suc i) xs) @ filter P (drop (Suc i) xs)" for P by (metis append_take_drop_id filter_append)
  have low: "x \<le> xs ! i" if "x \<in> set (take (Suc i) xs)" for x
  proof -
    obtain j where "j < Suc i" "x = xs ! j" using \<open>x \<in> _\<close> assms(2) by (auto simp: in_set_conv_nth)
    then show ?thesis using assms by (auto intro: sorted_nth_mono)
  qed
  have "filter (\<lambda>x. xs ! i < x) (take (Suc i) xs) = []" using low by (auto simp: filter_empty_conv not_less)
  then have "length (filter (\<lambda>x. xs ! i < x) xs) \<le> length (drop (Suc i) xs)"
    unfolding split [of "\<lambda>x. xs ! i < x"] by (metis append_Nil length_filter_le)
  then show "length (filter (\<lambda>x. xs ! i < x) xs) \<le> length xs - 1 - i" by simp
  have "filter (\<lambda>x. x \<le> xs ! i) (take (Suc i) xs) = take (Suc i) xs" using low by (auto simp: filter_id_conv)
  then have "length (take (Suc i) xs) \<le> length (filter (\<lambda>x. x \<le> xs ! i) xs)"
    unfolding split [of "\<lambda>x. x \<le> xs ! i"] by simp
  then show "Suc i \<le> length (filter (\<lambda>x. x \<le> xs ! i) xs)" using assms(2) by simp
qed

lemma length_filter_sort: "length (filter P (sort xs)) = length (filter P xs)"
  by (metis mset_filter mset_sort size_mset)

text \<open>
  The reported percentiles are percentiles: with at least one completed operation in a history within its bound, both are latencies of completed operations, the median
  does not exceed the 99th percentile, more than half of the operations took at most the median, and at most one operation in a hundred took longer than the 99th percentile.
\<close>

theorem summary_percentiles:
  assumes "completed_ops s \<noteq> []" and "length (completed_ops s) \<le> max_history"
  shows "let ls = map elapsed_ms (completed_ops s); r = summarize s in
     p50_latency_ms r \<in> set ls \<and> p99_latency_ms r \<in> set ls \<and> p50_latency_ms r \<le> p99_latency_ms r \<and>
     length ls < 2 * length (filter (\<lambda>l. l \<le> p50_latency_ms r) ls) \<and>
     100 * length (filter (\<lambda>l. p99_latency_ms r < l) ls) \<le> length ls"
proof -
  let ?ls = "map elapsed_ms (completed_ops s)"
  let ?n = "length ?ls" and ?xs = "sort ?ls"
  have n: "0 < ?n" "?n \<le> max_history" using assms by auto
  note idx = p99_index_bounds [OF n]
  have r: "p50_latency_ms (summarize s) = ?xs ! (?n div 2)" "p99_latency_ms (summarize s) = ?xs ! p99_index ?n"
    using assms(1) by (simp_all add: summarize_def Let_def)
  have i: "?n div 2 < length ?xs" "p99_index ?n < length ?xs" using n idx(1) by auto
  have "p50_latency_ms (summarize s) \<in> set ?ls" "p99_latency_ms (summarize s) \<in> set ?ls"
    unfolding r using nth_mem [OF i(1)] nth_mem [OF i(2)] by auto
  moreover have "p50_latency_ms (summarize s) \<le> p99_latency_ms (summarize s)"
    unfolding r using sorted_nth_mono [OF sorted_sort idx(2) i(2)] .
  moreover have "?n < 2 * length (filter (\<lambda>l. l \<le> p50_latency_ms (summarize s)) ?ls)"
    using sorted_above_nth(2) [OF sorted_sort i(1)] unfolding r length_filter_sort by linarith
  moreover have "100 * length (filter (\<lambda>l. p99_latency_ms (summarize s) < l) ?ls) \<le> ?n"
    using sorted_above_nth(1) [OF sorted_sort i(2)] idx(3) unfolding r length_filter_sort length_sort by linarith
  ultimately show ?thesis unfolding Let_def by blast
qed

definition two_ops :: metrics where
  "two_ops = fold apply_event [Started 1 1 ''allreduce'' 64, Started 2 2 ''allreduce'' 64, Ended 1000001 1, Ended 3000002 2] new_metrics"

theorem summary_percentiles_witness:
  "p50_latency_ms (summarize two_ops) \<in> elapsed_ms ` set (completed_ops two_ops) \<and> length (completed_ops two_ops) = 2"
proof -
  have "length (completed_ops two_ops) = 2"
    by (simp add: two_ops_def new_metrics_def op_start_def op_end_def lookup_update lookup_delete lookup_update_neq lookup_delete_neq Let_def max_history_def)
  moreover from this have "completed_ops two_ops \<noteq> []" "length (completed_ops two_ops) \<le> max_history" by (auto simp: max_history_def)
  ultimately show ?thesis using summary_percentiles [of two_ops] by (simp add: Let_def)
qed

end
