(* ===== verification/Mps_Interop.thy ===== *)
theory Mps_Interop
  imports Errors
begin

text \<open>
  Access to tensor memory: \<open>csrc/metal/MPSInterop.mm\<close>. A tensor lives in a Metal buffer which the CPU can address (shared storage) or
  not (private storage); memory is an explicit store, since the staging functions hand out pointers into one reused pool. Which
  system and Metal calls succeed is an argument. Sizes are natural numbers; the C++ type has 64 bits.
\<close>

section \<open>Memory, buffers and tensors\<close>

text \<open>A buffer is CPU-addressable at an address, or known to the GPU only, by a handle.\<close>

datatype mtl_buffer = Shared nat | Private nat

record memory =
  cpu :: "nat \<Rightarrow> u8"
  gpu :: "nat \<Rightarrow> nat \<Rightarrow> u8"

fun buffer_read :: "memory \<Rightarrow> mtl_buffer \<Rightarrow> nat \<Rightarrow> nat \<Rightarrow> u8 list" where
  "buffer_read m (Shared a) off n = map (\<lambda>i. cpu m (a + off + i)) [0..<n]"
| "buffer_read m (Private h) off n = map (\<lambda>i. gpu m h (off + i)) [0..<n]"

definition write_bytes :: "(nat \<Rightarrow> u8) \<Rightarrow> nat \<Rightarrow> u8 list \<Rightarrow> nat \<Rightarrow> u8" where
  "write_bytes f a bs = (\<lambda>x. if a \<le> x \<and> x < a + length bs then bs ! (x - a) else f x)"

fun buffer_write :: "mtl_buffer \<Rightarrow> nat \<Rightarrow> u8 list \<Rightarrow> memory \<Rightarrow> memory" where
  "buffer_write (Shared a) off bs m = m\<lparr>cpu := write_bytes (cpu m) (a + off) bs\<rparr>"
| "buffer_write (Private h) off bs m = m\<lparr>gpu := (gpu m)(h := write_bytes (gpu m h) off bs)\<rparr>"

text \<open>What the functions read of an \<open>at::Tensor\<close>: its properties, its storage, and for a CPU tensor its data pointer.\<close>

record tensor =
  t_meta :: tensor_meta
  t_buffer :: "mtl_buffer option"
  t_storage_offset :: nat
  t_data :: nat

record MPSBufferView =
  mtl_buffer :: mtl_buffer
  byte_offset :: nat
  view_nbytes :: nat
  cpu_ptr :: "nat option"

record StagingBuffer =
  sb_data :: nat
  sb_nbytes :: nat

section \<open>The state and the calls of the platform\<close>

definition PAGE :: nat where "PAGE = 16384"

definition page_round :: "nat \<Rightarrow> nat" where
  "page_round n = (n + PAGE - 1) div PAGE * PAGE"

text \<open>The staging pool; \<open>pool_ptr = 0\<close> is the null pointer.\<close>

record interop =
  mem :: memory
  pool_ptr :: nat
  pool_capacity :: nat
  pool_wrapper :: bool

text \<open>
  Outcomes: the address that \<open>posix_memalign\<close> returns for a size, the device's limit on buffer lengths, whether memory at an address can
  be wrapped as a buffer, and whether the command that copies at an offset completes.
\<close>

record platform =
  memalign :: "nat \<Rightarrow> nat option"
  max_buffer_len :: nat
  wraps :: "nat \<Rightarrow> nat \<Rightarrow> bool"
  copies :: "nat \<Rightarrow> bool"

definition raise :: "string \<Rightarrow> interop \<Rightarrow> (mccl_error, interop, 'a) res" where
  "raise msg s = (Inl (MCCLError msg), s)"

section \<open>The staging pool\<close>

definition ensure :: "platform \<Rightarrow> nat \<Rightarrow> interop \<Rightarrow> (mccl_error, interop, nat) res" where
  "ensure pf nbytes s =
     (if nbytes \<le> pool_capacity s then (Inr (pool_ptr s), s)
      else let cap = page_round nbytes;
               s1 = s\<lparr>pool_wrapper := False, pool_ptr := 0, pool_capacity := cap\<rparr> in
        case memalign pf cap of
          None \<Rightarrow> raise ''Staging buffer allocation failed'' s1
        | Some p \<Rightarrow>
            let s2 = s1\<lparr>pool_ptr := p\<rparr> in
            if cap \<le> max_buffer_len pf
            then if wraps pf p cap then (Inr p, s2\<lparr>pool_wrapper := True\<rparr>)
              else raise ''Staging MTLBuffer creation failed'' s2
            else (Inr p, s2))"

section \<open>Copies between buffers\<close>

definition copy_buffer :: "mtl_buffer \<Rightarrow> nat \<Rightarrow> mtl_buffer \<Rightarrow> nat \<Rightarrow> nat \<Rightarrow> interop \<Rightarrow> interop" where
  "copy_buffer src soff dst doff n s = s\<lparr>mem := buffer_write dst doff (buffer_read (mem s) src soff n) (mem s)\<rparr>"

text \<open>
  The loop over chunks of at most the device's limit, in the direction given by \<open>to\<close>; a limit of 0 would loop forever (\<^term>\<open>None\<close>). \<open>a\<close> is the CPU
  address and \<open>b\<close> with \<open>off\<close> the other side.
\<close>

function blit_chunks :: "platform \<Rightarrow> string \<Rightarrow> bool \<Rightarrow> mtl_buffer \<Rightarrow> nat \<Rightarrow> nat \<Rightarrow> nat \<Rightarrow> nat \<Rightarrow> interop \<Rightarrow> (mccl_error, interop, unit) res option" where
  "blit_chunks pf name to b off a nbytes offset s =
     (if offset < nbytes
      then if max_buffer_len pf = 0 then None
        else let chunk = min (max_buffer_len pf) (nbytes - offset) in
          if \<not> wraps pf (a + offset) (page_round chunk)
          then Some (raise (name @ '': MTLBuffer wrap failed at offset '' @ to_string offset @
            (if to then '' chunk='' @ to_string (page_round chunk) else [])) s)
          else if \<not> copies pf offset then Some (raise (name @ ''(chunk): Metal command buffer failed'') s)
          else blit_chunks pf name to b off a nbytes (offset + chunk)
            (if to then copy_buffer b (off + offset) (Shared (a + offset)) 0 chunk s
             else copy_buffer (Shared (a + offset)) 0 b (off + offset) chunk s)
      else Some (Inr (), s))"
  by pat_completeness auto
termination
  by (relation "measure (\<lambda>(pf, name, to, b, off, a, nbytes, offset, s). nbytes - offset)") auto

declare blit_chunks.simps [simp del]

definition chunked_blit_to_staging :: "platform \<Rightarrow> mtl_buffer \<Rightarrow> nat \<Rightarrow> nat \<Rightarrow> nat \<Rightarrow> interop \<Rightarrow> (mccl_error, interop, unit) res option" where
  "chunked_blit_to_staging pf src_buf src_offset dst nbytes s =
     (if pool_wrapper s \<and> nbytes \<le> pool_capacity s
      then Some (if \<not> copies pf 0 then raise ''chunked_blit_to_staging(fast): Metal command buffer failed'' s
                 else (Inr (), copy_buffer src_buf src_offset (Shared (pool_ptr s)) 0 nbytes s))
      else blit_chunks pf ''chunked_blit_to_staging'' True src_buf src_offset dst nbytes 0 s)"

definition chunked_blit_from_staging :: "platform \<Rightarrow> nat \<Rightarrow> nat \<Rightarrow> mtl_buffer \<Rightarrow> nat \<Rightarrow> interop \<Rightarrow> (mccl_error, interop, unit) res option" where
  "chunked_blit_from_staging pf src nbytes dst_buf dst_offset s =
     (if src = pool_ptr s \<and> pool_wrapper s \<and> nbytes \<le> pool_capacity s
      then Some (if \<not> copies pf 0 then raise ''chunked_blit_from_staging(fast): Metal command buffer failed'' s
                 else (Inr (), copy_buffer (Shared (pool_ptr s)) 0 dst_buf dst_offset nbytes s))
      else blit_chunks pf ''chunked_blit_from_staging'' False dst_buf dst_offset src nbytes 0 s)"

section \<open>Views\<close>

definition tensor_cpu_accessible :: "tensor \<Rightarrow> bool" where
  "tensor_cpu_accessible t = (case t_buffer t of Some (Shared a) \<Rightarrow> True | _ \<Rightarrow> False)"

definition wrap_cpu_tensor_as_mps_buffer :: "platform \<Rightarrow> tensor \<Rightarrow> mccl_error + MPSBufferView" where
  "wrap_cpu_tensor_as_mps_buffer pf t =
     (if device (t_meta t) \<noteq> CPU then Inl (MCCLError ''wrap_cpu_tensor_as_mps_buffer requires CPU tensor'')
      else if \<not> is_contiguous (t_meta t) then Inl (MCCLError ''CPU tensor must be contiguous'')
      else if \<not> wraps pf (t_data t) (tensor_nbytes (t_meta t)) then Inl (MCCLError ''Failed to wrap CPU tensor as MTLBuffer'')
      else Inr \<lparr>mtl_buffer = Shared (t_data t), byte_offset = 0, view_nbytes = tensor_nbytes (t_meta t),
                cpu_ptr = Some (t_data t)\<rparr>)"

definition extract_mps_buffer :: "platform \<Rightarrow> tensor \<Rightarrow> mccl_error + MPSBufferView" where
  "extract_mps_buffer pf t =
     (case check_single_tensor (t_meta t) of Inl e \<Rightarrow> Inl e | Inr _ \<Rightarrow>
      if device (t_meta t) = CPU then wrap_cpu_tensor_as_mps_buffer pf t
      else case t_buffer t of
        None \<Rightarrow> Inl (MCCLError ''getMTLBufferStorage returned nil'')
      | Some b \<Rightarrow>
          let off = t_storage_offset t * element_size (t_meta t) in
          Inr \<lparr>mtl_buffer = b, byte_offset = off, view_nbytes = tensor_nbytes (t_meta t),
               cpu_ptr = (case b of Shared a \<Rightarrow> Some (a + off) | Private h \<Rightarrow> None)\<rparr>)"

section \<open>Staging\<close>

text \<open>
  \<open>stage_for_send_nosync\<close>; \<open>stage_for_send\<close> is the same after waiting for the GPU. The result is \<^term>\<open>None\<close> only if the copy loops.
\<close>

definition stage_for_send_nosync :: "platform \<Rightarrow> tensor \<Rightarrow> interop \<Rightarrow> (mccl_error, interop, StagingBuffer) res option" where
  "stage_for_send_nosync pf t s =
     (case extract_mps_buffer pf t of
        Inl e \<Rightarrow> Some (Inl e, s)
      | Inr view \<Rightarrow>
          case cpu_ptr view of
            Some p \<Rightarrow> Some (Inr \<lparr>sb_data = p, sb_nbytes = view_nbytes view\<rparr>, s)
          | None \<Rightarrow>
             (case ensure pf (view_nbytes view) s of
                (Inl e, s1) \<Rightarrow> Some (Inl e, s1)
              | (Inr staging, s1) \<Rightarrow>
                 (case chunked_blit_to_staging pf (mtl_buffer view) (byte_offset view) staging (view_nbytes view) s1 of
                    None \<Rightarrow> None
                  | Some (Inl e, s2) \<Rightarrow> Some (Inl e, s2)
                  | Some (Inr _, s2) \<Rightarrow> Some (Inr \<lparr>sb_data = staging, sb_nbytes = view_nbytes view\<rparr>, s2))))"

definition memcpy :: "nat \<Rightarrow> nat \<Rightarrow> nat \<Rightarrow> interop \<Rightarrow> interop" where
  "memcpy dst src n s = copy_buffer (Shared src) 0 (Shared dst) 0 n s"

definition unstage_from_recv :: "platform \<Rightarrow> tensor \<Rightarrow> nat \<Rightarrow> nat \<Rightarrow> interop \<Rightarrow> (mccl_error, interop, unit) res option" where
  "unstage_from_recv pf t src nbytes s =
     (case check_single_tensor (t_meta t) of Inl e \<Rightarrow> Some (Inl e, s) | Inr _ \<Rightarrow>
      if nbytes \<noteq> tensor_nbytes (t_meta t) then Some (raise ''unstage size mismatch'' s)
      else case extract_mps_buffer pf t of
        Inl e \<Rightarrow> Some (Inl e, s)
      | Inr view \<Rightarrow>
          case cpu_ptr view of
            Some p \<Rightarrow> Some (Inr (), memcpy p src nbytes s)
          | None \<Rightarrow>
             if src = pool_ptr s then chunked_blit_from_staging pf src nbytes (mtl_buffer view) (byte_offset view) s
             else (case ensure pf nbytes s of
                (Inl e, s1) \<Rightarrow> Some (Inl e, s1)
              | (Inr staging, s1) \<Rightarrow>
                  chunked_blit_from_staging pf staging nbytes (mtl_buffer view) (byte_offset view) (memcpy staging src nbytes s1)))"

text \<open>
  \<open>ensure_shared_storage\<close>: the data pointer of the new CPU tensor when one is made. Its memory is allocated here, then filled by the copy function above. A tensor without a buffer is outside the model (\<^term>\<open>None\<close>).
\<close>

definition ensure_shared_storage :: "platform \<Rightarrow> tensor \<Rightarrow> interop \<Rightarrow> (mccl_error, interop, nat option) res option" where
  "ensure_shared_storage pf t s =
     (if device (t_meta t) = CPU \<or> tensor_cpu_accessible t then Some (Inr None, s)
      else let nbytes = tensor_numel (t_meta t) * element_size (t_meta t) in
        case memalign pf (page_round nbytes) of
          None \<Rightarrow> Some (raise (''ensure_shared_storage: posix_memalign failed for '' @ to_string (page_round nbytes) @ '' bytes'') s)
        | Some p \<Rightarrow>
            case t_buffer t of None \<Rightarrow> None
            | Some b \<Rightarrow>
               (case chunked_blit_to_staging pf b (t_storage_offset t * element_size (t_meta t)) p nbytes s of
                  None \<Rightarrow> None
                | Some (Inl e, s1) \<Rightarrow> Some (Inl e, s1)
                | Some (Inr _, s1) \<Rightarrow> Some (Inr (Some p), s1)))"

section \<open>Copies in chunks\<close>

text \<open>A platform whose calls succeed.\<close>

definition works :: "platform \<Rightarrow> bool" where
  "works pf \<longleftrightarrow> 0 < max_buffer_len pf \<and> (\<forall>a n. wraps pf a n) \<and> (\<forall>off. copies pf off) \<and> (\<forall>n. memalign pf n \<noteq> None)"

lemma write_bytes_append:
  "write_bytes (write_bytes f a xs) (a + length xs) ys = write_bytes f a (xs @ ys)"
  by (auto simp: write_bytes_def fun_eq_iff nth_append)

lemma write_bytes_read: "map (\<lambda>i. write_bytes f a bs (a + i)) [0..<length bs] = bs"
  by (auto simp: write_bytes_def intro: nth_equalityI)

lemma write_bytes_in [simp]: "i < length bs \<Longrightarrow> write_bytes f a bs (a + i) = bs ! i"
  by (simp add: write_bytes_def)

lemma write_bytes_disjoint: "x < a \<or> a + length bs \<le> x \<Longrightarrow> write_bytes f a bs x = f x"
  by (auto simp: write_bytes_def)

lemma map_upt_append: "map f [0..<k] @ map (\<lambda>i. f (k + i)) [0..<n] = map f [0..<k + n]" for k n :: nat
  by (rule nth_equalityI) (auto simp: nth_append)

text \<open>The copies that the staging functions use, between a private buffer and CPU memory, in two parts.\<close>

lemma copy_private_to_cpu_split:
  "copy_buffer (Private h) (off + k) (Shared (a + k)) 0 n (copy_buffer (Private h) off (Shared a) 0 k s) =
   copy_buffer (Private h) off (Shared a) 0 (k + n) s"
  using write_bytes_append [of "cpu (mem s)" a "map (\<lambda>i. gpu (mem s) h (off + i)) [0..<k]" "map (\<lambda>i. gpu (mem s) h (off + k + i)) [0..<n]"]
    map_upt_append [of "\<lambda>i. gpu (mem s) h (off + i)" k n]
  by (simp add: copy_buffer_def add.assoc)

lemma copy_cpu_to_private_split:
  "copy_buffer (Shared (a + k)) 0 (Private h) (off + k) n (copy_buffer (Shared a) 0 (Private h) off k s) =
   copy_buffer (Shared a) 0 (Private h) off (k + n) s"
  using write_bytes_append [of "gpu (mem s) h" off "map (\<lambda>i. cpu (mem s) (a + i)) [0..<k]" "map (\<lambda>i. cpu (mem s) (a + k + i)) [0..<n]"]
    map_upt_append [of "\<lambda>i. cpu (mem s) (a + i)" k n]
  by (simp add: copy_buffer_def add.assoc)

text \<open>However the device's limit cuts it up, the loop copies the whole range.\<close>

lemma blit_chunks_whole:
  assumes "works pf" and "offset \<le> nbytes"
  shows "blit_chunks pf name to (Private h) off a nbytes offset s =
     Some (Inr (), if to then copy_buffer (Private h) (off + offset) (Shared (a + offset)) 0 (nbytes - offset) s
                   else copy_buffer (Shared (a + offset)) 0 (Private h) (off + offset) (nbytes - offset) s)"
  using assms(2)
proof (induction "nbytes - offset" arbitrary: offset s rule: less_induct)
  case less
  show ?case
  proof (cases "offset < nbytes")
    case True
    define chunk where "chunk = min (max_buffer_len pf) (nbytes - offset)"
    have c: "0 < chunk" "offset + chunk \<le> nbytes" "chunk + (nbytes - (offset + chunk)) = nbytes - offset"
      using True assms(1) by (auto simp: chunk_def works_def)
    let ?s = "if to then copy_buffer (Private h) (off + offset) (Shared (a + offset)) 0 chunk s
              else copy_buffer (Shared (a + offset)) 0 (Private h) (off + offset) chunk s"
    have "blit_chunks pf name to (Private h) off a nbytes offset s = blit_chunks pf name to (Private h) off a nbytes (offset + chunk) ?s"
      using True assms(1) by (subst blit_chunks.simps) (simp add: works_def chunk_def Let_def)
    also have "\<dots> = Some (Inr (), if to then copy_buffer (Private h) (off + (offset + chunk)) (Shared (a + (offset + chunk))) 0 (nbytes - (offset + chunk)) ?s
                   else copy_buffer (Shared (a + (offset + chunk))) 0 (Private h) (off + (offset + chunk)) (nbytes - (offset + chunk)) ?s)"
      by (rule less) (use c True in auto)
    finally show ?thesis
      using copy_private_to_cpu_split [of h "off + offset" chunk "a + offset" "nbytes - (offset + chunk)" s]
        copy_cpu_to_private_split [of "a + offset" chunk h "off + offset" "nbytes - (offset + chunk)" s] c(3)
      by (simp add: add.assoc)
  next
    case False
    with less.prems have [simp]: "offset = nbytes" by simp
    have "write_bytes f x [] = f" for f x by (auto simp: write_bytes_def fun_eq_iff)
    then have "copy_buffer src soff dst doff 0 s = s" for src soff dst doff
      by (cases src; cases dst) (simp_all add: copy_buffer_def)
    then show ?thesis by (subst blit_chunks.simps) simp
  qed
qed

lemma blit_to_staging_ok:
  assumes "works pf"
  shows "chunked_blit_to_staging pf (Private h) off (pool_ptr s) n s = Some (Inr (), copy_buffer (Private h) off (Shared (pool_ptr s)) 0 n s)"
  using blit_chunks_whole [OF assms, of 0 n] assms by (simp add: chunked_blit_to_staging_def works_def)

lemma blit_from_staging_ok:
  assumes "works pf"
  shows "chunked_blit_from_staging pf a n (Private h) off s = Some (Inr (), copy_buffer (Shared a) 0 (Private h) off n s)"
  using blit_chunks_whole [OF assms, of 0 n] assms by (simp add: chunked_blit_from_staging_def works_def)

lemma page_round_ge: "n \<le> page_round n"
proof -
  have "n + PAGE - 1 = (n + PAGE - 1) div PAGE * PAGE + (n + PAGE - 1) mod PAGE"
    by (rule div_mult_mod_eq [symmetric])
  moreover have "(n + PAGE - 1) mod PAGE < PAGE" by (simp add: PAGE_def)
  ultimately show ?thesis unfolding page_round_def by linarith
qed

lemma ensure_ok:
  assumes "works pf"
  shows "\<exists>p s'. ensure pf n s = (Inr p, s') \<and> pool_ptr s' = p \<and> mem s' = mem s \<and> n \<le> pool_capacity s' \<and>
     (n \<le> pool_capacity s \<longrightarrow> s' = s) \<and> (\<not> n \<le> pool_capacity s \<longrightarrow> memalign pf (page_round n) = Some p)"
proof (cases "n \<le> pool_capacity s")
  case False
  obtain p where "memalign pf (page_round n) = Some p" using assms unfolding works_def by (metis not_None_eq)
  with False assms page_round_ge [of n] show ?thesis by (simp add: ensure_def works_def Let_def)
qed (simp add: ensure_def)

section \<open>Staging round trip\<close>

text \<open>An MPS tensor that passes the checks, in the given buffer, and the bytes it holds.\<close>

definition tensor_in :: "tensor \<Rightarrow> mtl_buffer \<Rightarrow> bool" where
  "tensor_in t b \<longleftrightarrow> check_single_tensor (t_meta t) = Inr () \<and> device (t_meta t) = MPS \<and> t_buffer t = Some b"

definition tensor_bytes :: "memory \<Rightarrow> tensor \<Rightarrow> u8 list" where
  "tensor_bytes m t = (case t_buffer t of None \<Rightarrow> []
     | Some b \<Rightarrow> buffer_read m b (t_storage_offset t * element_size (t_meta t)) (tensor_nbytes (t_meta t)))"

text \<open>Where the pool's memory is once it holds \<open>n\<close> bytes.\<close>

definition pool_for :: "platform \<Rightarrow> nat \<Rightarrow> interop \<Rightarrow> nat" where
  "pool_for pf n s = (if n \<le> pool_capacity s then pool_ptr s else the (memalign pf (page_round n)))"

lemma extract_mps:
  "tensor_in t b \<Longrightarrow> extract_mps_buffer pf t =
     Inr \<lparr>mtl_buffer = b, byte_offset = t_storage_offset t * element_size (t_meta t), view_nbytes = tensor_nbytes (t_meta t),
          cpu_ptr = (case b of Shared a \<Rightarrow> Some (a + t_storage_offset t * element_size (t_meta t)) | Private h \<Rightarrow> None)\<rparr>"
  by (simp add: tensor_in_def extract_mps_buffer_def Let_def)

lemma cpu_read_write: "map (\<lambda>i. write_bytes f a bs (a + i)) [0..<n] = bs" if "length bs = n"
  using write_bytes_read [of f a bs] that by simp

text \<open>What staging gives: a pointer at which the tensor's bytes stand; private tensors are copied to the pool.\<close>

lemma stage_shared:
  assumes "tensor_in t (Shared a)"
  shows "stage_for_send_nosync pf t s =
     Some (Inr \<lparr>sb_data = a + t_storage_offset t * element_size (t_meta t), sb_nbytes = tensor_nbytes (t_meta t)\<rparr>, s)"
  using extract_mps [OF assms] by (simp add: stage_for_send_nosync_def)

lemma stage_private:
  assumes "works pf" and "tensor_in t (Private h)" and "n = tensor_nbytes (t_meta t)"
  shows "\<exists>s1. stage_for_send_nosync pf t s = Some (Inr \<lparr>sb_data = pool_for pf n s, sb_nbytes = n\<rparr>, s1) \<and>
     pool_ptr s1 = pool_for pf n s \<and> n \<le> pool_capacity s1 \<and>
     mem s1 = buffer_write (Shared (pool_for pf n s)) 0 (tensor_bytes (mem s) t) (mem s) \<and>
     (n \<le> pool_capacity s \<longrightarrow> pool_capacity s1 = pool_capacity s)"
proof -
  obtain p s' where e: "ensure pf n s = (Inr p, s')" "pool_ptr s' = p" "mem s' = mem s" "n \<le> pool_capacity s'"
      "n \<le> pool_capacity s \<longrightarrow> s' = s" "\<not> n \<le> pool_capacity s \<longrightarrow> memalign pf (page_round n) = Some p"
    using ensure_ok [OF assms(1)] by metis
  then have p: "p = pool_for pf n s" by (auto simp: pool_for_def)
  have "tensor_bytes (mem s) t = buffer_read (mem s) (Private h) (t_storage_offset t * element_size (t_meta t)) n"
    using assms(2, 3) by (simp add: tensor_bytes_def tensor_in_def)
  then show ?thesis
    using e p extract_mps [OF assms(2), of pf] blit_to_staging_ok [OF assms(1), of h _ s'] assms(3)
    by (auto simp: stage_for_send_nosync_def copy_buffer_def)
qed

lemma unstage_shared:
  assumes "tensor_in u (Shared a)" and "n = tensor_nbytes (t_meta u)"
  shows "unstage_from_recv pf u src n s = Some (Inr (), memcpy (a + t_storage_offset u * element_size (t_meta u)) src n s)"
  using extract_mps [OF assms(1), of pf] assms by (simp add: unstage_from_recv_def tensor_in_def)

lemma unstage_private:
  assumes "works pf" and "tensor_in u (Private h)" and "n = tensor_nbytes (t_meta u)"
  shows "\<exists>s'. unstage_from_recv pf u src n s = Some (Inr (), s') \<and>
     tensor_bytes (mem s') u = map (\<lambda>i. cpu (mem s) (src + i)) [0..<n]"
proof -
  let ?off = "t_storage_offset u * element_size (t_meta u)"
  have tb: "tensor_bytes m u = map (\<lambda>i. gpu m h (?off + i)) [0..<n]" for m
    using assms(2, 3) by (simp add: tensor_bytes_def tensor_in_def)
  have check: "check_single_tensor (t_meta u) = Inr ()" using assms(2) by (simp add: tensor_in_def)
  show ?thesis
  proof (cases "src = pool_ptr s")
    case True
    then show ?thesis
      using check extract_mps [OF assms(2), of pf] blit_from_staging_ok [OF assms(1), of src n h ?off s] assms(3)
      by (simp add: unstage_from_recv_def copy_buffer_def tb cpu_read_write)
  next
    case False
    obtain p s' where e: "ensure pf n s = (Inr p, s')" "mem s' = mem s" using ensure_ok [OF assms(1)] by metis
    then show ?thesis
      using False check extract_mps [OF assms(2), of pf] blit_from_staging_ok [OF assms(1), of p n h ?off "memcpy p src n s'"] assms(3)
      by (simp add: unstage_from_recv_def copy_buffer_def memcpy_def tb cpu_read_write)
  qed
qed


section \<open>One pool for all tensors\<close>

text \<open>
  The loop by which \<open>reduce_scatter\<close> and \<open>alltoall\<close> (\<open>ProcessGroupMCCL.cpp\<close>) stage one tensor per peer before any of them is sent.
\<close>

fun stage_list :: "platform \<Rightarrow> tensor list \<Rightarrow> interop \<Rightarrow> (mccl_error, interop, StagingBuffer list) res option" where
  "stage_list pf [] s = Some (Inr [], s)"
| "stage_list pf (t # ts) s =
     (case stage_for_send_nosync pf t s of
        None \<Rightarrow> None
      | Some (Inl e, s1) \<Rightarrow> Some (Inl e, s1)
      | Some (Inr sb, s1) \<Rightarrow>
         (case stage_list pf ts s1 of
            None \<Rightarrow> None
          | Some (Inl e, s2) \<Rightarrow> Some (Inl e, s2)
          | Some (Inr sbs, s2) \<Rightarrow> Some (Inr (sb # sbs), s2)))"

definition staged_bytes :: "memory \<Rightarrow> StagingBuffer \<Rightarrow> u8 list" where
  "staged_bytes m sb = map (\<lambda>i. cpu m (sb_data sb + i)) [0..<sb_nbytes sb]"

lemma stage_list_shared:
  assumes "\<forall>t \<in> set ts. \<exists>a. tensor_in t (Shared a)"
  shows "\<exists>sbs. stage_list pf ts s = Some (Inr sbs, s) \<and> map (staged_bytes (mem s)) sbs = map (tensor_bytes (mem s)) ts"
  using assms
proof (induction ts)
  case (Cons t ts)
  then obtain a sbs where "tensor_in t (Shared a)" "stage_list pf ts s = Some (Inr sbs, s)"
      "map (staged_bytes (mem s)) sbs = map (tensor_bytes (mem s)) ts" by auto
  moreover have "staged_bytes (mem s) \<lparr>sb_data = a + t_storage_offset t * element_size (t_meta t), sb_nbytes = tensor_nbytes (t_meta t)\<rparr> =
      tensor_bytes (mem s) t"
    using \<open>tensor_in t (Shared a)\<close> by (simp add: staged_bytes_def tensor_bytes_def tensor_in_def)
  ultimately show ?case using stage_shared [of t a pf s] by auto
qed simp

lemma stage_list_private_gpu:
  assumes "works pf" and "\<forall>t \<in> set ts. (\<exists>h. tensor_in t (Private h)) \<and> tensor_nbytes (t_meta t) = n" and "n \<le> pool_capacity s"
  shows "\<exists>s'. stage_list pf ts s = Some (Inr (replicate (length ts) \<lparr>sb_data = pool_ptr s, sb_nbytes = n\<rparr>), s') \<and>
     mem s' = (if ts = [] then mem s else buffer_write (Shared (pool_ptr s)) 0 (tensor_bytes (mem s) (last ts)) (mem s))"
  using assms
proof (induction ts arbitrary: s)
  case (Cons t ts)
  then obtain h where h: "tensor_in t (Private h)" "tensor_nbytes (t_meta t) = n" by auto
  obtain s1 where s1: "stage_for_send_nosync pf t s = Some (Inr \<lparr>sb_data = pool_ptr s, sb_nbytes = n\<rparr>, s1)" "pool_ptr s1 = pool_ptr s"
      "n \<le> pool_capacity s1" "mem s1 = buffer_write (Shared (pool_ptr s)) 0 (tensor_bytes (mem s) t) (mem s)"
    using stage_private [OF Cons.prems(1) h(1) h(2) [symmetric], of s] Cons.prems(3) by (auto simp: pool_for_def)
  obtain s2 where s2: "stage_list pf ts s1 = Some (Inr (replicate (length ts) \<lparr>sb_data = pool_ptr s1, sb_nbytes = n\<rparr>), s2)"
      "mem s2 = (if ts = [] then mem s1 else buffer_write (Shared (pool_ptr s1)) 0 (tensor_bytes (mem s1) (last ts)) (mem s1))"
    using Cons.IH [OF Cons.prems(1) _ s1(3)] Cons.prems(2) by auto
  have "mem s2 = buffer_write (Shared (pool_ptr s)) 0 (tensor_bytes (mem s) (last (t # ts))) (mem s)"
  proof (cases "ts = []")
    case False
    then obtain k where k: "tensor_in (last ts) (Private k)" "tensor_nbytes (t_meta (last ts)) = n" using Cons.prems(2) by fastforce
    have "tensor_bytes (mem s1) (last ts) = tensor_bytes (mem s) (last ts)"
      using k(1) s1(4) by (simp add: tensor_bytes_def tensor_in_def)
    moreover have "length (tensor_bytes (mem s) t) = n" "length (tensor_bytes (mem s) (last ts)) = n"
      using h k by (simp_all add: tensor_bytes_def tensor_in_def)
    ultimately show ?thesis using False s2(2) s1(2, 4) by (auto simp: write_bytes_def fun_eq_iff)
  qed (use s2(2) s1(4) in simp)
  with s1(1, 2) s2(1) show ?case by simp
qed simp

text \<open>
  Staging several private tensors before sending any of them loses all but the last: every buffer that is handed out is the same piece of the pool, so what
  would be sent to every peer is the last tensor. With shared storage each buffer holds its own tensor (\<open>stage_list_shared\<close>).
\<close>

theorem stage_list_loses_tensors:
  assumes "works pf" and "ts \<noteq> []" and "\<forall>t \<in> set ts. (\<exists>h. tensor_in t (Private h)) \<and> tensor_nbytes (t_meta t) = n" and "n \<le> pool_capacity s"
  shows "\<exists>sbs s'. stage_list pf ts s = Some (Inr sbs, s') \<and> length sbs = length ts \<and>
     (\<forall>sb \<in> set sbs. staged_bytes (mem s') sb = tensor_bytes (mem s) (last ts))"
proof -
  obtain s' where s': "stage_list pf ts s = Some (Inr (replicate (length ts) \<lparr>sb_data = pool_ptr s, sb_nbytes = n\<rparr>), s')"
      "mem s' = buffer_write (Shared (pool_ptr s)) 0 (tensor_bytes (mem s) (last ts)) (mem s)"
    using stage_list_private_gpu [OF assms(1, 3, 4)] assms(2) by auto
  obtain k where "tensor_in (last ts) (Private k)" "tensor_nbytes (t_meta (last ts)) = n" using assms(2, 3) by fastforce
  then have "length (tensor_bytes (mem s) (last ts)) = n" by (simp add: tensor_bytes_def tensor_in_def)
  then have "staged_bytes (mem s') \<lparr>sb_data = pool_ptr s, sb_nbytes = n\<rparr> = tensor_bytes (mem s) (last ts)"
    using s'(2) by (simp add: staged_bytes_def cpu_read_write)
  with s'(1) show ?thesis by (intro exI [of _ "replicate (length ts) \<lparr>sb_data = pool_ptr s, sb_nbytes = n\<rparr>"]) auto
qed

text \<open>
  The same reuse in \<open>_reduce_scatter_base\<close>: the staged input still has to be sent when rank \<open>rank > 0\<close> seeds its private output from
  its own share of it, which moves that share to the front of the pool. Peer 0 is then sent share \<open>rank\<close> instead of share 0.
\<close>

lemma seed_overwrites_share_0:
  assumes "works pf" and "tensor_in inp (Private h)" and "tensor_in out (Private k)"
    and "tensor_nbytes (t_meta out) = chunk" and "tensor_nbytes (t_meta inp) = chunk * world"
    and "0 < rank" and "rank < world" and "0 < chunk"
  shows "\<exists>sb s1 s2. stage_for_send_nosync pf inp s = Some (Inr sb, s1) \<and>
     unstage_from_recv pf out (sb_data sb + rank * chunk) chunk s1 = Some (Inr (), s2) \<and>
     map (\<lambda>i. cpu (mem s2) (sb_data sb + i)) [0..<chunk] = take chunk (drop (rank * chunk) (tensor_bytes (mem s) inp))"
proof -
  let ?n = "chunk * world" and ?p = "pool_for pf (chunk * world) s"
  let ?B = "tensor_bytes (mem s) inp"
  obtain s1 where s1: "stage_for_send_nosync pf inp s = Some (Inr \<lparr>sb_data = ?p, sb_nbytes = ?n\<rparr>, s1)"
      "pool_ptr s1 = ?p" "?n \<le> pool_capacity s1" "mem s1 = buffer_write (Shared ?p) 0 ?B (mem s)"
    using stage_private [OF assms(1, 2) assms(5) [symmetric], of s] by auto
  have le: "chunk \<le> ?n" "rank * chunk + chunk \<le> ?n" using assms(6, 7, 8) mult_le_mono1 [of "Suc rank" world chunk] by (simp_all add: mult.commute)
  have len: "length ?B = ?n" using assms(2, 5) by (simp add: tensor_bytes_def tensor_in_def)
  have "chunk \<le> pool_capacity s1" using le(1) s1(3) by (rule le_trans)
  then have e: "ensure pf chunk s1 = (Inr ?p, s1)" using s1(2) by (simp add: ensure_def)
  have ne: "?p + rank * chunk \<noteq> pool_ptr s1" using s1(2) assms(6, 8) by simp
  let ?off = "t_storage_offset out * element_size (t_meta out)"
  define s2 where "s2 = copy_buffer (Shared ?p) 0 (Private k) ?off chunk (memcpy ?p (?p + rank * chunk) chunk s1)"
  have "unstage_from_recv pf out (?p + rank * chunk) chunk s1 = Some (Inr (), s2)"
    using ne e extract_mps [OF assms(3), of pf] blit_from_staging_ok [OF assms(1), of ?p chunk k ?off "memcpy ?p (?p + rank * chunk) chunk s1"] assms(3, 4)
    by (simp add: unstage_from_recv_def tensor_in_def s2_def)
  moreover have "map (\<lambda>i. cpu (mem s2) (?p + i)) [0..<chunk] = take chunk (drop (rank * chunk) ?B)"
  proof (rule nth_equalityI)
    show "length (map (\<lambda>i. cpu (mem s2) (?p + i)) [0..<chunk]) = length (take chunk (drop (rank * chunk) ?B))"
      using le(2) len by simp
    fix i assume "i < length (map (\<lambda>i. cpu (mem s2) (?p + i)) [0..<chunk])"
    then have i: "i < chunk" by simp
    have "cpu (mem s1) (?p + (rank * chunk + i)) = ?B ! (rank * chunk + i)"
      using s1(4) le(2) len i by simp
    moreover have "rank * chunk \<le> length ?B" using le(2) unfolding len by linarith
    ultimately show "map (\<lambda>i. cpu (mem s2) (?p + i)) [0..<chunk] ! i = take chunk (drop (rank * chunk) ?B) ! i"
      using i le(2) len by (simp add: s2_def memcpy_def copy_buffer_def add.assoc)
  qed
  ultimately show ?thesis using s1(1) by (intro exI [of _ "\<lparr>sb_data = ?p, sb_nbytes = ?n\<rparr>"]) auto
qed

text \<open>A failed allocation leaves a pool that claims its new capacity and has no memory: the next request that fits returns the null pointer.\<close>

lemma pool_null_after_failure:
  assumes "\<not> n \<le> pool_capacity s" and "memalign pf (page_round n) = None" and "k \<le> n"
  shows "\<exists>e s1. ensure pf n s = (Inl e, s1) \<and> ensure pf k s1 = (Inr 0, s1)"
  using assms page_round_ge [of n] by (simp add: ensure_def Let_def raise_def)

text \<open>
  \<open>ensure_shared_storage\<close> fills the pool instead of the memory it allocated, whenever the pool is large enough: the new tensor holds whatever was at its address.
\<close>

lemma ensure_shared_storage_unfilled:
  assumes "works pf" and "tensor_in t (Private h)" and "n = tensor_numel (t_meta t) * element_size (t_meta t)"
    and "pool_wrapper s" and "n \<le> pool_capacity s" and "memalign pf (page_round n) = Some p"
    and "p + n \<le> pool_ptr s \<or> pool_ptr s + n \<le> p"
  shows "\<exists>s1. ensure_shared_storage pf t s = Some (Inr (Some p), s1) \<and>
     map (\<lambda>i. cpu (mem s1) (p + i)) [0..<n] = map (\<lambda>i. cpu (mem s) (p + i)) [0..<n]"
proof -
  have "chunked_blit_to_staging pf (Private h) off p n s = Some (Inr (), copy_buffer (Private h) off (Shared (pool_ptr s)) 0 n s)" for off
    using assms(1, 4, 5) by (simp add: chunked_blit_to_staging_def works_def)
  then show ?thesis
    using assms(2, 3, 6, 7) by (auto simp: ensure_shared_storage_def tensor_in_def tensor_cpu_accessible_def copy_buffer_def Let_def write_bytes_disjoint)
qed

section \<open>Examples\<close>

definition sample_platform :: platform where
  "sample_platform = \<lparr>memalign = (\<lambda>n. Some 65536), max_buffer_len = 3, wraps = (\<lambda>a n. True), copies = (\<lambda>off. True)\<rparr>"

definition sample_tensor :: "mtl_buffer \<Rightarrow> nat \<Rightarrow> tensor" where
  "sample_tensor b off = \<lparr>t_meta = \<lparr>device = MPS, is_contiguous = True, dtype = kFloat, sizes = [1], element_size = 4\<rparr>,
     t_buffer = Some b, t_storage_offset = off, t_data = 0\<rparr>"

definition sample_state :: "nat \<Rightarrow> interop" where
  "sample_state cap = \<lparr>mem = \<lparr>cpu = (\<lambda>_. 0), gpu = (\<lambda>h i. word_of_nat (10 * h + i))\<rparr>, pool_ptr = 4096, pool_capacity = cap, pool_wrapper = False\<rparr>"

lemma sample_works: "works sample_platform"
  by (simp add: works_def sample_platform_def)

lemma sample_tensor_in: "tensor_in (sample_tensor b off) b" "tensor_nbytes (t_meta (sample_tensor b off)) = 4"
  by (simp_all add: tensor_in_def sample_tensor_def check_single_tensor_def distro_check_tensor_def supported_dtype_def tensor_numel_def tensor_nbytes_def)


theorem stage_list_loses_tensors_witness:
  "\<exists>sbs s'. stage_list sample_platform [sample_tensor (Private 1) 0, sample_tensor (Private 2) 0] (sample_state 16) = Some (Inr sbs, s') \<and>
     length sbs = 2 \<and> (\<forall>sb \<in> set sbs. staged_bytes (mem s') sb = [20, 21, 22, 23])"
proof -
  have "tensor_bytes (mem (sample_state 16)) (sample_tensor (Private 2) 0) = [20, 21, 22, 23]"
    by (simp add: tensor_bytes_def sample_tensor_def sample_state_def tensor_nbytes_def tensor_numel_def upt_rec)
  moreover have "\<forall>t \<in> set [sample_tensor (Private 1) 0, sample_tensor (Private 2) 0]. (\<exists>h. tensor_in t (Private h)) \<and> tensor_nbytes (t_meta t) = 4"
    using sample_tensor_in by auto
  moreover have "4 \<le> pool_capacity (sample_state 16)" by (simp add: sample_state_def)
  ultimately show ?thesis
    using stage_list_loses_tensors [OF sample_works, of "[sample_tensor (Private 1) 0, sample_tensor (Private 2) 0]" 4 "sample_state 16"]
    by (simp del: stage_list.simps One_nat_def add: numeral_2_eq_2)
qed

section \<open>Synchronising entry points\<close>

text \<open>
  \<open>mps_stream_sync\<close> and \<open>mccl_queue_drain\<close> wait for the GPU work under way, whose effects on memory are the arguments \<open>stream\<close> and \<open>queue\<close>. \<open>stage_for_send\<close> waits for both, then
  does what \<open>stage_for_send_nosync\<close> does.
\<close>

definition mps_sync :: "(interop \<Rightarrow> interop) \<Rightarrow> (interop \<Rightarrow> interop) \<Rightarrow> interop \<Rightarrow> interop" where
  "mps_sync stream queue s = queue (stream s)"

definition stage_for_send ::
    "platform \<Rightarrow> (interop \<Rightarrow> interop) \<Rightarrow> (interop \<Rightarrow> interop) \<Rightarrow> tensor \<Rightarrow> interop \<Rightarrow> (mccl_error, interop, StagingBuffer) res option" where
  "stage_for_send pf stream queue t s =
     (case check_single_tensor (t_meta t) of
        Inl e \<Rightarrow> Some (Inl e, s)
      | Inr _ \<Rightarrow> stage_for_send_nosync pf t (queue (stream s)))"

text \<open>What is staged is what the tensor holds when the work under way is done.\<close>

lemma stage_for_send_sees:
  assumes "works pf" and "tensor_in t b"
  shows "\<exists>sb s1. stage_for_send pf stream queue t s = Some (Inr sb, s1) \<and> sb_nbytes sb = tensor_nbytes (t_meta t) \<and>
    map (\<lambda>i. cpu (mem s1) (sb_data sb + i)) [0..<sb_nbytes sb] = tensor_bytes (mem (mps_sync stream queue s)) t"
proof (cases b)
  case (Shared a)
  with assms stage_shared [of t a pf "queue (stream s)"] show ?thesis
    by (simp add: stage_for_send_def mps_sync_def tensor_in_def tensor_bytes_def)
next
  case (Private h)
  obtain s1 where "stage_for_send_nosync pf t (queue (stream s)) =
        Some (Inr \<lparr>sb_data = pool_for pf (tensor_nbytes (t_meta t)) (queue (stream s)), sb_nbytes = tensor_nbytes (t_meta t)\<rparr>, s1)"
      "mem s1 = buffer_write (Shared (pool_for pf (tensor_nbytes (t_meta t)) (queue (stream s)))) 0 (tensor_bytes (mem (queue (stream s))) t) (mem (queue (stream s)))"
    using stage_private [OF assms(1), of t h "tensor_nbytes (t_meta t)" "queue (stream s)"] assms(2) Private by blast
  moreover have "length (tensor_bytes (mem (queue (stream s))) t) = tensor_nbytes (t_meta t)"
    using assms(2) Private by (simp add: tensor_bytes_def tensor_in_def)
  ultimately show ?thesis using assms(2)
    by (simp add: stage_for_send_def mps_sync_def tensor_in_def cpu_read_write)
qed

text \<open>\<open>on_mps_thread\<close> runs a function on PyTorch's dispatch queue, if there is one, and carries an exception back to the caller.\<close>

definition on_mps_thread :: "bool \<Rightarrow> ('s \<Rightarrow> ('e, 's, unit) res) \<Rightarrow> 's \<Rightarrow> ('e, 's, unit) res" where
  "on_mps_thread queue fn s =
     (if \<not> queue then fn s
      else let (eptr, s1) = (case fn s of (Inl e, s1) \<Rightarrow> (Some e, s1) | (Inr _, s1) \<Rightarrow> (None, s1)) in
        case eptr of Some e \<Rightarrow> (Inl e, s1) | None \<Rightarrow> (Inr (), s1))"

lemma on_mps_thread_transparent: "on_mps_thread queue fn s = fn s"
  by (auto simp: on_mps_thread_def split: prod.split sum.split)

section \<open>Traced commits\<close>

text \<open>
  \<open>mccl_commit_traced\<close> (\<open>csrc/metal/CommitTrace.hpp\<close>): every commit is numbered; one whose buffer is not fresh leaves a line on the error stream before Metal aborts. The state is the
  counter and the lines, a line being the number, the site and the status.
\<close>

datatype cmd_status = NotEnqueued | Enqueued | Committed | Scheduled | Completed | ErrorStatus

definition mccl_commit_traced :: "string \<Rightarrow> cmd_status \<Rightarrow> u64 \<times> (u64 \<times> string \<times> cmd_status) list \<Rightarrow> u64 \<times> (u64 \<times> string \<times> cmd_status) list" where
  "mccl_commit_traced site st x = (case x of (ctr, out) \<Rightarrow> (ctr + 1, if st \<noteq> NotEnqueued then out @ [(ctr, site, st)] else out))"

text \<open>Over a sequence of commits, exactly the double commits are reported, each under the number of its commit.\<close>

lemma commits_traced:
  "fold (\<lambda>(site, st). mccl_commit_traced site st) cs (ctr, out) =
     (ctr + of_nat (length cs), out @ map (\<lambda>(i, site, st). (ctr + of_nat i, site, st)) (filter (\<lambda>(i, site, st). st \<noteq> NotEnqueued) (zip [0..<length cs] cs)))"
proof (induction cs rule: rev_induct)
  case (snoc c cs)
  obtain site st where "c = (site, st)" by fastforce
  then show ?case using snoc by (simp add: mccl_commit_traced_def add.assoc [symmetric] add.commute)
qed simp

end
