(* ===== verification/Metal_Shaders.thy ===== *)
theory Metal_Shaders
  imports Prelude
begin

text \<open>
  The compute kernels of \<open>csrc/metal/shaders.metal\<close>, thread by thread. A device buffer is a function from element
  indices; \<open>uint\<close> arithmetic is 32-bit and wraps; the element operation (addition, minimum, maximum, product of the element type) is a parameter, so
  the three element types of a kernel are instances of one definition. A grid is the list of its threads in the order in which they happen to run:
  threads touch disjoint elements, which is proved, so any order stands for the parallel execution.
\<close>

section \<open>Loads, stores and loops\<close>

type_synonym 'a devbuf = "nat \<Rightarrow> 'a"

definition kElementsPerThread :: u32 where "kElementsPerThread = 8"

text \<open>Vector accesses: vector number \<open>i\<close> holds the elements \<open>4 * i, \<dots>, 4 * i + 3\<close>.\<close>

definition load_vec :: "'a devbuf \<Rightarrow> u32 \<Rightarrow> 'a list" where
  "load_vec b i = map (\<lambda>j. b (4 * unat i + j)) [0, 1, 2, 3]"

definition store_vec :: "'a devbuf \<Rightarrow> u32 \<Rightarrow> 'a list \<Rightarrow> 'a devbuf" where
  "store_vec b i v =
     b(4 * unat i := v ! 0, 4 * unat i + 1 := v ! 1, 4 * unat i + 2 := v ! 2, 4 * unat i + 3 := v ! 3)"

definition load2 :: "'a devbuf \<Rightarrow> u32 \<Rightarrow> 'a list \<times> 'a list" where
  "load2 b vec_index = (load_vec b vec_index, load_vec b (vec_index + 1))"

definition store2 :: "'a devbuf \<Rightarrow> u32 \<Rightarrow> 'a list \<Rightarrow> 'a list \<Rightarrow> 'a devbuf" where
  "store2 b vec_index v0 v1 = store_vec (store_vec b vec_index v0) (vec_index + 1) v1"

definition load2_scalar :: "'a devbuf \<Rightarrow> u32 \<Rightarrow> 'a list \<times> 'a list" where
  "load2_scalar b base =
     (map (\<lambda>j. b (unat (base + j))) [0, 1, 2, 3], map (\<lambda>j. b (unat (base + j))) [4, 5, 6, 7])"

definition store2_scalar :: "'a devbuf \<Rightarrow> u32 \<Rightarrow> 'a list \<Rightarrow> 'a list \<Rightarrow> 'a devbuf" where
  "store2_scalar b base o0 o1 =
     b(unat base := o0 ! 0, unat (base + 1) := o0 ! 1, unat (base + 2) := o0 ! 2, unat (base + 3) := o0 ! 3,
       unat (base + 4) := o1 ! 0, unat (base + 5) := o1 ! 1, unat (base + 6) := o1 ! 2, unat (base + 7) := o1 ! 3)"

lemma unat_Suc_less: "i < (bound :: u32) \<Longrightarrow> unat (i + 1) = Suc (unat i)"
proof -
  assume "i < bound"
  then have "unat i + 1 < 2 ^ 32" using unsigned_less [of bound, where 'a = nat] by (simp add: word_less_nat_alt)
  then show ?thesis by (simp add: unat_word_ariths take_bit_eq_mod)
qed

text \<open>The loops of \<open>scale_tail\<close>, \<open>accumulate_scale_tail\<close> and \<open>ApplyBinaryTail\<close>: \<open>g i x\<close> is the new value of element \<open>i\<close>.\<close>

function tail_loop :: "(nat \<Rightarrow> 'a \<Rightarrow> 'a) \<Rightarrow> u32 \<Rightarrow> u32 \<Rightarrow> 'a devbuf \<Rightarrow> 'a devbuf" where
  "tail_loop g i bound b =
     (if i < bound then tail_loop g (i + 1) bound (b(unat i := g (unat i) (b (unat i)))) else b)"
  by pat_completeness auto
termination
  by (relation "measure (\<lambda>(g, i, bound, b). unat bound - unat i)") (auto simp: unat_Suc_less word_less_nat_alt)

declare tail_loop.simps [simp del]

section \<open>Kernels\<close>

text \<open>
  \<open>binary_vec_op\<close> with operation \<open>f\<close>, and the scaling and fused kernels, whose bodies have the same shape; \<open>g i x\<close> is the new value of
  element \<open>i\<close> when it holds \<open>x\<close>. The vector paths compute on the loaded vectors.
\<close>

definition binary_vec_op :: "('a \<Rightarrow> 'a \<Rightarrow> 'a) \<Rightarrow> 'a devbuf \<Rightarrow> 'a devbuf \<Rightarrow> u32 \<Rightarrow> bool \<Rightarrow> u32 \<Rightarrow> u32 \<Rightarrow> 'a devbuf" where
  "binary_vec_op f dst src base aligned cnt gid =
     (if base + kElementsPerThread \<le> cnt
      then if aligned
        then let (d0, d1) = load2 dst (gid * 2); (s0, s1) = load2 src (gid * 2) in
          store2 dst (gid * 2) (map2 f d0 s0) (map2 f d1 s1)
        else let (d0, d1) = load2_scalar dst base; (s0, s1) = load2_scalar src base in
          store2_scalar dst base (map2 f d0 s0) (map2 f d1 s1)
      else tail_loop (\<lambda>i x. f x (src i)) base (min (base + kElementsPerThread) cnt) dst)"

text \<open>\<open>accumulate_chunk\<close>, \<open>elementwise_min\<close>, \<open>elementwise_max\<close>, \<open>elementwise_product\<close>.\<close>

definition binary_kernel :: "('a \<Rightarrow> 'a \<Rightarrow> 'a) \<Rightarrow> 'a devbuf \<Rightarrow> u32 \<Rightarrow> bool \<Rightarrow> u32 \<Rightarrow> 'a devbuf \<Rightarrow> 'a devbuf" where
  "binary_kernel f src cnt aligned gid dst =
     binary_vec_op f dst src (gid * kElementsPerThread) aligned cnt gid"

text \<open>\<open>scale_inplace\<close>.\<close>

definition scale_kernel :: "('a \<Rightarrow> 'a \<Rightarrow> 'a) \<Rightarrow> 'a \<Rightarrow> u32 \<Rightarrow> bool \<Rightarrow> u32 \<Rightarrow> 'a devbuf \<Rightarrow> 'a devbuf" where
  "scale_kernel mul scale cnt aligned gid b =
     (let base = gid * kElementsPerThread in
      if base + kElementsPerThread \<le> cnt
      then if aligned
        then let (b0, b1) = load2 b (gid * 2) in
          store2 b (gid * 2) (map (\<lambda>x. mul x scale) b0) (map (\<lambda>x. mul x scale) b1)
        else let (b0, b1) = load2_scalar b base in
          store2_scalar b base (map (\<lambda>x. mul x scale) b0) (map (\<lambda>x. mul x scale) b1)
      else tail_loop (\<lambda>i x. mul x scale) base (min (base + kElementsPerThread) cnt) b)"

text \<open>\<open>accumulate_scale\<close>.\<close>

definition accumulate_scale_kernel ::
    "('a \<Rightarrow> 'a \<Rightarrow> 'a) \<Rightarrow> ('a \<Rightarrow> 'a \<Rightarrow> 'a) \<Rightarrow> 'a devbuf \<Rightarrow> 'a \<Rightarrow> u32 \<Rightarrow> bool \<Rightarrow> u32 \<Rightarrow> 'a devbuf \<Rightarrow> 'a devbuf" where
  "accumulate_scale_kernel add mul src scale cnt aligned gid dst =
     (let base = gid * kElementsPerThread; op = (\<lambda>d s. mul (add d s) scale) in
      if base + kElementsPerThread \<le> cnt
      then if aligned
        then let (d0, d1) = load2 dst (gid * 2); (s0, s1) = load2 src (gid * 2) in
          store2 dst (gid * 2) (map2 op d0 s0) (map2 op d1 s1)
        else let (d0, d1) = load2_scalar dst base; (s0, s1) = load2_scalar src base in
          store2_scalar dst base (map2 op d0 s0) (map2 op d1 s1)
      else tail_loop (\<lambda>i x. op x (src i)) base (min (base + kElementsPerThread) cnt) dst)"

text \<open>Running a grid: \<open>gids\<close> are the thread positions in the order in which the threads run.\<close>

definition run_grid :: "(u32 \<Rightarrow> 'a devbuf \<Rightarrow> 'a devbuf) \<Rightarrow> nat list \<Rightarrow> 'a devbuf \<Rightarrow> 'a devbuf" where
  "run_grid thread gids b = fold (\<lambda>g. thread (word_of_nat g)) gids b"

section \<open>One thread\<close>

text \<open>The specification of a thread: element \<open>i\<close> of its block becomes \<open>g i x\<close>; nothing else changes.\<close>

definition block_map :: "(nat \<Rightarrow> 'a \<Rightarrow> 'a) \<Rightarrow> nat \<Rightarrow> nat \<Rightarrow> 'a devbuf \<Rightarrow> 'a devbuf" where
  "block_map g lo hi b = (\<lambda>i. if lo \<le> i \<and> i < hi then g i (b i) else b i)"

lemma tail_loop_block_map: "tail_loop g i bound b = block_map g (unat i) (unat bound) b"
proof (induction g i bound b rule: tail_loop.induct)
  case (1 g i bound b)
  show ?case
  proof (cases "i < bound")
    case True
    then have "unat i < unat bound" by (simp add: word_less_nat_alt)
    have "tail_loop g i bound b = block_map g (Suc (unat i)) (unat bound) (b(unat i := g (unat i) (b (unat i))))"
      using True 1 [OF True] by (simp add: tail_loop.simps [of g i] unat_Suc_less fun_upd_def)
    also have "\<dots> = block_map g (unat i) (unat bound) b"
      using \<open>unat i < unat bound\<close> by (auto simp: block_map_def fun_eq_iff)
    finally show ?thesis .
  next
    case False
    then have "\<not> unat i < unat bound" by (simp add: word_less_nat_alt)
    then have "block_map g (unat i) (unat bound) b = b" by (auto simp: block_map_def fun_eq_iff)
    with False show ?thesis by (simp add: tail_loop.simps [of g i])
  qed
qed

text \<open>Positions in a grid of at most \<open>2 ^ 29\<close> threads.\<close>

lemma gid_arith:
  assumes "g < 2 ^ 29"
  shows "unat (word_of_nat g * kElementsPerThread :: u32) = 8 * g" "unat (word_of_nat g * 2 :: u32) = 2 * g"
    "unat (word_of_nat g * 2 + 1 :: u32) = 2 * g + 1"
    "k < 8 \<Longrightarrow> unat (word_of_nat g * kElementsPerThread + word_of_nat k :: u32) = 8 * g + k"
  using assms by (simp_all add: kElementsPerThread_def unat_word_ariths unsigned_of_nat take_bit_eq_mod)

lemma in_block: "8 * g \<le> i \<and> i < 8 * g + 8 \<longleftrightarrow> i \<in> {8 * g, 8 * g + 1, 8 * g + 2, 8 * g + 3, 8 * g + 4, 8 * g + 5, 8 * g + 6, 8 * g + (7 :: nat)}"
  by auto

text \<open>Loading the block of thread \<open>g\<close>, by vectors or element by element, and storing to it.\<close>

lemma load_block:
  assumes "g < 2 ^ 29"
  shows "load2 b (word_of_nat g * 2) = (map (\<lambda>j. b (8 * g + j)) [0, 1, 2, 3], map (\<lambda>j. b (8 * g + j)) [4, 5, 6, 7])"
    "load2_scalar b (word_of_nat g * kElementsPerThread) = (map (\<lambda>j. b (8 * g + j)) [0, 1, 2, 3], map (\<lambda>j. b (8 * g + j)) [4, 5, 6, 7])"
  using gid_arith [OF assms] gid_arith(4) [OF assms, of 1] gid_arith(4) [OF assms, of 2] gid_arith(4) [OF assms, of 3]
    gid_arith(4) [OF assms, of 4] gid_arith(4) [OF assms, of 5] gid_arith(4) [OF assms, of 6] gid_arith(4) [OF assms, of 7]
  by (simp_all add: load2_def load2_scalar_def load_vec_def ac_simps)

lemma store_block:
  assumes "g < 2 ^ 29"
  shows "store2 b (word_of_nat g * 2) (map h [0, 1, 2, 3]) (map h [4, 5, 6, 7]) =
      (\<lambda>i. if 8 * g \<le> i \<and> i < 8 * g + 8 then h (i - 8 * g) else b i)"
    "store2_scalar b (word_of_nat g * kElementsPerThread) (map h [0, 1, 2, 3]) (map h [4, 5, 6, 7]) =
      (\<lambda>i. if 8 * g \<le> i \<and> i < 8 * g + 8 then h (i - 8 * g) else b i)"
  unfolding in_block
  using gid_arith [OF assms] gid_arith(4) [OF assms, of 1] gid_arith(4) [OF assms, of 2] gid_arith(4) [OF assms, of 3]
    gid_arith(4) [OF assms, of 4] gid_arith(4) [OF assms, of 5] gid_arith(4) [OF assms, of 6] gid_arith(4) [OF assms, of 7]
  by (auto simp: store2_def store2_scalar_def store_vec_def fun_eq_iff)

lemma map2_map: "map2 f (map u xs) (map v xs) = map (\<lambda>x. f (u x) (v x)) xs"
  by (induction xs) simp_all

lemma full_block:
  assumes "8 * g < unat (cnt :: u32)" and "unat cnt \<le> 2 ^ 32 - 8"
  shows "g < 2 ^ 29" "unat (word_of_nat g * kElementsPerThread + kElementsPerThread :: u32) = 8 * g + 8"
    "word_of_nat g * kElementsPerThread + kElementsPerThread \<le> cnt \<longleftrightarrow> 8 * g + 8 \<le> unat cnt"
proof -
  show g: "g < 2 ^ 29" using assms by simp
  have "8 * g + 8 < 2 ^ 32" using assms by simp
  then show u: "unat (word_of_nat g * kElementsPerThread + kElementsPerThread :: u32) = 8 * g + 8"
    using g by (simp add: kElementsPerThread_def unat_word_ariths unsigned_of_nat take_bit_eq_mod)
  show "word_of_nat g * kElementsPerThread + kElementsPerThread \<le> cnt \<longleftrightarrow> 8 * g + 8 \<le> unat cnt"
    using u by (simp add: word_le_nat_alt)
qed

lemma tail_block:
  assumes "8 * g < unat (cnt :: u32)" and "unat cnt \<le> 2 ^ 32 - 8" and "\<not> 8 * g + 8 \<le> unat cnt"
  shows "tail_loop h (word_of_nat g * kElementsPerThread) (min (word_of_nat g * kElementsPerThread + kElementsPerThread) cnt) b =
     block_map h (8 * g) (min (8 * g + 8) (unat cnt)) b"
proof -
  have "min (word_of_nat g * kElementsPerThread + kElementsPerThread) cnt = cnt"
    using full_block(3) [OF assms(1, 2)] assms(3) by (simp add: min_def)
  then show ?thesis using gid_arith(1) [OF full_block(1) [OF assms(1, 2)]] assms(3) by (simp add: tail_loop_block_map)
qed

text \<open>The path for a full block, by vectors or element by element.\<close>

lemma binary_vec_op_full:
  assumes "g < 2 ^ 29" and "word_of_nat g * kElementsPerThread + kElementsPerThread \<le> cnt"
  shows "binary_vec_op f dst src (word_of_nat g * kElementsPerThread) aligned cnt (word_of_nat g) =
     block_map (\<lambda>i x. f x (src i)) (8 * g) (8 * g + 8) dst"
proof -
  have "(\<lambda>i. if 8 * g \<le> i \<and> i < 8 * g + 8 then f (dst (8 * g + (i - 8 * g))) (src (8 * g + (i - 8 * g))) else dst i) =
      block_map (\<lambda>i x. f x (src i)) (8 * g) (8 * g + 8) dst"
    by (auto simp: block_map_def)
  then show ?thesis
    using assms(2)
    by (simp add: binary_vec_op_def load_block [OF assms(1)] store_block [OF assms(1)] map2_map del: list.map zip_Cons_Cons One_nat_def)
qed

text \<open>
  Each thread of a grid that covers \<open>cnt\<close> elements maps its own block of at most eight elements, with or without vector accesses.
\<close>

lemma binary_vec_op_block:
  assumes "8 * g < unat (cnt :: u32)" and "unat cnt \<le> 2 ^ 32 - 8"
  shows "binary_vec_op f dst src (word_of_nat g * kElementsPerThread) aligned cnt (word_of_nat g) =
     block_map (\<lambda>i x. f x (src i)) (8 * g) (min (8 * g + 8) (unat cnt)) dst"
proof (cases "8 * g + 8 \<le> unat cnt")
  case True
  then show ?thesis using full_block(1, 3) [OF assms] by (simp add: binary_vec_op_full)
next
  case False
  then show ?thesis using full_block(3) [OF assms] tail_block [OF assms] by (simp add: binary_vec_op_def)
qed

text \<open>The other kernels are instances of the same body.\<close>

lemma accumulate_scale_kernel_binary:
  "accumulate_scale_kernel add mul src scale cnt aligned gid dst = binary_kernel (\<lambda>d s. mul (add d s) scale) src cnt aligned gid dst"
  by (simp add: accumulate_scale_kernel_def binary_kernel_def binary_vec_op_def Let_def)

lemma scale_kernel_binary:
  "scale_kernel mul scale cnt aligned gid b = binary_kernel (\<lambda>x _. mul x scale) b cnt aligned gid b"
  by (simp add: scale_kernel_def binary_kernel_def binary_vec_op_def load2_def load_vec_def load2_scalar_def Let_def)

section \<open>Grids\<close>

lemma block_map_apply: "block_map h lo hi b i = (if lo \<le> i \<and> i < hi then h i (b i) else b i)"
  by (simp add: block_map_def)

text \<open>Distinct threads of a grid, in any order: each element is mapped by the thread of its block, if that thread is among them.\<close>

lemma run_grid_blocks:
  assumes "distinct gids" and "\<forall>g \<in> set gids. 8 * g < cnt"
    and "\<And>g b. g \<in> set gids \<Longrightarrow> thread (word_of_nat g) b = block_map h (8 * g) (min (8 * g + 8) cnt) b"
  shows "run_grid thread gids b i = (if i div 8 \<in> set gids \<and> i < cnt then h i (b i) else b i)"
  using assms
proof (induction gids arbitrary: b)
  case (Cons g gids)
  let ?b = "block_map h (8 * g) (min (8 * g + 8) cnt) b"
  have "run_grid thread (g # gids) b i = run_grid thread gids ?b i"
    using Cons.prems(3) [of g] by (simp add: run_grid_def)
  also have "\<dots> = (if i div 8 \<in> set gids \<and> i < cnt then h i (?b i) else ?b i)"
    by (rule Cons.IH) (use Cons.prems in auto)
  also have "?b i = (if i div 8 = g \<and> i < cnt then h i (b i) else b i)"
    by (auto simp: block_map_apply)
  finally show ?case using Cons.prems(1) by auto
qed (simp add: run_grid_def)

text \<open>
  The kernels compute the element-wise operation: a grid of one thread per eight elements, its threads run in whatever order and with vector or scalar
  accesses, applies the operation to exactly the first \<open>cnt\<close> elements and leaves all others alone, as long as \<open>cnt\<close> is at most \<open>2 ^ 32 - 8\<close>.
\<close>

theorem kernel_elementwise:
  assumes "unat (cnt :: u32) \<le> 2 ^ 32 - 8" and "distinct gids" and "set gids = {..<(unat cnt + 7) div 8}"
  shows "run_grid (binary_kernel f src cnt aligned) gids dst =
     (\<lambda>i. if i < unat cnt then f (dst i) (src i) else dst i)"
proof
  fix i
  have lt: "8 * g < unat cnt" if "g \<in> set gids" for g
    using that assms(3) by auto
  have "run_grid (binary_kernel f src cnt aligned) gids dst i =
      (if i div 8 \<in> set gids \<and> i < unat cnt then f (dst i) (src i) else dst i)"
    using assms lt by (intro run_grid_blocks [where h = "\<lambda>i x. f x (src i)"])
      (auto simp: binary_kernel_def binary_vec_op_block)
  moreover have "i < unat cnt \<Longrightarrow> i div 8 \<in> set gids" using assms(3) by auto
  ultimately show "run_grid (binary_kernel f src cnt aligned) gids dst i = (if i < unat cnt then f (dst i) (src i) else dst i)"
    by auto
qed

theorem kernel_elementwise_witness:
  "run_grid (binary_kernel (+) (\<lambda>i. 10 * i) 13 True) [1, 0] (\<lambda>i. i) 12 = 132 \<and>
   run_grid (binary_kernel (+) (\<lambda>i. 10 * i) 13 True) [1, 0] (\<lambda>i. i) 13 = (13 :: nat)"
proof -
  have "set [1, 0] = {..<(unat (13 :: u32) + 7) div 8}" by auto
  then show ?thesis using kernel_elementwise [of 13 "[1, 0]" "(+)" "\<lambda>i. 10 * i" True "\<lambda>i. i"] by simp
qed

text \<open>
  Beyond that bound the index arithmetic wraps: for \<open>cnt > 2 ^ 32 - 8\<close> the last thread computes \<open>base + 8 = 0\<close>, takes its block for a full one, and
  the grid operates on all \<open>2 ^ 32\<close> elements, up to seven beyond the end of the tensor.
\<close>

theorem kernel_overruns:
  assumes "2 ^ 32 - 8 < unat (cnt :: u32)" and "distinct gids" and "set gids = {..<(unat cnt + 7) div 8}"
  shows "run_grid (binary_kernel f src cnt aligned) gids dst = (\<lambda>i. if i < 2 ^ 32 then f (dst i) (src i) else dst i)"
proof
  fix i
  have c: "unat cnt < 2 ^ 32" using unsigned_less [of cnt, where 'a = nat] by simp
  then have gids: "set gids = {..<2 ^ 29}" using assms(1, 3) by auto
  have full: "word_of_nat g * kElementsPerThread + kElementsPerThread \<le> cnt" if "g < 2 ^ 29" for g
  proof -
    have "unat (word_of_nat g * kElementsPerThread + kElementsPerThread :: u32) = (8 * g + 8) mod 2 ^ 32"
      using that by (simp add: kElementsPerThread_def unat_word_ariths unsigned_of_nat take_bit_eq_mod mult.commute)
    moreover have "(8 * g + 8) mod 2 ^ 32 \<le> 2 ^ 32 - 8"
    proof (cases "g = 2 ^ 29 - 1")
      case False
      with that have "8 * g + 8 \<le> 2 ^ 32 - 8" by simp
      then show ?thesis by simp
    qed simp
    ultimately show ?thesis using assms(1) by (simp add: word_le_nat_alt)
  qed
  have "run_grid (binary_kernel f src cnt aligned) gids dst i =
      (if i div 8 \<in> set gids \<and> i < 2 ^ 32 then f (dst i) (src i) else dst i)"
    using assms(2) gids full by (intro run_grid_blocks [where h = "\<lambda>i x. f x (src i)"])
      (auto simp: binary_kernel_def binary_vec_op_full min_def)
  moreover have "i div 8 \<in> set gids" if "i < 2 ^ 32"
    unfolding gids lessThan_iff by (rule less_mult_imp_div_less) (use that in simp)
  ultimately show "run_grid (binary_kernel f src cnt aligned) gids dst i = (if i < 2 ^ 32 then f (dst i) (src i) else dst i)"
    by presburger
qed

theorem kernel_overruns_witness:
  "run_grid (binary_kernel (+) (\<lambda>_. 1) (2 ^ 32 - 1) False) [0..<2 ^ 29] (\<lambda>_. 0) (2 ^ 32 - 1) = (1 :: nat)"
proof -
  have "(unat (2 ^ 32 - 1 :: u32) + 7) div 8 = 2 ^ 29" by simp
  then have "set [0..<2 ^ 29] = {..<(unat (2 ^ 32 - 1 :: u32) + 7) div 8}" by (simp only: set_upt lessThan_atLeast0)
  moreover have "2 ^ 32 - 8 < unat (2 ^ 32 - 1 :: u32)" by simp
  ultimately have "run_grid (binary_kernel (+) (\<lambda>_. 1) (2 ^ 32 - 1) False) [0..<2 ^ 29] (\<lambda>_. 0) =
      (\<lambda>i. if i < 2 ^ 32 then 0 + 1 else (0 :: nat))"
    by (intro kernel_overruns distinct_upt)
  from fun_cong [OF this, of "2 ^ 32 - 1"] show ?thesis by (subst (asm) if_P) (simp, simp only: add_0)
qed

end
