(* ===== verification/Metal_Kernels.thy ===== *)
theory Metal_Kernels
  imports Mps_Interop Metal_Shaders Reduction Rounds
begin

text \<open>
  The host side of the compute kernels: \<open>csrc/metal/MetalKernels.mm\<close>. The shader library and its pipelines, the choice of a pipeline, and the operations
  that encode kernel launches. Command buffers are lists of launches: one may be open as a batch, committed ones wait in the queue and complete in order. What the file
  system and Metal answer is an argument.
\<close>

section \<open>Kernels, launches and the cache\<close>

datatype kernel_kind = Accumulate | Scale | AccumScale | MinK | MaxK | ProductK

datatype elem_format = F32 | F16 | BF16

fun kernel_stem :: "kernel_kind \<Rightarrow> string" where
  "kernel_stem Accumulate = ''accumulate_chunk''"
| "kernel_stem Scale = ''scale_inplace''"
| "kernel_stem AccumScale = ''accumulate_scale''"
| "kernel_stem MinK = ''elementwise_min''"
| "kernel_stem MaxK = ''elementwise_max''"
| "kernel_stem ProductK = ''elementwise_product''"

fun format_suffix :: "elem_format \<Rightarrow> string" where
  "format_suffix F32 = ''_f32''"
| "format_suffix F16 = ''_f16''"
| "format_suffix BF16 = ''_bf16''"

type_synonym pipeline = "kernel_kind \<times> elem_format"

definition kernel_name :: "pipeline \<Rightarrow> string" where
  "kernel_name k = kernel_stem (fst k) @ format_suffix (snd k)"

text \<open>
  The scaling factor as the kernels take it. The conversions of the \<open>double\<close> to \<open>float\<close> and \<open>__fp16\<close> are the compiler's, and the one from \<open>float\<close> to \<open>c10::BFloat16\<close> is
  PyTorch's; their results, as bit patterns, are arguments.
\<close>

datatype scale_arg = ScaleF32 u32 | ScaleF16 u16 | ScaleBF16 u16

record scale_value =
  as_float :: u32
  as_half :: u16
  as_bfloat :: u16

definition to_scale_arg :: "scalar_type \<Rightarrow> scale_value \<Rightarrow> scale_arg" where
  "to_scale_arg dt v = (if dt = kHalf then ScaleF16 (as_half v) else if dt = kBFloat16 then ScaleBF16 (as_bfloat v) else ScaleF32 (as_float v))"

text \<open>The variant on views cuts the \<open>float\<close> off after 16 bits.\<close>

definition to_scale_arg_view :: "scalar_type \<Rightarrow> scale_value \<Rightarrow> scale_arg" where
  "to_scale_arg_view dt v =
     (if dt = kHalf then ScaleF16 (as_half v) else if dt = kBFloat16 then ScaleBF16 (ucast (drop_bit 16 (as_float v)))
      else ScaleF32 (as_float v))"

text \<open>An encoded launch: pipeline, buffers, scaling factor, element count, the alignment flag if it is bound, and the grid.\<close>

record launch =
  l_pipeline :: pipeline
  l_dst :: MPSBufferView
  l_src :: "MPSBufferView option"
  l_scale :: "scale_arg option"
  l_count :: u32
  l_aligned :: "bool option"
  l_grid :: nat

record kernel_cache =
  kc_initialized :: bool
  kc_pipelines :: "pipeline list"
  kc_batch :: "launch list option"
  kc_queue :: "launch list"
  kc_done :: "launch list"

type_synonym 'a kres = "(mccl_error, kernel_cache, 'a) res"

definition check_that :: "bool \<Rightarrow> string \<Rightarrow> kernel_cache \<Rightarrow> unit kres" where
  "check_that b msg c = (if b then (Inr (), c) else (Inl (MCCLError msg), c))"

definition lift_res :: "mccl_error + 'a \<Rightarrow> kernel_cache \<Rightarrow> 'a kres" where
  "lift_res r c = (r, c)"

declare check_that_def [monad_simps] lift_res_def [monad_simps]

section \<open>Initialisation\<close>

record shader_env =
  se_device :: bool
  se_queue :: bool
  DISTRO_SHADER_PATH :: "string option"
  se_so_dir :: "string option"
  se_bundle :: "string option"
  se_exists :: "string \<Rightarrow> bool"
  se_loads :: "string \<Rightarrow> bool"
  se_reads :: "string \<Rightarrow> bool"
  se_compiles :: bool
  se_function :: "string \<Rightarrow> bool"
  se_builds :: "string \<Rightarrow> string option"

definition append_path :: "string \<Rightarrow> string \<Rightarrow> string" where
  "append_path dir name = (if dir = [] then name else if last dir = CHR ''/'' then dir @ name else dir @ ''/'' @ name)"

definition has_suffix :: "string \<Rightarrow> string \<Rightarrow> bool" where
  "has_suffix suf s \<longleftrightarrow> length suf \<le> length s \<and> drop (length s - length suf) s = suf"

definition metallib_search :: "shader_env \<Rightarrow> string list" where
  "metallib_search env =
     (case DISTRO_SHADER_PATH env of Some p \<Rightarrow> if has_suffix ''.metallib'' p then [p] else [] | None \<Rightarrow> []) @
     (case se_so_dir env of Some d \<Rightarrow> [append_path d ''mccl_shaders.metallib''] | None \<Rightarrow> []) @
     (case se_bundle env of Some b \<Rightarrow> [b] | None \<Rightarrow> [])"

definition shader_source :: "shader_env \<Rightarrow> string option" where
  "shader_source env =
     (case (case DISTRO_SHADER_PATH env of
              Some p \<Rightarrow> if has_suffix ''.metal'' p \<and> se_exists env p then Some p else None
            | None \<Rightarrow> None) of
        Some p \<Rightarrow> Some p
      | None \<Rightarrow>
         (case find (se_exists env) [''csrc/metal/shaders.metal'', ''../csrc/metal/shaders.metal'', ''../../csrc/metal/shaders.metal''] of
            Some p \<Rightarrow> Some p
          | None \<Rightarrow>
             (case se_so_dir env of
                Some d \<Rightarrow> if se_exists env (append_path d ''shaders.metal'') then Some (append_path d ''shaders.metal'') else None
              | None \<Rightarrow> None)))"

text \<open>The shader library: precompiled, from the first place that has one that loads, else compiled from source.\<close>

definition load_shaders :: "shader_env \<Rightarrow> mccl_error + string" where
  "load_shaders env =
     (case find (\<lambda>p. se_exists env p \<and> se_loads env p) (metallib_search env) of
        Some p \<Rightarrow> Inr p
      | None \<Rightarrow>
         (case shader_source env of
            None \<Rightarrow> Inl (MCCLError ''Cannot find shaders.metal or mccl_shaders.metallib. Set DISTRO_SHADER_PATH env var.'')
          | Some p \<Rightarrow>
              if \<not> se_reads env p then Inl (MCCLError ''Failed to read shaders.metal: '')
              else if \<not> se_compiles env then Inl (MCCLError ''Metal shader compilation failed: '')
              else Inr p))"

text \<open>A pipeline that has to exist, and one that may be absent.\<close>

definition make_pipeline :: "shader_env \<Rightarrow> pipeline \<Rightarrow> mccl_error + pipeline list" where
  "make_pipeline env k =
     (if \<not> se_function env (kernel_name k) then Inl (MCCLError (''Metal function not found: '' @ kernel_name k))
      else case se_builds env (kernel_name k) of
        Some err \<Rightarrow> Inl (MCCLError (''Pipeline creation failed for '' @ kernel_name k @ '': '' @ err))
      | None \<Rightarrow> Inr [k])"

definition make_pipeline_if_present :: "shader_env \<Rightarrow> pipeline \<Rightarrow> mccl_error + pipeline list" where
  "make_pipeline_if_present env k = (if \<not> se_function env (kernel_name k) then Inr [] else make_pipeline env k)"

definition all_pipelines :: "pipeline list" where
  "all_pipelines = concat (map (\<lambda>k. [(k, F32), (k, F16), (k, BF16)]) [Accumulate, Scale, AccumScale, MinK, MaxK, ProductK])"

text \<open>The setting \<open>DISTRO_FAST_MATH\<close>, with which shaders are compiled from source: on unless it is switched off.\<close>

definition metal_fast_math_enabled :: "string option \<Rightarrow> bool" where
  "metal_fast_math_enabled env = (case env of None \<Rightarrow> True | Some v \<Rightarrow> v \<notin> {''0'', ''false'', ''FALSE''})"

definition metal_kernels_init :: "shader_env \<Rightarrow> kernel_cache \<Rightarrow> unit kres" where
  "metal_kernels_init env c =
     (if kc_initialized c then (Inr (), c)
      else if \<not> se_device env then (Inl (MCCLError ''No Metal device available''), c)
      else if \<not> se_queue env then (Inl (MCCLError ''Failed to create MTLCommandQueue''), c)
      else case load_shaders env of
        Inl e \<Rightarrow> (Inl e, c)
      | Inr _ \<Rightarrow>
         (case map_res (\<lambda>k. if snd k = BF16 then make_pipeline_if_present env k else make_pipeline env k) all_pipelines of
            Inl e \<Rightarrow> (Inl e, c)
          | Inr ks \<Rightarrow> (Inr (), c\<lparr>kc_initialized := True, kc_pipelines := concat ks\<rparr>)))"

section \<open>Choosing a pipeline\<close>

definition cached_pipeline :: "kernel_cache \<Rightarrow> kernel_kind \<Rightarrow> elem_format \<Rightarrow> pipeline option" where
  "cached_pipeline c k e = (if (k, e) \<in> set (kc_pipelines c) then Some (k, e) else None)"

text \<open>\<open>select_accumulate_pipeline\<close>, \<open>select_scale_pipeline\<close> and \<open>select_accum_scale_pipeline\<close>.\<close>

definition select_pipeline :: "kernel_cache \<Rightarrow> kernel_kind \<Rightarrow> scalar_type \<Rightarrow> pipeline option" where
  "select_pipeline c k dt =
     (if dt = kFloat then cached_pipeline c k F32 else if dt = kHalf then cached_pipeline c k F16
      else if dt = kBFloat16 then cached_pipeline c k BF16 else None)"

text \<open>The choice for minimum, maximum and product: whatever is not \<open>kFloat\<close> or \<open>kHalf\<close> gets the \<open>bf16\<close> kernel.\<close>

definition select_elementwise :: "kernel_cache \<Rightarrow> kernel_kind \<Rightarrow> scalar_type \<Rightarrow> pipeline option" where
  "select_elementwise c k dt =
     (if dt = kFloat then cached_pipeline c k F32 else if dt = kHalf then cached_pipeline c k F16 else cached_pipeline c k BF16)"

text \<open>The operations of \<open>c10d\<close>; those without a kernel by their number.\<close>

datatype c10d_op = Op RedOpType | OtherOp nat

fun select_op_pipeline :: "kernel_cache \<Rightarrow> scalar_type \<Rightarrow> c10d_op \<Rightarrow> pipeline option" where
  "select_op_pipeline c dt (Op RedSUM) = select_pipeline c Accumulate dt"
| "select_op_pipeline c dt (Op RedAVG) = select_pipeline c Accumulate dt"
| "select_op_pipeline c dt (Op RedMIN) = select_elementwise c MinK dt"
| "select_op_pipeline c dt (Op RedMAX) = select_elementwise c MaxK dt"
| "select_op_pipeline c dt (Op RedPRODUCT) = select_elementwise c ProductK dt"
| "select_op_pipeline c dt (OtherOp n) = None"

section \<open>Launching\<close>

definition compute_dispatch :: "nat \<Rightarrow> nat \<Rightarrow> u32 \<Rightarrow> nat \<times> nat" where
  "compute_dispatch simd max_tg cnt =
     ((unat cnt + 7) div 8, let tg = max_tg div simd * simd in if tg = 0 then simd else tg)"

definition vector_alignment :: "scalar_type \<Rightarrow> nat" where
  "vector_alignment dt = (if dt = kFloat then 16 else if dt = kHalf \<or> dt = kBFloat16 then 8 else 1)"

definition is_vector_aligned :: "MPSBufferView \<Rightarrow> scalar_type \<Rightarrow> bool" where
  "is_vector_aligned v dt \<longleftrightarrow> byte_offset v mod vector_alignment dt = 0"

definition binary_vector_aligned :: "MPSBufferView \<Rightarrow> MPSBufferView \<Rightarrow> scalar_type \<Rightarrow> bool" where
  "binary_vector_aligned d s dt \<longleftrightarrow> is_vector_aligned d dt \<and> is_vector_aligned s dt"

definition safe_numel :: "tensor_meta \<Rightarrow> mccl_error + u32" where
  "safe_numel t =
     (if 2 ^ 32 - 1 < tensor_numel t
      then Inl (MCCLError (''Tensor too large for Metal kernels ('' @ to_string (tensor_numel t) @ '' elements, max '' @
        to_string (2 ^ 32 - 1) @ ''). Use CPU reduction path for this tensor.''))
      else Inr (word_of_nat (tensor_numel t)))"

text \<open>
  \<open>acquire_command_buffer\<close>, encoding, and \<open>finish_command_buffer\<close>: with a batch open the launch joins it, otherwise it is committed.
\<close>

definition encode :: "launch \<Rightarrow> kernel_cache \<Rightarrow> unit kres" where
  "encode l c =
     (case kc_batch c of
        Some ls \<Rightarrow> (Inr (), c\<lparr>kc_batch := Some (ls @ [l])\<rparr>)
      | None \<Rightarrow> (Inr (), c\<lparr>kc_queue := kc_queue c @ [l]\<rparr>))"

definition binary_launch :: "pipeline \<Rightarrow> MPSBufferView \<Rightarrow> MPSBufferView \<Rightarrow> scalar_type \<Rightarrow> u32 \<Rightarrow> launch" where
  "binary_launch k d s dt cnt =
     \<lparr>l_pipeline = k, l_dst = d, l_src = Some s, l_scale = None, l_count = cnt, l_aligned = Some (binary_vector_aligned d s dt),
      l_grid = (unat cnt + 7) div 8\<rparr>"

definition mccl_queue_drain :: "kernel_cache \<Rightarrow> unit kres" where
  "mccl_queue_drain c = (Inr (), c\<lparr>kc_done := kc_done c @ kc_queue c, kc_queue := []\<rparr>)"

definition metal_begin_batch :: "kernel_cache \<Rightarrow> unit kres" where
  "metal_begin_batch c =
     (if \<not> kc_initialized c then (Inl (MCCLError ''metal_kernels_init() not called''), c)
      else if kc_batch c \<noteq> None then (Inl (MCCLError ''Metal batch already active''), c)
      else (Inr (), c\<lparr>kc_batch := Some []\<rparr>))"

definition metal_end_batch :: "kernel_cache \<Rightarrow> unit kres" where
  "metal_end_batch c =
     (case kc_batch c of
        None \<Rightarrow> (Inr (), c)
      | Some ls \<Rightarrow> (Inr (), c\<lparr>kc_batch := None, kc_queue := kc_queue c @ ls\<rparr>))"

definition metal_sync :: "kernel_cache \<Rightarrow> unit kres" where
  "metal_sync = andThen metal_end_batch (\<lambda>_. mccl_queue_drain)"

section \<open>Operations on tensors\<close>

definition not_called :: string where "not_called = ''metal_kernels_init() not called''"

fun dtype_name :: "scalar_type \<Rightarrow> string" where
  "dtype_name kFloat = ''Float''"
| "dtype_name kHalf = ''Half''"
| "dtype_name kBFloat16 = ''BFloat16''"
| "dtype_name kDouble = ''Double''"
| "dtype_name kLong = ''Long''"
| "dtype_name kInt = ''Int''"
| "dtype_name kShort = ''Short''"
| "dtype_name kChar = ''Char''"
| "dtype_name kByte = ''Byte''"
| "dtype_name kBool = ''Bool''"
| "dtype_name (OtherDtype n) = n"

definition initialized :: "kernel_cache \<Rightarrow> unit kres" where
  "initialized c = check_that (kc_initialized c) not_called c"

definition some_pipeline :: "string \<Rightarrow> scalar_type \<Rightarrow> (kernel_cache \<Rightarrow> pipeline option) \<Rightarrow> kernel_cache \<Rightarrow> pipeline kres" where
  "some_pipeline msg dt sel c =
     (case sel c of None \<Rightarrow> (Inl (MCCLError (''No Metal '' @ msg @ '' for dtype '' @ dtype_name dt)), c) | Some k \<Rightarrow> (Inr k, c))"

definition metal_accumulate_chunk :: "platform \<Rightarrow> tensor \<Rightarrow> tensor \<Rightarrow> kernel_cache \<Rightarrow> unit kres" where
  "metal_accumulate_chunk pf dst src =
     andThen initialized (\<lambda>_. andThen (lift_res (check_same_shape_dtype (t_meta dst) (t_meta src))) (\<lambda>_.
     andThen (lift_res (extract_mps_buffer pf dst)) (\<lambda>dv. andThen (lift_res (extract_mps_buffer pf src)) (\<lambda>sv.
     andThen (lift_res (safe_numel (t_meta dst))) (\<lambda>cnt.
     andThen (some_pipeline ''accumulate pipeline'' (dtype (t_meta dst)) (\<lambda>c. select_pipeline c Accumulate (dtype (t_meta dst)))) (\<lambda>k.
     encode (binary_launch k dv sv (dtype (t_meta dst)) cnt)))))))"

definition dispatch_binary_op :: "platform \<Rightarrow> pipeline \<Rightarrow> tensor \<Rightarrow> tensor \<Rightarrow> kernel_cache \<Rightarrow> unit kres" where
  "dispatch_binary_op pf k dst src =
     andThen (lift_res (extract_mps_buffer pf dst)) (\<lambda>dv. andThen (lift_res (extract_mps_buffer pf src)) (\<lambda>sv.
     andThen (lift_res (safe_numel (t_meta dst))) (\<lambda>cnt. encode (binary_launch k dv sv (dtype (t_meta dst)) cnt))))"

text \<open>\<open>metal_elementwise_min\<close>, \<open>metal_elementwise_max\<close>, \<open>metal_elementwise_product\<close>.\<close>

definition metal_elementwise :: "string \<Rightarrow> kernel_kind \<Rightarrow> platform \<Rightarrow> tensor \<Rightarrow> tensor \<Rightarrow> kernel_cache \<Rightarrow> unit kres" where
  "metal_elementwise msg kind pf dst src =
     andThen initialized (\<lambda>_. andThen (lift_res (check_same_shape_dtype (t_meta dst) (t_meta src))) (\<lambda>_.
     andThen (some_pipeline msg (dtype (t_meta dst)) (\<lambda>c. select_elementwise c kind (dtype (t_meta dst)))) (\<lambda>k.
     dispatch_binary_op pf k dst src)))"

fun metal_reduce_op :: "platform \<Rightarrow> tensor \<Rightarrow> tensor \<Rightarrow> c10d_op \<Rightarrow> kernel_cache \<Rightarrow> unit kres" where
  "metal_reduce_op pf dst src (Op RedSUM) = metal_accumulate_chunk pf dst src"
| "metal_reduce_op pf dst src (Op RedAVG) = metal_accumulate_chunk pf dst src"
| "metal_reduce_op pf dst src (Op RedMIN) = metal_elementwise ''min pipeline'' MinK pf dst src"
| "metal_reduce_op pf dst src (Op RedMAX) = metal_elementwise ''max pipeline'' MaxK pf dst src"
| "metal_reduce_op pf dst src (Op RedPRODUCT) = metal_elementwise ''product pipeline'' ProductK pf dst src"
| "metal_reduce_op pf dst src (OtherOp n) = throw (MCCLError (''Unsupported ReduceOp: '' @ to_string n))"

definition metal_scale_inplace :: "platform \<Rightarrow> tensor \<Rightarrow> scale_value \<Rightarrow> kernel_cache \<Rightarrow> unit kres" where
  "metal_scale_inplace pf t scale =
     andThen initialized (\<lambda>_. andThen (lift_res (extract_mps_buffer pf t)) (\<lambda>v.
     andThen (lift_res (safe_numel (t_meta t))) (\<lambda>cnt.
     andThen (some_pipeline ''scale pipeline'' (dtype (t_meta t)) (\<lambda>c. select_pipeline c Scale (dtype (t_meta t)))) (\<lambda>k.
     encode \<lparr>l_pipeline = k, l_dst = v, l_src = None, l_scale = Some (to_scale_arg (dtype (t_meta t)) scale), l_count = cnt, l_aligned = Some (is_vector_aligned v (dtype (t_meta t))),
             l_grid = (unat cnt + 7) div 8\<rparr>))))"

definition metal_accumulate_and_scale :: "platform \<Rightarrow> tensor \<Rightarrow> tensor \<Rightarrow> scale_value \<Rightarrow> kernel_cache \<Rightarrow> unit kres" where
  "metal_accumulate_and_scale pf dst src scale =
     andThen initialized (\<lambda>_. andThen (lift_res (check_same_shape_dtype (t_meta dst) (t_meta src))) (\<lambda>_.
     andThen (lift_res (extract_mps_buffer pf dst)) (\<lambda>dv. andThen (lift_res (extract_mps_buffer pf src)) (\<lambda>sv.
     andThen (lift_res (safe_numel (t_meta dst))) (\<lambda>cnt.
     andThen (some_pipeline ''fused pipeline'' (dtype (t_meta dst)) (\<lambda>c. select_pipeline c AccumScale (dtype (t_meta dst)))) (\<lambda>k.
     encode ((binary_launch k dv sv (dtype (t_meta dst)) cnt)\<lparr>l_scale := Some (to_scale_arg (dtype (t_meta dst)) scale)\<rparr>)))))))"

text \<open>The variants on views, used by the engine thread; the scaling one does not bind the alignment flag.\<close>

definition metal_reduce_op_view :: "MPSBufferView \<Rightarrow> MPSBufferView \<Rightarrow> scalar_type \<Rightarrow> u32 \<Rightarrow> c10d_op \<Rightarrow> kernel_cache \<Rightarrow> unit kres" where
  "metal_reduce_op_view dv sv dt cnt op =
     andThen initialized (\<lambda>_. andThen (some_pipeline ''pipeline'' dt (\<lambda>c. select_op_pipeline c dt op)) (\<lambda>k.
     andThen (encode (binary_launch k dv sv dt cnt)) (\<lambda>_. mccl_queue_drain)))"

definition metal_scale_inplace_view :: "MPSBufferView \<Rightarrow> scalar_type \<Rightarrow> u32 \<Rightarrow> scale_value \<Rightarrow> kernel_cache \<Rightarrow> unit kres" where
  "metal_scale_inplace_view v dt cnt scale =
     andThen initialized (\<lambda>_. andThen (some_pipeline ''scale pipeline'' dt (\<lambda>c. select_pipeline c Scale dt)) (\<lambda>k.
     andThen (encode \<lparr>l_pipeline = k, l_dst = v, l_src = None, l_scale = Some (to_scale_arg_view dt scale), l_count = cnt,
       l_aligned = None, l_grid = (unat cnt + 7) div 8\<rparr>)
       (\<lambda>_. mccl_queue_drain)))"

text \<open>The batch of \<open>reduce_scatter\<close> and \<open>_reduce_scatter_base\<close> (\<open>ProcessGroupMCCL.cpp\<close>): one reduction per peer, the scaling of an average.\<close>

definition reduce_batch :: "platform \<Rightarrow> tensor \<Rightarrow> tensor list \<Rightarrow> c10d_op \<Rightarrow> scale_value \<Rightarrow> kernel_cache \<Rightarrow> unit kres" where
  "reduce_batch pf out peers op scale =
     andThen metal_begin_batch (\<lambda>_. andThen (forEach peers (\<lambda>t. metal_reduce_op pf out t op)) (\<lambda>_.
     andThen (if op = Op RedAVG then metal_scale_inplace pf out scale else ret ()) (\<lambda>_. metal_end_batch)))"

section \<open>The kernels implement the reductions of the collectives\<close>

text \<open>
  The tensor after a reduction kernel: the kernel's destination pointer is \<open>off\<close> elements into the tensor, its source is the received message.
\<close>

definition kernel_reduce :: "('a \<Rightarrow> 'a \<Rightarrow> 'a) \<Rightarrow> bool \<Rightarrow> nat list \<Rightarrow> nat \<Rightarrow> nat \<Rightarrow> 'a list \<Rightarrow> 'a list \<Rightarrow> 'a list" where
  "kernel_reduce f algn gids off len msg t =
     (let dev = run_grid (binary_kernel f (\<lambda>i. msg ! i) (word_of_nat len) algn) gids (\<lambda>i. t ! (off + i)) in
      map (\<lambda>i. if off \<le> i then dev (i - off) else t ! i) [0..<length t])"

text \<open>
  C8. The GPU does what the round programs of the collectives assume of it: launched with the grid that \<open>compute_dispatch\<close> computes, its threads in any order, a kernel
  turns the tensor into what \<open>ReduceInto\<close> specifies, changing the \<open>len\<close> elements from \<open>off\<close> on and nothing else, for up to \<open>2 ^ 32 - 8\<close> elements.
\<close>

theorem kernel_refines_reduce:
  assumes "len \<le> 2 ^ 32 - 8" and "off + len \<le> length t" and "length msg = len"
    and "distinct gids" and "set gids = {..<fst (compute_dispatch simd max_tg (word_of_nat len))}"
  shows "kernel_reduce f algn gids off len msg t = apply_recv f (ReduceInto off len) msg t"
proof -
  have u: "unat (word_of_nat len :: u32) = len" using assms(1) by (simp add: unsigned_of_nat take_bit_nat_eq_self)
  have dev: "run_grid (binary_kernel f (\<lambda>i. msg ! i) (word_of_nat len) algn) gids (\<lambda>i. t ! (off + i)) =
      (\<lambda>i. if i < len then f (t ! (off + i)) (msg ! i) else t ! (off + i))"
    using kernel_elementwise [of "word_of_nat len" gids f "\<lambda>i. msg ! i" algn "\<lambda>i. t ! (off + i)"] assms by (simp add: u compute_dispatch_def)
  show ?thesis
  proof (rule nth_equalityI)
    show "length (kernel_reduce f algn gids off len msg t) = length (apply_recv f (ReduceInto off len) msg t)"
      using assms(2, 3) by (simp add: kernel_reduce_def length_slice Let_def)
    fix i assume "i < length (kernel_reduce f algn gids off len msg t)"
    then have i: "i < length t" by (simp add: kernel_reduce_def Let_def)
    then show "kernel_reduce f algn gids off len msg t ! i = apply_recv f (ReduceInto off len) msg t ! i"
      using assms(2, 3) by (auto simp: kernel_reduce_def Let_def dev nth_overwrite length_slice nth_slice)
  qed
qed

theorem kernel_refines_reduce_witness:
  "kernel_reduce (+) True [1, 0] 1 9 [10, 20, 30, 40, 50, 60, 70, 80, 90] [0, 1, 2, 3, 4, 5, 6, 7, 8, 9, 10 :: nat] =
   [0, 11, 22, 33, 44, 55, 66, 77, 88, 99, 10]"
proof -
  have "set [1, 0] = {..<fst (compute_dispatch 32 1024 (word_of_nat 9))}" by (auto simp: compute_dispatch_def)
  then show ?thesis
    using kernel_refines_reduce [of 9 1 "[0, 1, 2, 3, 4, 5, 6, 7, 8, 9, 10 :: nat]" "[10, 20, 30, 40, 50, 60, 70, 80, 90]" "[1, 0]" 32 1024 "(+)" True]
    by (simp add: overwrite_def slice_def)
qed

text \<open>A vector access of an aligned launch is aligned: its byte address is a multiple of the size of four elements.\<close>

lemma aligned_access:
  assumes "is_vector_aligned v dt" and "dt \<in> {kFloat, kHalf, kBFloat16}" and "esize = (if dt = kFloat then 4 else 2)"
  shows "(4 * esize) dvd (byte_offset v + 4 * esize * i)"
  using assms by (auto simp: is_vector_aligned_def vector_alignment_def)

section \<open>Views in the allreduce algorithms\<close>

text \<open>\<open>view_at\<close> and \<open>byte_ptr\<close> of \<open>csrc/backend/AllreduceAlgos.cpp\<close>.\<close>

definition view_at :: "MPSBufferView \<Rightarrow> nat \<Rightarrow> MPSBufferView" where
  "view_at v off = v\<lparr>byte_offset := byte_offset v + off, view_nbytes := view_nbytes v - off, cpu_ptr := map_option (\<lambda>p. p + off) (cpu_ptr v)\<rparr>"

definition byte_ptr :: "MPSBufferView \<Rightarrow> nat \<Rightarrow> mccl_error + nat" where
  "byte_ptr v off =
     (case cpu_ptr v of
        None \<Rightarrow> Inl (MCCLError ''AllreduceAlgos requires shared (cpu-accessible) MTLBuffer storage'')
      | Some p \<Rightarrow> Inr (p + off))"

text \<open>
  The pointer of a chunk and the kernel's view of it designate the same bytes; for a tensor in private storage there is no pointer.
\<close>

lemma byte_ptr_view_at:
  assumes "tensor_in t (Shared a)" and "extract_mps_buffer pf t = Inr v"
  shows "byte_ptr (view_at v off) 0 = byte_ptr v off"
    "byte_ptr v off = Inr (a + byte_offset (view_at v off))" "mtl_buffer (view_at v off) = Shared a"
  using assms by (auto simp: extract_mps view_at_def byte_ptr_def)

lemma byte_ptr_private:
  assumes "tensor_in t (Private h)" and "extract_mps_buffer pf t = Inr v"
  shows "byte_ptr v off = Inl (MCCLError ''AllreduceAlgos requires shared (cpu-accessible) MTLBuffer storage'')"
  using assms by (auto simp: extract_mps byte_ptr_def)

section \<open>Batches\<close>

text \<open>What encoding does to the cache: the launches join the open batch, or the queue.\<close>

definition append_launches :: "launch list \<Rightarrow> kernel_cache \<Rightarrow> kernel_cache" where
  "append_launches ls c =
     (case kc_batch c of Some b \<Rightarrow> c\<lparr>kc_batch := Some (b @ ls)\<rparr> | None \<Rightarrow> c\<lparr>kc_queue := kc_queue c @ ls\<rparr>)"

lemma append_launches_simps [simp]:
  "append_launches [] c = c" "append_launches ls' (append_launches ls c) = append_launches (ls @ ls') c"
  "kc_initialized (append_launches ls c) = kc_initialized c" "kc_pipelines (append_launches ls c) = kc_pipelines c"
  by (simp_all add: append_launches_def split: option.split)

lemma encode_append: "encode l c = (Inr (), append_launches [l] c)"
  by (simp add: encode_def append_launches_def split: option.split)

text \<open>An operation either fails and changes nothing, or encodes one launch; which, depends only on the pipelines.\<close>

definition one_launch :: "(kernel_cache \<Rightarrow> unit kres) \<Rightarrow> bool" where
  "one_launch m \<longleftrightarrow> (\<forall>c. (\<exists>e. m c = (Inl e, c)) \<or> (\<exists>l. m c = (Inr (), append_launches [l] c)))"

lemma one_launch_encode: "one_launch (encode l)"
  by (auto simp: one_launch_def encode_append)

lemma one_launch_throw: "one_launch (throw e)"
  by (simp add: one_launch_def throw_def)

text \<open>A check in front of it: something that leaves the cache alone.\<close>

lemma one_launch_andThen:
  assumes "\<And>c. snd (m c) = c" and "\<And>a. one_launch (f a)"
  shows "one_launch (andThen m f)"
  unfolding one_launch_def
proof
  fix c
  obtain r c' where r: "m c = (r, c')" by fastforce
  with assms(1) [of c] have [simp]: "c' = c" by simp
  show "(\<exists>e. andThen m f c = (Inl e, c)) \<or> (\<exists>l. andThen m f c = (Inr (), append_launches [l] c))"
    using r assms(2) by (cases r) (auto simp: andThen_def one_launch_def)
qed

lemma keeps_cache [simp]: "snd (initialized c) = c" "snd (lift_res r c) = c" "snd (some_pipeline msg dt sel c) = c"
  by (simp_all add: initialized_def check_that_def lift_res_def some_pipeline_def split: option.split)

lemmas one_launch_intros = one_launch_andThen one_launch_encode one_launch_throw keeps_cache

lemma one_launch_reduce: "one_launch (metal_reduce_op pf dst src op)"
  by (cases "(pf, dst, src, op)" rule: metal_reduce_op.cases)
    (auto simp: metal_accumulate_chunk_def metal_elementwise_def dispatch_binary_op_def intro!: one_launch_intros)

lemma one_launch_scale: "one_launch (metal_scale_inplace pf t v)"
  by (auto simp: metal_scale_inplace_def intro!: one_launch_intros)

lemma forEach_launches:
  assumes "\<And>x. one_launch (f x)"
  shows "(\<exists>e ls. forEach xs f c = (Inl e, append_launches ls c)) \<or>
     (\<exists>ls. forEach xs f c = (Inr (), append_launches ls c) \<and> length ls = length xs)"
proof (induction xs arbitrary: c)
  case (Cons x xs)
  consider e where "f x c = (Inl e, c)" | l where "f x c = (Inr (), append_launches [l] c)"
    using assms [of x] unfolding one_launch_def by blast
  then show ?case
  proof cases
    case 1
    then have "forEach (x # xs) f c = (Inl e, append_launches [] c)" by simp
    then show ?thesis by blast
  next
    case 2
    then show ?thesis using Cons.IH [of "append_launches [l] c"] by fastforce
  qed
qed simp

text \<open>
  The batch as a whole. Either it succeeds, and one launch per peer, and one for the scaling of an average, has been committed, in order; or it fails
  with the batch left open.
\<close>

lemma reduce_batch_cases:
  assumes "kc_batch c = None" and "kc_initialized c"
  shows "(\<exists>ls. reduce_batch pf out peers op v c = (Inr (), c\<lparr>kc_queue := kc_queue c @ ls\<rparr>) \<and>
       length ls = length peers + (if op = Op RedAVG then 1 else 0)) \<or>
     (\<exists>e ls. reduce_batch pf out peers op v c = (Inl e, c\<lparr>kc_batch := Some ls\<rparr>))"
proof -
  let ?c = "c\<lparr>kc_batch := Some []\<rparr>" and ?scale = "if op = Op RedAVG then metal_scale_inplace pf out v else ret ()"
  have app: "append_launches ls ?c = c\<lparr>kc_batch := Some ls\<rparr>" for ls by (simp add: append_launches_def)
  have unchanged: "c\<lparr>kc_batch := None, kc_queue := q\<rparr> = c\<lparr>kc_queue := q\<rparr>" for q using assms(1) by (cases c) simp
  have begin_ok: "metal_begin_batch c = (Inr (), ?c)" using assms by (simp add: metal_begin_batch_def)
  consider (fails) e ls where "forEach peers (\<lambda>t. metal_reduce_op pf out t op) ?c = (Inl e, c\<lparr>kc_batch := Some ls\<rparr>)"
    | (ok) ls where "forEach peers (\<lambda>t. metal_reduce_op pf out t op) ?c = (Inr (), c\<lparr>kc_batch := Some ls\<rparr>)" "length ls = length peers"
    using forEach_launches [of "\<lambda>t. metal_reduce_op pf out t op" peers ?c, OF one_launch_reduce] by (auto simp: app)
  then show ?thesis
  proof cases
    case fails
    with begin_ok show ?thesis by (auto simp: reduce_batch_def andThen_def)
  next
    case ok
    consider e where "?scale (c\<lparr>kc_batch := Some ls\<rparr>) = (Inl e, c\<lparr>kc_batch := Some ls\<rparr>)"
      | l where "op = Op RedAVG" "?scale (c\<lparr>kc_batch := Some ls\<rparr>) = (Inr (), c\<lparr>kc_batch := Some (ls @ [l])\<rparr>)"
      | "op \<noteq> Op RedAVG" "?scale (c\<lparr>kc_batch := Some ls\<rparr>) = (Inr (), c\<lparr>kc_batch := Some ls\<rparr>)"
      using one_launch_scale [of pf out v, unfolded one_launch_def, rule_format, of "c\<lparr>kc_batch := Some ls\<rparr>"]
      by (cases "op = Op RedAVG") (auto simp: append_launches_def ret_def)
    then show ?thesis
    proof cases
      case 1
      with begin_ok ok show ?thesis by (auto simp: reduce_batch_def andThen_def)
    next
      case (2 l)
      then have "reduce_batch pf out peers op v c = (Inr (), c\<lparr>kc_batch := None, kc_queue := kc_queue c @ (ls @ [l])\<rparr>)"
        using begin_ok ok by (simp add: reduce_batch_def andThen_def metal_end_batch_def)
      then show ?thesis using 2(1) ok(2) unfolding unchanged by (intro disjI1 exI [of _ "ls @ [l]"]) simp
    next
      case 3
      then have "reduce_batch pf out peers op v c = (Inr (), c\<lparr>kc_batch := None, kc_queue := kc_queue c @ ls\<rparr>)"
        using begin_ok ok by (simp add: reduce_batch_def andThen_def metal_end_batch_def)
      then show ?thesis using 3(1) ok(2) unfolding unchanged by (intro disjI1 exI [of _ ls]) simp
    qed
  qed
qed

text \<open>
  A reduction that fails leaves the GPU pipeline poisoned: if the batch of a \<open>reduce_scatter\<close> raises an exception, every later batch raises ``already
  active'', and every later reduction of an \<open>allreduce\<close> that does not itself raise returns without its kernel having run: it was added to the batch that nobody
  commits.
\<close>

theorem failed_batch_poisons:
  assumes "kc_batch c = None" and "reduce_batch pf out peers op v c = (Inl e, c')" and "kc_initialized c"
  shows "reduce_batch pf' out' peers' op' v' c' = (Inl (MCCLError ''Metal batch already active''), c') \<and>
     (\<forall>c''. metal_reduce_op_view dv sv dt cnt op'' c' = (Inr (), c'') \<longrightarrow>
        kc_done c'' = kc_done c' @ kc_queue c' \<and> kc_queue c'' = [] \<and> kc_batch c'' \<noteq> None)"
proof -
  obtain ls where c': "c' = c\<lparr>kc_batch := Some ls\<rparr>"
    using reduce_batch_cases [OF assms(1, 3), of pf out peers op v] assms(2) by auto
  then have "reduce_batch pf' out' peers' op' v' c' = (Inl (MCCLError ''Metal batch already active''), c')"
    using assms(3) by (simp add: reduce_batch_def andThen_def metal_begin_batch_def)
  moreover have "kc_done c'' = kc_done c' @ kc_queue c' \<and> kc_queue c'' = [] \<and> kc_batch c'' \<noteq> None"
    if "metal_reduce_op_view dv sv dt cnt op'' c' = (Inr (), c'')" for c''
    using that assms(3) unfolding c'
    by (auto simp: metal_reduce_op_view_def andThen_def initialized_def check_that_def some_pipeline_def encode_def mccl_queue_drain_def
        split: option.splits)
  ultimately show ?thesis by blast
qed

text \<open>
  Integer tensors pass the tensor checks, but there is no kernel for them: sums are refused, while minimum, maximum and product run the \<open>bf16\<close> kernel on
  the integers' bytes.
\<close>

lemma integer_kernels:
  assumes "dt \<in> {kDouble, kLong, kInt, kShort, kChar, kByte, kBool}"
  shows "supported_dtype dt" "select_op_pipeline c dt (Op RedSUM) = None" "select_op_pipeline c dt (Op RedAVG) = None"
    "(MinK, BF16) \<in> set (kc_pipelines c) \<Longrightarrow> select_op_pipeline c dt (Op RedMIN) = Some (MinK, BF16)"
    "(MaxK, BF16) \<in> set (kc_pipelines c) \<Longrightarrow> select_op_pipeline c dt (Op RedMAX) = Some (MaxK, BF16)"
    "(ProductK, BF16) \<in> set (kc_pipelines c) \<Longrightarrow> select_op_pipeline c dt (Op RedPRODUCT) = Some (ProductK, BF16)"
  using assms by (auto simp: supported_dtype_def select_pipeline_def select_elementwise_def cached_pipeline_def)

text \<open>The two scaling paths disagree for \<open>bf16\<close>: a third is \<open>0x3EAB\<close> rounded to nearest, as PyTorch does, and \<open>0x3EAA\<close> cut off.\<close>

lemma scale_paths_differ:
  assumes "as_float v = 0x3EAAAAAB" and "as_bfloat v = 0x3EAB"
  shows "to_scale_arg_view kBFloat16 v = ScaleBF16 0x3EAA" "to_scale_arg kBFloat16 v \<noteq> to_scale_arg_view kBFloat16 v"
proof -
  have "(ucast (drop_bit 16 (0x3EAAAAAB :: u32)) :: u16) = 0x3EAA" by simp
  then show "to_scale_arg_view kBFloat16 v = ScaleBF16 0x3EAA" by (simp add: to_scale_arg_view_def assms)
  then show "to_scale_arg kBFloat16 v \<noteq> to_scale_arg_view kBFloat16 v" by (simp add: to_scale_arg_def assms)
qed

section \<open>Initialisation\<close>

lemma map_res_mem: "map_res f xs = Inr ys \<Longrightarrow> x \<in> set xs \<Longrightarrow> \<exists>y \<in> set ys. f x = Inr y"
  by (induction xs arbitrary: ys) (auto split: sum.splits)

lemma map_res_from: "map_res f xs = Inr ys \<Longrightarrow> y \<in> set ys \<Longrightarrow> \<exists>x \<in> set xs. f x = Inr y"
  by (induction xs arbitrary: ys) (auto split: sum.splits)

text \<open>
  After a successful initialisation every \<open>f32\<close> and \<open>f16\<close> kernel has a pipeline, and a \<open>bf16\<close> kernel has one exactly if the library contains the function; so reductions and
  scalings of \<open>kFloat\<close> and \<open>kHalf\<close> tensors always find theirs.
\<close>

lemma init_pipelines:
  assumes "metal_kernels_init env c = (Inr (), c')" and "\<not> kc_initialized c"
  shows "kc_initialized c'" "e \<noteq> BF16 \<Longrightarrow> (k, e) \<in> set (kc_pipelines c')"
    "(k, BF16) \<in> set (kc_pipelines c') \<longleftrightarrow> se_function env (kernel_name (k, BF16))"
proof -
  obtain ks where ks: "map_res (\<lambda>k. if snd k = BF16 then make_pipeline_if_present env k else make_pipeline env k) all_pipelines = Inr ks"
      "c' = c\<lparr>kc_initialized := True, kc_pipelines := concat ks\<rparr>"
    using assms by (auto simp: metal_kernels_init_def split: if_splits sum.splits)
  have all: "(k, e) \<in> set all_pipelines" for k e by (cases k; cases e) (simp_all add: all_pipelines_def)
  show "kc_initialized c'" using ks(2) by simp
  show "(k, e) \<in> set (kc_pipelines c')" if "e \<noteq> BF16"
    using map_res_mem [OF ks(1) all, of k e] that ks(2) by (force simp: make_pipeline_def split: if_splits option.splits)
  show "(k, BF16) \<in> set (kc_pipelines c') \<longleftrightarrow> se_function env (kernel_name (k, BF16))"
  proof
    assume "(k, BF16) \<in> set (kc_pipelines c')"
    then obtain y where y: "y \<in> set ks" "(k, BF16) \<in> set y" using ks(2) by auto
    then show "se_function env (kernel_name (k, BF16))"
      using map_res_from [OF ks(1) y(1)] by (auto simp: make_pipeline_def make_pipeline_if_present_def split: if_splits option.splits)
  next
    assume "se_function env (kernel_name (k, BF16))"
    then show "(k, BF16) \<in> set (kc_pipelines c')"
      using map_res_mem [OF ks(1) all, of k BF16] ks(2) by (force simp: make_pipeline_def make_pipeline_if_present_def split: if_splits option.splits)
  qed
qed

fun op_kind :: "RedOpType \<Rightarrow> kernel_kind" where
  "op_kind RedSUM = Accumulate"
| "op_kind RedAVG = Accumulate"
| "op_kind RedMIN = MinK"
| "op_kind RedMAX = MaxK"
| "op_kind RedPRODUCT = ProductK"

definition dtype_format :: "scalar_type \<Rightarrow> elem_format option" where
  "dtype_format dt = (if dt = kFloat then Some F32 else if dt = kHalf then Some F16 else if dt = kBFloat16 then Some BF16 else None)"


definition full_env :: shader_env where
  "full_env = \<lparr>se_device = True, se_queue = True, DISTRO_SHADER_PATH = None, se_so_dir = Some ''/lib'', se_bundle = None, se_exists = (\<lambda>_. True), se_loads = (\<lambda>_. True),
     se_reads = (\<lambda>_. True), se_compiles = True, se_function = (\<lambda>_. True), se_builds = (\<lambda>_. None)\<rparr>"

definition new_cache :: kernel_cache where
  "new_cache = \<lparr>kc_initialized = False, kc_pipelines = [], kc_batch = None, kc_queue = [], kc_done = []\<rparr>"


section \<open>Examples\<close>

definition sample_cache :: kernel_cache where
  "sample_cache = \<lparr>kc_initialized = True, kc_pipelines = all_pipelines, kc_batch = None, kc_queue = [], kc_done = []\<rparr>"

definition int_tensor :: tensor where
  "int_tensor = \<lparr>t_meta = \<lparr>device = MPS, is_contiguous = True, dtype = kInt, sizes = [2], element_size = 4\<rparr>,
     t_buffer = Some (Shared 64), t_storage_offset = 0, t_data = 0\<rparr>"

definition sample_view :: MPSBufferView where
  "sample_view = \<lparr>mtl_buffer = Shared 64, byte_offset = 0, view_nbytes = 8, cpu_ptr = Some 64\<rparr>"

definition third :: scale_value where
  "third = \<lparr>as_float = 0x3EAAAAAB, as_half = 0x3555, as_bfloat = 0x3EAB\<rparr>"

lemma sample_batch_fails:
  "reduce_batch sample_platform int_tensor [int_tensor] (Op RedSUM) third sample_cache =
     (Inl (MCCLError ''No Metal accumulate pipeline for dtype Int''), sample_cache\<lparr>kc_batch := Some []\<rparr>)"
  by (simp add: reduce_batch_def andThen_def metal_begin_batch_def sample_cache_def metal_accumulate_chunk_def initialized_def check_that_def
      lift_res_def int_tensor_def check_same_shape_dtype_def distro_check_tensor_def extract_mps_buffer_def check_single_tensor_def
      supported_dtype_def tensor_numel_def safe_numel_def some_pipeline_def select_pipeline_def Let_def)

theorem failed_batch_poisons_witness:
  "\<exists>c''. metal_reduce_op_view sample_view sample_view kFloat 2 (Op RedSUM) (sample_cache\<lparr>kc_batch := Some []\<rparr>) = (Inr (), c'') \<and> kc_done c'' = []"
proof -
  have c: "kc_batch sample_cache = None" "kc_initialized sample_cache" "kc_done sample_cache = []" "kc_queue sample_cache = []"
    by (simp_all add: sample_cache_def)
  have "cached_pipeline (sample_cache\<lparr>kc_batch := Some []\<rparr>) Accumulate F32 = Some (Accumulate, F32)"
    by (simp add: cached_pipeline_def sample_cache_def all_pipelines_def)
  then have "\<exists>c''. metal_reduce_op_view sample_view sample_view kFloat 2 (Op RedSUM) (sample_cache\<lparr>kc_batch := Some []\<rparr>) = (Inr (), c'')"
    using c by (simp add: metal_reduce_op_view_def andThen_def initialized_def check_that_def some_pipeline_def select_pipeline_def encode_def mccl_queue_drain_def)
  with failed_batch_poisons [OF c(1) sample_batch_fails c(2), of sample_platform int_tensor "[]" "Op RedSUM" third sample_view sample_view kFloat 2 "Op RedSUM"] c
  show ?thesis by auto
qed

end
