(* ===== verification/Event_Sync.thy ===== *)
theory Event_Sync
  imports Errors
begin

text \<open>
  Ordering of collectives after the GPU work that produces their tensors: \<open>csrc/metal/EventSync.mm\<close>, \<open>mps_event_sync_nonblocking\<close> and
  \<open>mps_event_sync\<close> of \<open>csrc/metal/MPSInterop.mm\<close>, and their use in \<open>async_submit_\<close> (\<open>csrc/backend/ProcessGroupMCCL.cpp\<close>). PyTorch's MPS stream is a
  sequence of operations that complete in order: \<open>issued\<close> counts those encoded so far, \<open>finished\<close> those that have completed. An event that is
  recorded stands for the operations issued before it; synchronising with it waits until they are complete.
\<close>

section \<open>State and operations\<close>

record event_state =
  es_initialized :: bool
  es_counter :: u64
  es_pending :: "u64 \<rightharpoonup> nat"
  es_mccl_value :: u64
  es_encoded :: "u64 list"
  issued :: nat
  finished :: nat

definition initial_events :: event_state where
  "initial_events = \<lparr>es_initialized = False, es_counter = 0, es_pending = Map.empty, es_mccl_value = 0, es_encoded = [], issued = 0, finished = 0\<rparr>"

text \<open>The arguments say whether there is a device and whether each of the two shared events is created.\<close>

definition event_sync_init :: "bool \<Rightarrow> bool \<Rightarrow> bool \<Rightarrow> event_state \<Rightarrow> event_state" where
  "event_sync_init dev mps_event mccl_event s =
     (if es_initialized s then s
      else if \<not> dev then s
      else if \<not> mps_event then s
      else if \<not> mccl_event then s
      else s\<lparr>es_counter := 0, es_initialized := True\<rparr>)"

definition event_sync_available :: "event_state \<Rightarrow> bool" where
  "event_sync_available s = es_initialized s"

definition next_event_value :: "event_state \<Rightarrow> u64 \<times> event_state" where
  "next_event_value s = (es_counter s + 1, s\<lparr>es_counter := es_counter s + 1\<rparr>)"

text \<open>\<open>emplace\<close> keeps an entry that is there already.\<close>

definition commit_mps_and_signal :: "u64 \<Rightarrow> event_state \<Rightarrow> (mccl_error, event_state, unit) res" where
  "commit_mps_and_signal v s =
     (if \<not> es_initialized s then (Inl (MCCLError ''EventSync not initialized''), s)
      else (Inr (), if es_pending s v = None then s\<lparr>es_pending := (es_pending s)(v \<mapsto> issued s)\<rparr> else s))"

definition wait_for_mps :: "u64 \<Rightarrow> event_state \<Rightarrow> event_state" where
  "wait_for_mps v s =
     (case es_pending s v of
        None \<Rightarrow> s
      | Some pos \<Rightarrow> s\<lparr>es_pending := (es_pending s)(v := None), finished := max (finished s) pos\<rparr>)"

definition mps_stream_sync :: "event_state \<Rightarrow> event_state" where
  "mps_stream_sync s = s\<lparr>finished := issued s\<rparr>"

definition signal_mccl_done :: "u64 \<Rightarrow> event_state \<Rightarrow> (mccl_error, event_state, unit) res" where
  "signal_mccl_done v s =
     (if \<not> es_initialized s then (Inl (MCCLError ''EventSync not initialized''), s) else (Inr (), s\<lparr>es_mccl_value := v\<rparr>))"

text \<open>
  \<open>signal_mccl_done_gpu\<close> commits a command buffer that sets the value of the event; the queue of the library executes its buffers in order (\<open>gpu_signals\<close>).
\<close>

definition signal_mccl_done_gpu :: "u64 \<Rightarrow> event_state \<Rightarrow> (mccl_error, event_state, unit) res" where
  "signal_mccl_done_gpu v s =
     (if \<not> es_initialized s then (Inl (MCCLError ''EventSync not initialized''), s) else (Inr (), s\<lparr>es_encoded := es_encoded s @ [v]\<rparr>))"

definition gpu_signals :: "event_state \<Rightarrow> event_state" where
  "gpu_signals s = (case es_encoded s of [] \<Rightarrow> s | v # vs \<Rightarrow> s\<lparr>es_encoded := vs, es_mccl_value := v\<rparr>)"

text \<open>Once the queue has executed everything, the event has the value that was encoded last.\<close>

lemma gpu_signals_drain:
  assumes "es_encoded s = vs"
  shows "es_mccl_value ((gpu_signals ^^ length vs) s) = last (es_mccl_value s # vs) \<and> es_encoded ((gpu_signals ^^ length vs) s) = []"
  using assms
proof (induction vs arbitrary: s)
  case (Cons v vs)
  have "gpu_signals s = s\<lparr>es_encoded := vs, es_mccl_value := v\<rparr>" using Cons.prems by (simp add: gpu_signals_def)
  then show ?case using Cons.IH [of "gpu_signals s"] by (simp add: funpow_swap1)
qed simp

text \<open>The setting \<open>DISTRO_EVENT_SYNC\<close>.\<close>

definition force_stream_sync :: "string option \<Rightarrow> bool" where
  "force_stream_sync env = (case env of Some v \<Rightarrow> v \<in> {''0'', ''false'', ''no''} | None \<Rightarrow> False)"

definition mps_event_sync_nonblocking :: "bool \<Rightarrow> event_state \<Rightarrow> (mccl_error, event_state, u64) res" where
  "mps_event_sync_nonblocking force s =
     (if \<not> force \<and> event_sync_available s
      then let (v, s1) = next_event_value s in
        (case commit_mps_and_signal v s1 of (Inl e, s2) \<Rightarrow> (Inl e, s2) | (Inr _, s2) \<Rightarrow> (Inr v, s2))
      else (Inr 0, mps_stream_sync s))"

definition mps_event_sync :: "bool \<Rightarrow> event_state \<Rightarrow> (mccl_error, event_state, unit) res" where
  "mps_event_sync force s =
     (case mps_event_sync_nonblocking force s of
        (Inl e, s1) \<Rightarrow> (Inl e, s1)
      | (Inr v, s1) \<Rightarrow> (Inr (), if 0 < v then wait_for_mps v s1 else s1))"

section \<open>Waiting for a shared event\<close>

text \<open>
  \<open>spin_wait_event\<close>: \<open>polls\<close> are the values read in the two polling phases, then each element of \<open>slow\<close> is one iteration of the backing-off loop, the value read and
  whether the deadline has passed after the sleep. \<^term>\<open>None\<close>: still waiting at the end of the given readings.
\<close>

definition FAST_SPINS :: nat where "FAST_SPINS = 200"

definition YIELD_SPINS :: nat where "YIELD_SPINS = 2000"

fun slow_wait :: "u64 \<Rightarrow> (u64 \<times> bool \<times> u64) list \<Rightarrow> (mccl_error + unit) option" where
  "slow_wait target [] = None"
| "slow_wait target ((v, expired, now) # rs) =
     (if target \<le> v then Some (Inr ())
      else if expired
      then Some (Inl (MCCLError (''spin_wait_event timed out after 30s waiting for event value '' @ to_string (unat target) @
        '' (current='' @ to_string (unat now) @ '')'')))
      else slow_wait target rs)"

definition spin_wait_event :: "u64 \<Rightarrow> u64 list \<Rightarrow> (u64 \<times> bool \<times> u64) list \<Rightarrow> (mccl_error + unit) option" where
  "spin_wait_event target polls slow =
     (if \<exists>v \<in> set (take (FAST_SPINS + YIELD_SPINS) polls). target \<le> v then Some (Inr ()) else slow_wait target slow)"

definition wait_for_mccl :: "u64 \<Rightarrow> u64 list \<Rightarrow> (u64 \<times> bool \<times> u64) list \<Rightarrow> event_state \<Rightarrow> (mccl_error + unit) option" where
  "wait_for_mccl v polls slow s =
     (if \<not> es_initialized s then Some (Inl (MCCLError ''EventSync not initialized'')) else spin_wait_event v polls slow)"

text \<open>The sleeping time doubles while it is below 500 microseconds.\<close>

fun backoff :: "nat \<Rightarrow> nat" where
  "backoff 0 = 10"
| "backoff (Suc n) = (if backoff n < 500 then backoff n * 2 else backoff n)"

lemma backoff_limit: "6 \<le> n \<Longrightarrow> backoff n = 640"
proof (induction n rule: dec_induct)
  case base
  have "backoff (Suc (Suc (Suc (Suc (Suc (Suc 0)))))) = 640" by simp
  then show ?case by (simp add: numeral_eq_Suc)
qed simp

text \<open>Once the value has been reached the wait returns, and it raises only after the deadline, having read a smaller value.\<close>

lemma slow_wait_ends:
  "(v, expired, now) \<in> set rs \<Longrightarrow> target \<le> v \<or> expired \<Longrightarrow> slow_wait target rs \<noteq> None"
  by (induction rs) (auto split: if_splits)

lemma slow_wait_error:
  "slow_wait target rs = Some (Inl e) \<Longrightarrow> \<exists>v now. (v, True, now) \<in> set rs \<and> v < target"
  by (induction target rs rule: slow_wait.induct) (auto split: if_splits)

section \<open>Collectives run after their producers\<close>

text \<open>
  The issuing thread encodes GPU work and submits collectives; the engine thread takes the submitted tasks in order, waits for the event of a task and then runs its body.
  A task remembers its event value and, for the statement only, how much work had been issued when it was submitted.
\<close>

record sync_task =
  sync_val :: u64
  issued_before :: nat

record pipeline_state =
  events :: event_state
  tasks :: "sync_task list"
  started :: "(sync_task \<times> nat) list"
  submits :: nat

datatype sync_event = EncodeWork nat | GpuProgress nat | SubmitTask | StartTask

text \<open>\<open>async_submit_\<close> on the issuing thread.\<close>

definition submit_task :: "bool \<Rightarrow> pipeline_state \<Rightarrow> pipeline_state" where
  "submit_task force s =
     (case mps_event_sync_nonblocking force (events s) of
        (Inl e, ev) \<Rightarrow> s\<lparr>events := ev\<rparr>
      | (Inr v, ev) \<Rightarrow> s\<lparr>events := ev, tasks := tasks s @ [\<lparr>sync_val = v, issued_before = issued (events s)\<rparr>], submits := Suc (submits s)\<rparr>)"

text \<open>The start of a task on the engine thread; the number of finished operations is noted when the body begins.\<close>

definition start_task :: "pipeline_state \<Rightarrow> pipeline_state" where
  "start_task s =
     (case tasks s of
        [] \<Rightarrow> s
      | t # ts \<Rightarrow>
          let ev = (if 0 < sync_val t then wait_for_mps (sync_val t) (events s) else events s) in
          s\<lparr>events := ev, tasks := ts, started := started s @ [(t, finished ev)]\<rparr>)"

fun sync_step :: "bool \<Rightarrow> sync_event \<Rightarrow> pipeline_state \<Rightarrow> pipeline_state" where
  "sync_step force (EncodeWork n) s = s\<lparr>events := (events s)\<lparr>issued := issued (events s) + n\<rparr>\<rparr>"
| "sync_step force (GpuProgress n) s = s\<lparr>events := (events s)\<lparr>finished := min (issued (events s)) (finished (events s) + n)\<rparr>\<rparr>"
| "sync_step force SubmitTask s = submit_task force s"
| "sync_step force StartTask s = start_task s"

definition initial_pipeline :: "bool \<Rightarrow> pipeline_state" where
  "initial_pipeline avail =
     \<lparr>events = (if avail then event_sync_init True True True initial_events else initial_events), tasks = [], started = [], submits = 0\<rparr>"

definition sync_run :: "bool \<Rightarrow> bool \<Rightarrow> sync_event list \<Rightarrow> pipeline_state" where
  "sync_run force avail es = fold (sync_step force) es (initial_pipeline avail)"

text \<open>
  Every waiting task has its event pending, recorded at its own submission, or needs none because the work was complete; values are those of the counter and distinct.
\<close>

definition task_ok :: "event_state \<Rightarrow> sync_task \<Rightarrow> bool" where
  "task_ok ev t \<longleftrightarrow> issued_before t \<le> issued ev \<and>
     (if sync_val t = 0 then issued_before t \<le> finished ev else es_pending ev (sync_val t) = Some (issued_before t))"

definition sync_inv :: "pipeline_state \<Rightarrow> bool" where
  "sync_inv s \<longleftrightarrow>
     (\<forall>t \<in> set (tasks s). task_ok (events s) t \<and> sync_val t \<le> es_counter (events s)) \<and>
     distinct (filter (\<lambda>v. v \<noteq> 0) (map sync_val (tasks s))) \<and>
     (\<forall>v n. es_pending (events s) v = Some n \<longrightarrow> v \<le> es_counter (events s) \<and> n \<le> issued (events s)) \<and>
     unat (es_counter (events s)) \<le> submits s \<and> finished (events s) \<le> issued (events s) \<and>
     (\<forall>(t, d) \<in> set (started s). issued_before t \<le> d)"

lemma sync_invD:
  assumes "sync_inv s"
  shows "t \<in> set (tasks s) \<Longrightarrow> task_ok (events s) t" "t \<in> set (tasks s) \<Longrightarrow> sync_val t \<le> es_counter (events s)"
    "distinct (filter (\<lambda>v. v \<noteq> 0) (map sync_val (tasks s)))"
    "es_pending (events s) v = Some n \<Longrightarrow> v \<le> es_counter (events s)" "es_pending (events s) v = Some n \<Longrightarrow> n \<le> issued (events s)"
    "unat (es_counter (events s)) \<le> submits s" "finished (events s) \<le> issued (events s)"
    "(t, d) \<in> set (started s) \<Longrightarrow> issued_before t \<le> d"
  using assms by (auto simp: sync_inv_def)

lemma sync_invI:
  assumes "\<And>t. t \<in> set (tasks s) \<Longrightarrow> task_ok (events s) t" and "\<And>t. t \<in> set (tasks s) \<Longrightarrow> sync_val t \<le> es_counter (events s)"
    and "distinct (filter (\<lambda>v. v \<noteq> 0) (map sync_val (tasks s)))"
    and "\<And>v n. es_pending (events s) v = Some n \<Longrightarrow> v \<le> es_counter (events s) \<and> n \<le> issued (events s)"
    and "unat (es_counter (events s)) \<le> submits s" and "finished (events s) \<le> issued (events s)"
    and "\<And>t d. (t, d) \<in> set (started s) \<Longrightarrow> issued_before t \<le> d"
  shows "sync_inv s"
  using assms unfolding sync_inv_def by blast

lemma sync_inv_initial: "sync_inv (initial_pipeline avail)"
  by (simp add: sync_inv_def initial_pipeline_def initial_events_def event_sync_init_def)

lemma task_ok_mono:
  assumes "task_ok ev t" and "issued ev \<le> issued ev'" and "finished ev \<le> finished ev'" and "es_pending ev' (sync_val t) = es_pending ev (sync_val t)"
  shows "task_ok ev' t"
  using assms by (auto simp: task_ok_def split: if_splits)

text \<open>A fresh event value does not occur yet, as long as the counter has not wrapped.\<close>

lemma fresh_value:
  assumes "sync_inv s" and "submits s < 2 ^ 64 - 1"
  shows "es_counter (events s) < es_counter (events s) + 1" "es_pending (events s) (es_counter (events s) + 1) = None"
proof -
  have "unat (es_counter (events s)) + 1 < 2 ^ 64" using assms by (simp add: sync_inv_def)
  then have "unat (es_counter (events s) + 1) = unat (es_counter (events s)) + 1"
    by (simp add: unat_word_ariths take_bit_eq_mod)
  then show lt: "es_counter (events s) < es_counter (events s) + 1" by (simp add: word_less_nat_alt)
  show "es_pending (events s) (es_counter (events s) + 1) = None"
    using sync_invD(4) [OF assms(1), of "es_counter (events s) + 1"] lt by (meson leD not_Some_eq)
qed

lemma submit_event:
  assumes "sync_inv s" and "submits s < 2 ^ 64 - 1" and "\<not> force" and "es_initialized (events s)"
  shows "submit_task force s =
     s\<lparr>events := (events s)\<lparr>es_counter := es_counter (events s) + 1, es_pending := (es_pending (events s))(es_counter (events s) + 1 \<mapsto> issued (events s))\<rparr>,
       tasks := tasks s @ [\<lparr>sync_val = es_counter (events s) + 1, issued_before = issued (events s)\<rparr>], submits := Suc (submits s)\<rparr>"
  using fresh_value [OF assms(1, 2)] assms(3, 4)
  by (simp add: submit_task_def mps_event_sync_nonblocking_def event_sync_available_def next_event_value_def commit_mps_and_signal_def)

lemma sync_inv_submit:
  assumes "sync_inv s" and "submits s < 2 ^ 64 - 1"
  shows "sync_inv (submit_task force s)"
proof (cases "\<not> force \<and> es_initialized (events s)")
  case True
  let ?c = "es_counter (events s)" and ?v = "es_counter (events s) + 1"
  let ?ev = "(events s)\<lparr>es_counter := ?v, es_pending := (es_pending (events s))(?v \<mapsto> issued (events s))\<rparr>"
    and ?t = "\<lparr>sync_val = ?v, issued_before = issued (events s)\<rparr>"
  note fresh = fresh_value [OF assms]
  have le: "x \<le> ?v" "x \<noteq> ?v" if "x \<le> ?c" for x using that fresh(1) by auto
  have old: "task_ok ?ev t" if "t \<in> set (tasks s)" for t
    using le(2) sync_invD(2) [OF assms(1) that] by (intro task_ok_mono [OF sync_invD(1) [OF assms(1) that]]) auto
  have new: "task_ok ?ev ?t" using fresh(1) by (auto simp: task_ok_def)
  have "unat ?v \<le> Suc (submits s)"
    using sync_invD(6) [OF assms(1)] by (simp add: unat_word_ariths take_bit_eq_mod le_trans [OF mod_less_eq_dividend])
  moreover have "distinct (filter (\<lambda>v. v \<noteq> 0) (map sync_val (tasks s @ [?t])))"
    using sync_invD(3) [OF assms(1)] le(2) [OF sync_invD(2) [OF assms(1)]] by fastforce
  moreover have "v \<le> ?v \<and> n \<le> issued (events s)" if "es_pending ?ev v = Some n" for v n
    using that sync_invD(4, 5) [OF assms(1)] le(1) by (auto split: if_splits)
  ultimately have "sync_inv (s\<lparr>events := ?ev, tasks := tasks s @ [?t], submits := Suc (submits s)\<rparr>)"
    using sync_invD(2, 7, 8) [OF assms(1)] old new le(1) by (intro sync_invI) auto
  then show ?thesis using True submit_event [OF assms, of force] by simp
next
  case False
  then have "submit_task force s = s\<lparr>events := mps_stream_sync (events s),
      tasks := tasks s @ [\<lparr>sync_val = 0, issued_before = issued (events s)\<rparr>], submits := Suc (submits s)\<rparr>"
    by (auto simp: submit_task_def mps_event_sync_nonblocking_def event_sync_available_def)
  moreover have "task_ok (mps_stream_sync (events s)) t" if "t \<in> set (tasks s)" for t
    using sync_invD(7) [OF assms(1)] by (intro task_ok_mono [OF sync_invD(1) [OF assms(1) that]]) (simp_all add: mps_stream_sync_def)
  ultimately show ?thesis using assms(1) by (auto simp: sync_inv_def mps_stream_sync_def task_ok_def)
qed

text \<open>A task that starts has waited for its event; the events of the other tasks stay pending.\<close>

lemma sync_inv_start:
  assumes "sync_inv s"
  shows "sync_inv (start_task s)"
proof (cases "tasks s")
  case (Cons t ts)
  note inv = sync_invD [OF assms]
  let ?ev = "if 0 < sync_val t then wait_for_mps (sync_val t) (events s) else events s"
  have t: "task_ok (events s) t" using inv(1) Cons by simp
  have ev: "issued ?ev = issued (events s)" "es_counter ?ev = es_counter (events s)" "finished (events s) \<le> finished ?ev"
    by (simp_all add: wait_for_mps_def split: option.split)
  have pending: "es_pending ?ev v = (if v = sync_val t \<and> 0 < v then None else es_pending (events s) v)" for v
    by (auto simp: wait_for_mps_def split: option.split)
  have fin: "issued_before t \<le> finished ?ev"
    using t by (auto simp: task_ok_def wait_for_mps_def word_neq_0_conv split: if_splits)
  have "finished ?ev \<le> issued (events s)"
    using inv(5, 7) by (auto simp: wait_for_mps_def split: option.split)
  moreover have "task_ok ?ev u" if "u \<in> set ts" for u
  proof -
    have "sync_val u = sync_val t \<Longrightarrow> sync_val t = 0"
      using inv(3) Cons that by (auto split: if_splits) (metis image_eqI)
    then have "es_pending ?ev (sync_val u) = es_pending (events s) (sync_val u)"
      using pending [of "sync_val u"] by auto
    with ev show ?thesis by (intro task_ok_mono [OF inv(1) [of u]]) (auto simp: that Cons)
  qed
  moreover have "distinct (filter (\<lambda>v. v \<noteq> 0) (map sync_val ts))" using inv(3) Cons by (auto split: if_splits)
  moreover have "v \<le> es_counter (events s) \<and> n \<le> issued (events s)" if "es_pending ?ev v = Some n" for v n
    using that pending [of v] inv(4, 5) by (auto split: if_splits)
  ultimately have "sync_inv (s\<lparr>events := ?ev, tasks := ts, started := started s @ [(t, finished ?ev)]\<rparr>)"
    using inv(2, 6, 8) Cons ev fin by (intro sync_invI) auto
  then show ?thesis using Cons by (simp add: start_task_def Let_def)
qed (use assms in \<open>simp add: start_task_def\<close>)

lemma sync_inv_step:
  assumes "sync_inv s" and "submits s < 2 ^ 64 - 1"
  shows "sync_inv (sync_step force e s)"
proof (cases e)
  case (EncodeWork n)
  then show ?thesis using assms(1) by (fastforce simp: sync_inv_def task_ok_def split: if_splits)
next
  case (GpuProgress n)
  then show ?thesis using assms(1) by (fastforce simp: sync_inv_def task_ok_def split: if_splits)
qed (use sync_inv_submit [OF assms] sync_inv_start [OF assms(1)] in simp_all)

lemma submits_step: "submits (sync_step force e s) \<le> submits s + (if e = SubmitTask then 1 else 0)"
  by (cases e) (auto simp: submit_task_def start_task_def Let_def split: prod.split sum.split list.split)

lemma sync_inv_fold:
  "sync_inv s \<Longrightarrow> submits s + length (filter (\<lambda>e. e = SubmitTask) es) < 2 ^ 64 \<Longrightarrow> sync_inv (fold (sync_step force) es s)"
proof (induction es arbitrary: s)
  case (Cons e es)
  have "sync_inv (sync_step force e s)"
  proof (cases "e = SubmitTask")
    case True
    with Cons.prems show ?thesis by (intro sync_inv_step) auto
  next
    case False
    then show ?thesis using Cons.prems(1) sync_inv_start [of s]
      by (cases e) (fastforce simp: sync_inv_def task_ok_def split: if_splits)+
  qed
  moreover have "submits (sync_step force e s) + length (filter (\<lambda>e. e = SubmitTask) es) < 2 ^ 64"
    using Cons.prems(2) submits_step [of force e s] by (auto split: if_splits)
  ultimately show ?case using Cons.IH by simp
qed simp

text \<open>
  C22. A collective never reads a tensor before it is produced: with event synchronisation available or not, enabled or not, and however the issuing thread, the engine
  thread and the GPU interleave, when the body of a submitted task begins, all GPU work that was encoded before the submission has completed (for fewer than
  \<open>2 ^ 64\<close> submissions).
\<close>

theorem body_after_producers:
  assumes "length (filter (\<lambda>e. e = SubmitTask) es) < 2 ^ 64" and "(t, d) \<in> set (started (sync_run force avail es))"
  shows "issued_before t \<le> d"
proof -
  have "sync_inv (sync_run force avail es)"
    unfolding sync_run_def using assms(1) by (intro sync_inv_fold sync_inv_initial) (simp add: initial_pipeline_def)
  then show ?thesis using assms(2) by (rule sync_invD(8))
qed

theorem body_after_producers_witness:
  "started (sync_run False True [EncodeWork 3, SubmitTask, EncodeWork 2, StartTask]) = [(\<lparr>sync_val = 1, issued_before = 3\<rparr>, 3)] \<and>
   (3 :: nat) \<le> 3"
proof -
  have r: "started (sync_run False True [EncodeWork 3, SubmitTask, EncodeWork 2, StartTask]) = [(\<lparr>sync_val = 1, issued_before = 3\<rparr>, 3)]"
    by (simp add: sync_run_def initial_pipeline_def initial_events_def event_sync_init_def submit_task_def mps_event_sync_nonblocking_def
        event_sync_available_def next_event_value_def commit_mps_and_signal_def start_task_def wait_for_mps_def Let_def)
  with body_after_producers [of "[EncodeWork 3, SubmitTask, EncodeWork 2, StartTask]" "\<lparr>sync_val = 1, issued_before = 3\<rparr>" 3 False True]
  show ?thesis by simp
qed

text \<open>
  The event path is never taken: nothing calls \<open>event_sync_init\<close>, so the state is the initial one and every submission waits for the whole stream.
\<close>

lemma never_initialized:
  "mps_event_sync_nonblocking force initial_events = (Inr 0, mps_stream_sync initial_events)"
  by (simp add: mps_event_sync_nonblocking_def event_sync_available_def initial_events_def)

end
