(* ===== verification/Byte_Stream.thy ===== *)
theory Byte_Stream
  imports Peer_Mesh
begin

text \<open>
  What one connection of the mesh does while a collective runs: \<open>PeerMesh::send\<close> and \<open>PeerMesh::recv\<close> with their mutexes, the loops of \<open>write_all\<close> and \<open>read_all\<close> one
  system call at a time, and the two socket buffers between two ranks, which hold at most \<open>cap\<close> bytes in each direction. A rank is a list of threads and a thread a list of
  calls. The collectives use a link in two ways: the ring and the butterfly send on a helper thread while they receive, and the other collectives give each peer one thread that
  sends first and then receives. The connection stays up: a call that moves no byte, for which the code raises, is outside this theory.
\<close>

section \<open>The link\<close>

datatype mesh_call = Send "u8 list" | Recv nat

text \<open>Where a thread is: between two calls, in the loop of \<open>write_all\<close> with the bytes that are left, or in that of \<open>read_all\<close> with the count that is left and the bytes read.\<close>

datatype activity = Idle | Sending "u8 list" | Receiving nat "u8 list"

record thread =
  cur :: activity
  calls :: "mesh_call list"

text \<open>The two ends of the connection, the lower and the higher rank.\<close>

datatype rank_end = Lower | Higher

fun other :: "rank_end \<Rightarrow> rank_end" where
  "other Lower = Higher"
| "other Higher = Lower"

lemma other_simps [simp]: "other (other b) = b" "other b \<noteq> b" "b \<noteq> other b" "c \<noteq> b \<longleftrightarrow> c = other b" "c \<noteq> other b \<longleftrightarrow> c = b"
  by (cases b; cases c; simp)+

lemma all_ends: "(\<forall>c. P c) \<longleftrightarrow> P b \<and> P (other b)"
  by (metis (full_types) other.elims)

text \<open>\<open>wire l b\<close> holds what side \<open>b\<close> has written and the other side has not read. \<open>outbox\<close> and \<open>inbox\<close> record the messages whose sending
  has begun and those received, in order.\<close>

record link =
  side :: "rank_end \<Rightarrow> thread list"
  send_mu :: "rank_end \<Rightarrow> nat option"
  recv_mu :: "rank_end \<Rightarrow> nat option"
  wire :: "rank_end \<Rightarrow> u8 list"
  outbox :: "rank_end \<Rightarrow> u8 list list"
  inbox :: "rank_end \<Rightarrow> u8 list list"

definition set_thread :: "rank_end \<Rightarrow> nat \<Rightarrow> thread \<Rightarrow> link \<Rightarrow> link" where
  "set_thread b i t l = l\<lparr>side := (side l)(b := (side l b)[i := t])\<rparr>"

inductive link_step :: "nat \<Rightarrow> link \<Rightarrow> link \<Rightarrow> bool" for cap where
  send_lock: "\<lbrakk>i < length (side l b); side l b ! i = \<lparr>cur = Idle, calls = Send m # cs\<rparr>; send_mu l b = None\<rbrakk> \<Longrightarrow>
     link_step cap l ((set_thread b i \<lparr>cur = Sending m, calls = cs\<rparr> l)
       \<lparr>send_mu := (send_mu l)(b := Some i), outbox := (outbox l)(b := outbox l b @ [m])\<rparr>)"
| send_some: "\<lbrakk>i < length (side l b); side l b ! i = \<lparr>cur = Sending bs, calls = cs\<rparr>; 0 < k; k \<le> length bs; length (wire l b) + k \<le> cap\<rbrakk> \<Longrightarrow>
     link_step cap l ((set_thread b i \<lparr>cur = Sending (drop k bs), calls = cs\<rparr> l)\<lparr>wire := (wire l)(b := wire l b @ take k bs)\<rparr>)"
| send_return: "\<lbrakk>i < length (side l b); side l b ! i = \<lparr>cur = Sending [], calls = cs\<rparr>\<rbrakk> \<Longrightarrow>
     link_step cap l ((set_thread b i \<lparr>cur = Idle, calls = cs\<rparr> l)\<lparr>send_mu := (send_mu l)(b := None)\<rparr>)"
| recv_lock: "\<lbrakk>i < length (side l b); side l b ! i = \<lparr>cur = Idle, calls = Recv n # cs\<rparr>; recv_mu l b = None\<rbrakk> \<Longrightarrow>
     link_step cap l ((set_thread b i \<lparr>cur = Receiving n [], calls = cs\<rparr> l)\<lparr>recv_mu := (recv_mu l)(b := Some i)\<rparr>)"
| recv_some: "\<lbrakk>i < length (side l b); side l b ! i = \<lparr>cur = Receiving n got, calls = cs\<rparr>; 0 < k; k \<le> n; k \<le> length (wire l (other b))\<rbrakk> \<Longrightarrow>
     link_step cap l ((set_thread b i \<lparr>cur = Receiving (n - k) (got @ take k (wire l (other b))), calls = cs\<rparr> l)
       \<lparr>wire := (wire l)(other b := drop k (wire l (other b)))\<rparr>)"
| recv_return: "\<lbrakk>i < length (side l b); side l b ! i = \<lparr>cur = Receiving 0 got, calls = cs\<rparr>\<rbrakk> \<Longrightarrow>
     link_step cap l ((set_thread b i \<lparr>cur = Idle, calls = cs\<rparr> l)
       \<lparr>recv_mu := (recv_mu l)(b := None), inbox := (inbox l)(b := inbox l b @ [got])\<rparr>)"

definition new_link :: "(rank_end \<Rightarrow> mesh_call list list) \<Rightarrow> link" where
  "new_link P = \<lparr>side = (\<lambda>b. map (\<lambda>cs. \<lparr>cur = Idle, calls = cs\<rparr>) (P b)), send_mu = (\<lambda>_. None), recv_mu = (\<lambda>_. None),
     wire = (\<lambda>_. []), outbox = (\<lambda>_. []), inbox = (\<lambda>_. [])\<rparr>"

definition finished_link :: "link \<Rightarrow> bool" where
  "finished_link l \<longleftrightarrow> (\<forall>b. \<forall>t \<in> set (side l b). t = \<lparr>cur = Idle, calls = []\<rparr>)"

section \<open>The stream\<close>

text \<open>What the thread that holds a mutex has still to write, and what it has read of the current message.\<close>

definition unsent :: "link \<Rightarrow> rank_end \<Rightarrow> u8 list" where
  "unsent l b = (case send_mu l b of Some i \<Rightarrow> (case cur (side l b ! i) of Sending bs \<Rightarrow> bs | _ \<Rightarrow> []) | None \<Rightarrow> [])"

definition partial_msg :: "link \<Rightarrow> rank_end \<Rightarrow> u8 list" where
  "partial_msg l b = (case recv_mu l b of Some i \<Rightarrow> (case cur (side l b ! i) of Receiving n got \<Rightarrow> got | _ \<Rightarrow> []) | None \<Rightarrow> [])"

fun is_sending :: "activity \<Rightarrow> bool" where
  "is_sending (Sending bs) = True"
| "is_sending a = False"

fun is_receiving :: "activity \<Rightarrow> bool" where
  "is_receiving (Receiving n got) = True"
| "is_receiving a = False"

text \<open>A thread is inside a call exactly when it holds the mutex of that direction.\<close>

definition locks_ok :: "link \<Rightarrow> bool" where
  "locks_ok l \<longleftrightarrow> (\<forall>b i. (send_mu l b = Some i \<longrightarrow> i < length (side l b)) \<and> (recv_mu l b = Some i \<longrightarrow> i < length (side l b))) \<and> (\<forall>b i. i < length (side l b) \<longrightarrow>
     (is_sending (cur (side l b ! i)) \<longleftrightarrow> send_mu l b = Some i) \<and> (is_receiving (cur (side l b ! i)) \<longleftrightarrow> recv_mu l b = Some i))"

definition stream_ok :: "nat \<Rightarrow> link \<Rightarrow> bool" where
  "stream_ok cap l \<longleftrightarrow> (\<forall>b. concat (outbox l b) = concat (inbox l (other b)) @ partial_msg l (other b) @ wire l b @ unsent l b \<and> length (wire l b) \<le> cap)"

lemma new_link_ok: "locks_ok (new_link P)" "stream_ok cap (new_link P)"
  by (simp_all add: locks_ok_def stream_ok_def new_link_def unsent_def partial_msg_def)

lemma locks_okD:
  assumes "locks_ok l" and "i < length (side l b)" and "side l b ! i = t"
  shows "send_mu l b = Some i \<longleftrightarrow> is_sending (cur t)" "recv_mu l b = Some i \<longleftrightarrow> is_receiving (cur t)"
  using assms unfolding locks_ok_def by blast+

text \<open>A step changes one thread, and only the mutexes of its side.\<close>

lemma locks_ok_set:
  assumes "locks_ok l" and "i < length (side l b)" and "side l' = (side l)(b := (side l b)[i := t])"
    and "\<And>c. c \<noteq> b \<Longrightarrow> send_mu l' c = send_mu l c \<and> recv_mu l' c = recv_mu l c"
    and "\<And>j. j \<noteq> i \<Longrightarrow> (send_mu l' b = Some j \<longleftrightarrow> send_mu l b = Some j) \<and> (recv_mu l' b = Some j \<longleftrightarrow> recv_mu l b = Some j)"
    and "is_sending (cur t) \<longleftrightarrow> send_mu l' b = Some i" and "is_receiving (cur t) \<longleftrightarrow> recv_mu l' b = Some i"
  shows "locks_ok l'"
proof -
  have "send_mu l' c = Some j \<longrightarrow> j < length (side l' c)" "recv_mu l' c = Some j \<longrightarrow> j < length (side l' c)" for c j
    using assms(1-5) unfolding locks_ok_def by (cases "c = b"; cases "j = i"; simp)+
  moreover have "(is_sending (cur (side l' c ! j)) \<longleftrightarrow> send_mu l' c = Some j) \<and> (is_receiving (cur (side l' c ! j)) \<longleftrightarrow> recv_mu l' c = Some j)"
    if "j < length (side l' c)" for c j
    using that assms unfolding locks_ok_def by (cases "c = b"; cases "j = i"; simp)
  ultimately show ?thesis unfolding locks_ok_def by blast
qed

lemma locks_ok_step: "link_step cap l l' \<Longrightarrow> locks_ok l \<Longrightarrow> locks_ok l'"
proof (induction rule: link_step.induct)
  case (send_lock i l b m cs)
  note me = locks_okD [OF send_lock(4, 1, 2)]
  show ?case by (rule locks_ok_set [OF send_lock(4, 1)]) (use me send_lock in \<open>auto simp: set_thread_def\<close>)
next
  case (send_some i l b bs cs k)
  note me = locks_okD [OF send_some(6, 1, 2)]
  show ?case by (rule locks_ok_set [OF send_some(6, 1)]) (use me send_some in \<open>auto simp: set_thread_def\<close>)
next
  case (send_return i l b cs)
  note me = locks_okD [OF send_return(3, 1, 2)]
  show ?case by (rule locks_ok_set [OF send_return(3, 1)]) (use me send_return in \<open>auto simp: set_thread_def\<close>)
next
  case (recv_lock i l b n cs)
  note me = locks_okD [OF recv_lock(4, 1, 2)]
  show ?case by (rule locks_ok_set [OF recv_lock(4, 1)]) (use me recv_lock in \<open>auto simp: set_thread_def\<close>)
next
  case (recv_some i l b n got cs k)
  note me = locks_okD [OF recv_some(6, 1, 2)]
  show ?case by (rule locks_ok_set [OF recv_some(6, 1)]) (use me recv_some in \<open>auto simp: set_thread_def\<close>)
next
  case (recv_return i l b got cs)
  note me = locks_okD [OF recv_return(3, 1, 2)]
  show ?case by (rule locks_ok_set [OF recv_return(3, 1)]) (use me recv_return in \<open>auto simp: set_thread_def\<close>)
qed

text \<open>What a thread inside a call contributes to the stream.\<close>

lemma unsent_holder:
  "send_mu l b = Some i \<Longrightarrow> side l b ! i = \<lparr>cur = Sending bs, calls = cs\<rparr> \<Longrightarrow> unsent l b = bs"
  "send_mu l b = None \<Longrightarrow> unsent l b = []"
  by (simp_all add: unsent_def)

lemma partial_holder:
  "recv_mu l b = Some i \<Longrightarrow> side l b ! i = \<lparr>cur = Receiving n got, calls = cs\<rparr> \<Longrightarrow> partial_msg l b = got"
  "recv_mu l b = None \<Longrightarrow> partial_msg l b = []"
  by (simp_all add: partial_msg_def)

text \<open>A step of one thread leaves what the other threads hold as it is.\<close>

lemma unsent_set:
  assumes "side l' = (side l)(b := (side l b)[i := t])" and "send_mu l' c = send_mu l c" and "c \<noteq> b \<or> send_mu l b \<noteq> Some i"
  shows "unsent l' c = unsent l c"
  using assms by (auto simp: unsent_def split: option.split)

lemma partial_set:
  assumes "side l' = (side l)(b := (side l b)[i := t])" and "recv_mu l' c = recv_mu l c" and "c \<noteq> b \<or> recv_mu l b \<noteq> Some i"
  shows "partial_msg l' c = partial_msg l c"
  using assms by (auto simp: partial_msg_def split: option.split)

lemma stream_ok_step: "link_step cap l l' \<Longrightarrow> locks_ok l \<Longrightarrow> stream_ok cap l \<Longrightarrow> stream_ok cap l'"
proof (induction rule: link_step.induct)
  case (send_lock i l b m cs)
  let ?l = "(set_thread b i \<lparr>cur = Sending m, calls = cs\<rparr> l)\<lparr>send_mu := (send_mu l)(b := Some i), outbox := (outbox l)(b := outbox l b @ [m])\<rparr>"
  note me = locks_okD [OF send_lock(4, 1, 2)]
  have "partial_msg ?l c = partial_msg l c" for c by (rule partial_set) (use me in \<open>auto simp: set_thread_def\<close>)
  moreover have "unsent ?l c = (if c = b then m else unsent l c)" for c
    using send_lock(1) by (auto simp: unsent_def set_thread_def split: option.split)
  ultimately show ?case using send_lock(5) unsent_holder(2) [OF send_lock(3)] by (auto simp: stream_ok_def set_thread_def all_ends [of _ b])
next
  case (send_some i l b bs cs k)
  let ?l = "(set_thread b i \<lparr>cur = Sending (drop k bs), calls = cs\<rparr> l)\<lparr>wire := (wire l)(b := wire l b @ take k bs)\<rparr>"
  note me = locks_okD [OF send_some(6, 1, 2)]
  have "partial_msg ?l c = partial_msg l c" for c by (rule partial_set) (use me in \<open>auto simp: set_thread_def\<close>)
  moreover have "unsent ?l c = (if c = b then drop k bs else unsent l c)" for c
    using send_some(1) me by (auto simp: unsent_def set_thread_def split: option.split)
  ultimately show ?case using send_some(4, 5, 7) me unsent_holder(1) [OF _ send_some(2)] by (auto simp: stream_ok_def set_thread_def all_ends [of _ b])
next
  case (send_return i l b cs)
  let ?l = "(set_thread b i \<lparr>cur = Idle, calls = cs\<rparr> l)\<lparr>send_mu := (send_mu l)(b := None)\<rparr>"
  note me = locks_okD [OF send_return(3, 1, 2)]
  have "partial_msg ?l c = partial_msg l c" for c by (rule partial_set) (use me in \<open>auto simp: set_thread_def\<close>)
  moreover have "unsent ?l c = unsent l c" for c
    using me unsent_holder(1) [OF _ send_return(2)] by (auto simp: unsent_def set_thread_def split: option.split)
  ultimately show ?case using send_return(4) by (auto simp: stream_ok_def set_thread_def all_ends [of _ b])
next
  case (recv_lock i l b n cs)
  let ?l = "(set_thread b i \<lparr>cur = Receiving n [], calls = cs\<rparr> l)\<lparr>recv_mu := (recv_mu l)(b := Some i)\<rparr>"
  note me = locks_okD [OF recv_lock(4, 1, 2)]
  have "unsent ?l c = unsent l c" for c by (rule unsent_set) (use me in \<open>auto simp: set_thread_def\<close>)
  moreover have "partial_msg ?l c = partial_msg l c" for c
    using recv_lock(1) partial_holder(2) [OF recv_lock(3)] by (auto simp: partial_msg_def set_thread_def split: option.split)
  ultimately show ?case using recv_lock(5) by (auto simp: stream_ok_def set_thread_def all_ends [of _ b])
next
  case (recv_some i l b n got cs k)
  let ?l = "(set_thread b i \<lparr>cur = Receiving (n - k) (got @ take k (wire l (other b))), calls = cs\<rparr> l)\<lparr>wire := (wire l)(other b := drop k (wire l (other b)))\<rparr>"
  note me = locks_okD [OF recv_some(6, 1, 2)]
  have "unsent ?l c = unsent l c" for c by (rule unsent_set) (use me in \<open>auto simp: set_thread_def\<close>)
  moreover have "partial_msg ?l c = (if c = b then got @ take k (wire l (other b)) else partial_msg l c)" for c
    using recv_some(1) me by (auto simp: partial_msg_def set_thread_def split: option.split)
  ultimately show ?case using recv_some(7) me partial_holder(1) [OF _ recv_some(2)] by (auto simp: stream_ok_def set_thread_def all_ends [of _ b])
next
  case (recv_return i l b got cs)
  let ?l = "(set_thread b i \<lparr>cur = Idle, calls = cs\<rparr> l)\<lparr>recv_mu := (recv_mu l)(b := None), inbox := (inbox l)(b := inbox l b @ [got])\<rparr>"
  note me = locks_okD [OF recv_return(3, 1, 2)]
  have "unsent ?l c = unsent l c" for c by (rule unsent_set) (use me in \<open>auto simp: set_thread_def\<close>)
  moreover have "partial_msg ?l c = (if c = b then [] else partial_msg l c)" for c
    by (auto simp: partial_msg_def set_thread_def split: option.split)
  ultimately show ?case using recv_return(4) me partial_holder(1) [OF _ recv_return(2)] by (auto simp: stream_ok_def set_thread_def all_ends [of _ b])
qed

definition reaches :: "nat \<Rightarrow> (rank_end \<Rightarrow> mesh_call list list) \<Rightarrow> link \<Rightarrow> bool" where
  "reaches cap P l \<longleftrightarrow> (link_step cap)\<^sup>*\<^sup>* (new_link P) l"

lemma reaches_ok:
  assumes "reaches cap P l"
  shows "locks_ok l" "stream_ok cap l"
proof -
  from assms have "locks_ok l \<and> stream_ok cap l"
    unfolding reaches_def by (induction rule: rtranclp_induct) (auto simp: new_link_ok locks_ok_step stream_ok_step)
  then show "locks_ok l" "stream_ok cap l" by auto
qed

lemma streamD:
  assumes "reaches cap P l"
  shows "concat (outbox l b) = concat (inbox l (other b)) @ partial_msg l (other b) @ wire l b @ unsent l b" "length (wire l b) \<le> cap"
  using reaches_ok(2) [OF assms] by (auto simp: stream_ok_def)

lemma prefix_of_lengths:
  assumes "prefix (concat xs) (concat ys)" and "prefix (map length xs) (map length ys)"
  shows "prefix xs ys"
  using assms
proof (induction xs arbitrary: ys)
  case (Cons x xs)
  then obtain y ys' where ys: "ys = y # ys'" by (cases ys) auto
  with Cons.prems have len: "length x = length y" by simp
  from Cons.prems(1) ys obtain zs where "y @ concat ys' = x @ concat xs @ zs" by (auto simp: prefix_def)
  then have "take (length x) (y @ concat ys') = take (length x) (x @ concat xs @ zs)" by (rule arg_cong)
  with len have "x = y" by simp
  with Cons ys show ?case by simp
qed simp

section \<open>Every run is bounded\<close>

fun call_work :: "mesh_call \<Rightarrow> nat" where
  "call_work (Send m) = length m + 2"
| "call_work (Recv n) = n + 2"

fun activity_work :: "activity \<Rightarrow> nat" where
  "activity_work Idle = 0"
| "activity_work (Sending bs) = length bs + 1"
| "activity_work (Receiving n got) = n + 1"

definition thread_work :: "thread \<Rightarrow> nat" where
  "thread_work t = activity_work (cur t) + sum_list (map call_work (calls t))"

definition link_work :: "link \<Rightarrow> nat" where
  "link_work l = sum_list (map thread_work (side l Lower)) + sum_list (map thread_work (side l Higher))"

lemma sum_list_update_less:
  fixes f :: "'a \<Rightarrow> nat"
  shows "i < length xs \<Longrightarrow> f t < f (xs ! i) \<Longrightarrow> sum_list (map f (xs[i := t])) < sum_list (map f xs)"
  by (induction xs arbitrary: i) (auto split: nat.split)

lemma work_set:
  assumes "i < length (side l b)" and "thread_work t < thread_work (side l b ! i)" and "side l' = (side l)(b := (side l b)[i := t])"
  shows "link_work l' < link_work l"
  using sum_list_update_less [of i "side l b" thread_work, OF assms(1, 2)] assms(3) by (cases b) (simp_all add: link_work_def)

lemma link_step_work: "link_step cap l l' \<Longrightarrow> link_work l' < link_work l"
proof (induction rule: link_step.induct)
  case (send_lock i l b m cs)
  then show ?case by (intro work_set [OF send_lock(1)]) (simp_all add: thread_work_def set_thread_def)
next
  case (send_some i l b bs cs k)
  then show ?case by (intro work_set [OF send_some(1)]) (simp_all add: thread_work_def set_thread_def)
next
  case (send_return i l b cs)
  then show ?case by (intro work_set [OF send_return(1)]) (simp_all add: thread_work_def set_thread_def)
next
  case (recv_lock i l b n cs)
  then show ?case by (intro work_set [OF recv_lock(1)]) (simp_all add: thread_work_def set_thread_def)
next
  case (recv_some i l b n got cs k)
  then show ?case by (intro work_set [OF recv_some(1)]) (simp_all add: thread_work_def set_thread_def)
next
  case (recv_return i l b got cs)
  then show ?case by (intro work_set [OF recv_return(1)]) (simp_all add: thread_work_def set_thread_def)
qed

lemma link_run_bounded: "(link_step cap ^^ n) l l' \<Longrightarrow> n + link_work l' \<le> link_work l"
proof (induction n arbitrary: l')
  case (Suc n)
  then obtain m where "(link_step cap ^^ n) l m" "link_step cap m l'" by auto
  with Suc.IH [of m] link_step_work [of cap m l'] show ?case by simp
qed simp

text \<open>So a run can always be continued to a state without a next step.\<close>

lemma link_run_ends: "\<exists>l'. (link_step cap)\<^sup>*\<^sup>* l l' \<and> (\<forall>l''. \<not> link_step cap l' l'')"
proof (induction "link_work l" arbitrary: l rule: less_induct)
  case less
  show ?case
  proof (cases "\<exists>m. link_step cap l m")
    case True
    then obtain m where m: "link_step cap l m" by blast
    with less [OF link_step_work] show ?thesis by (meson converse_rtranclp_into_rtranclp)
  qed auto
qed

section \<open>Where a thread can be stuck\<close>

lemma stuck_thread:
  assumes "\<forall>l'. \<not> link_step cap l l'" and "i < length (side l b)" and "side l b ! i = t"
  shows "t = \<lparr>cur = Idle, calls = Send m # cs\<rparr> \<Longrightarrow> send_mu l b \<noteq> None"
    and "t = \<lparr>cur = Sending bs, calls = cs\<rparr> \<Longrightarrow> bs \<noteq> [] \<and> cap \<le> length (wire l b)"
    and "t = \<lparr>cur = Idle, calls = Recv n # cs\<rparr> \<Longrightarrow> recv_mu l b \<noteq> None"
    and "t = \<lparr>cur = Receiving n got, calls = cs\<rparr> \<Longrightarrow> 0 < n \<and> wire l (other b) = []"
proof -
  show "t = \<lparr>cur = Idle, calls = Send m # cs\<rparr> \<Longrightarrow> send_mu l b \<noteq> None"
    using assms link_step.send_lock by blast
  show "t = \<lparr>cur = Idle, calls = Recv n # cs\<rparr> \<Longrightarrow> recv_mu l b \<noteq> None"
    using assms link_step.recv_lock by blast
  show "bs \<noteq> [] \<and> cap \<le> length (wire l b)" if t: "t = \<lparr>cur = Sending bs, calls = cs\<rparr>"
  proof -
    have "bs \<noteq> []" using assms t link_step.send_return by blast
    moreover from this have "\<not> length (wire l b) + 1 \<le> cap"
      using assms t link_step.send_some [of i l b bs cs 1 cap] by (cases bs) auto
    ultimately show ?thesis by simp
  qed
  show "0 < n \<and> wire l (other b) = []" if t: "t = \<lparr>cur = Receiving n got, calls = cs\<rparr>"
  proof -
    have "n \<noteq> 0" using assms t link_step.recv_return [of i l b got cs cap] by auto
    with assms t show ?thesis using link_step.recv_some [of i l b n got cs 1 cap] by (cases "wire l (other b)") auto
  qed
qed

lemma mutex_holder:
  assumes "locks_ok l"
  shows "send_mu l b \<noteq> None \<Longrightarrow> \<exists>i < length (side l b). is_sending (cur (side l b ! i))"
    and "recv_mu l b \<noteq> None \<Longrightarrow> \<exists>i < length (side l b). is_receiving (cur (side l b ! i))"
  using assms unfolding locks_ok_def by blast+

text \<open>A description of one end that depends only on its threads and on what it has sent and received: a step of the other end keeps it.\<close>

locale end_description =
  fixes Q :: "link \<Rightarrow> rank_end \<Rightarrow> bool"
  assumes frame: "side l' b = side l b \<Longrightarrow> outbox l' b = outbox l b \<Longrightarrow> inbox l' b = inbox l b \<Longrightarrow> Q l b \<Longrightarrow> Q l' b"
begin

lemma local_step:
  assumes "\<forall>c. Q l c" and "Q l b \<Longrightarrow> Q l' b"
    and "side l' (other b) = side l (other b)" and "outbox l' (other b) = outbox l (other b)" and "inbox l' (other b) = inbox l (other b)"
  shows "\<forall>c. Q l' c"
  using assms frame [OF assms(3-5)] unfolding all_ends [of _ b] by blast

lemma in_reachable:
  assumes "reaches cap P l" and "\<And>b. Q (new_link P) b" and "\<And>l l'. link_step cap l l' \<Longrightarrow> \<forall>b. Q l b \<Longrightarrow> \<forall>b. Q l' b"
  shows "Q l b"
proof -
  from assms(1) have "\<forall>b. Q l b"
    unfolding reaches_def by (induction rule: rtranclp_induct) (simp_all add: assms(2, 3))
  then show ?thesis by simp
qed

end

section \<open>Send, then receive\<close>

text \<open>The thread that \<open>_allgather_base\<close>, \<open>allgather\<close>, \<open>_reduce_scatter_base\<close>, \<open>reduce_scatter\<close> and \<open>alltoall\<close> start for a peer.\<close>

definition send_then_recv :: "(rank_end \<Rightarrow> u8 list) \<Rightarrow> rank_end \<Rightarrow> mesh_call list list" where
  "send_then_recv m b = [[Send (m b), Recv (length (m (other b)))]]"

definition exchange_at :: "(rank_end \<Rightarrow> u8 list) \<Rightarrow> link \<Rightarrow> rank_end \<Rightarrow> bool" where
  "exchange_at m l b \<longleftrightarrow> (let n = length (m (other b)) in
     side l b = [\<lparr>cur = Idle, calls = [Send (m b), Recv n]\<rparr>] \<and> outbox l b = [] \<and> inbox l b = [] \<or>
     (\<exists>bs. side l b = [\<lparr>cur = Sending bs, calls = [Recv n]\<rparr>]) \<and> outbox l b = [m b] \<and> inbox l b = [] \<or>
     side l b = [\<lparr>cur = Idle, calls = [Recv n]\<rparr>] \<and> outbox l b = [m b] \<and> inbox l b = [] \<or>
     (\<exists>k got. side l b = [\<lparr>cur = Receiving k got, calls = []\<rparr>] \<and> length got + k = n) \<and> outbox l b = [m b] \<and> inbox l b = [] \<or>
     (\<exists>got. side l b = [\<lparr>cur = Idle, calls = []\<rparr>] \<and> inbox l b = [got] \<and> length got = n) \<and> outbox l b = [m b])"

interpretation exchange: end_description "exchange_at m" for m
  by unfold_locales (simp add: exchange_at_def)

lemma exchange_at_step:
  assumes "link_step cap l l'" and "\<forall>b. exchange_at m l b"
  shows "\<forall>b. exchange_at m l' b"
  using assms
proof (induction rule: link_step.induct)
  case (send_lock i l b x cs)
  show ?case by (rule exchange.local_step [OF send_lock(4), where b = b]) (use send_lock(1-3) in \<open>auto simp: exchange_at_def set_thread_def Let_def\<close>)
next
  case (send_some i l b bs cs k)
  show ?case by (rule exchange.local_step [OF send_some(6), where b = b]) (use send_some(1-5) in \<open>auto simp: exchange_at_def set_thread_def Let_def\<close>)
next
  case (send_return i l b cs)
  show ?case by (rule exchange.local_step [OF send_return(3), where b = b]) (use send_return(1-2) in \<open>auto simp: exchange_at_def set_thread_def Let_def\<close>)
next
  case (recv_lock i l b n cs)
  show ?case by (rule exchange.local_step [OF recv_lock(4), where b = b]) (use recv_lock(1-3) in \<open>auto simp: exchange_at_def set_thread_def Let_def\<close>)
next
  case (recv_some i l b n got cs k)
  show ?case by (rule exchange.local_step [OF recv_some(6), where b = b]) (use recv_some(1-5) in \<open>auto simp: exchange_at_def set_thread_def Let_def\<close>)
next
  case (recv_return i l b got cs)
  show ?case by (rule exchange.local_step [OF recv_return(3), where b = b]) (use recv_return(1-2) in \<open>auto simp: exchange_at_def set_thread_def Let_def\<close>)
qed

lemma exchange_at_new: "exchange_at m (new_link (send_then_recv m)) b"
  by (simp add: exchange_at_def new_link_def send_then_recv_def Let_def)

lemma exchange_at_reaches: "reaches cap (send_then_recv m) l \<Longrightarrow> exchange_at m l b"
  by (rule exchange.in_reachable [OF _ exchange_at_new exchange_at_step])

text \<open>What an end can look like in a state without a next step, by the lengths of what it holds: in its send, in its receive, or finished.\<close>

definition end_stuck :: "nat \<Rightarrow> (rank_end \<Rightarrow> u8 list) \<Rightarrow> link \<Rightarrow> rank_end \<Rightarrow> bool" where
  "end_stuck cap m l b \<longleftrightarrow> concat (outbox l b) = m b \<and>
     (unsent l b \<noteq> [] \<and> cap \<le> length (wire l b) \<and> inbox l b = [] \<and> partial_msg l b = [] \<or>
      unsent l b = [] \<and> wire l (other b) = [] \<and> inbox l b = [] \<and> length (partial_msg l b) < length (m (other b)) \<or>
      unsent l b = [] \<and> (\<forall>t \<in> set (side l b). t = \<lparr>cur = Idle, calls = []\<rparr>) \<and> partial_msg l b = [] \<and> (\<exists>got. inbox l b = [got] \<and> length got = length (m (other b))))"

lemma exchange_end_stuck:
  assumes r: "reaches cap (send_then_recv m) l" and s: "\<forall>l'. \<not> link_step cap l l'"
  shows "end_stuck cap m l b"
proof -
  let ?n = "length (m (other b))"
  note locks = reaches_ok(1) [OF r] note hold = mutex_holder [OF locks, of b]
  note at0 = locks_okD [OF locks, of 0 b]
  from exchange_at_reaches [OF r, of b] consider
      (s0) "side l b = [\<lparr>cur = Idle, calls = [Send (m b), Recv ?n]\<rparr>]"
    | (s1) bs where "side l b = [\<lparr>cur = Sending bs, calls = [Recv ?n]\<rparr>]" "outbox l b = [m b]" "inbox l b = []"
    | (s2) "side l b = [\<lparr>cur = Idle, calls = [Recv ?n]\<rparr>]"
    | (s3) k got where "side l b = [\<lparr>cur = Receiving k got, calls = []\<rparr>]" "length got + k = ?n" "outbox l b = [m b]" "inbox l b = []"
    | (s4) got where "side l b = [\<lparr>cur = Idle, calls = []\<rparr>]" "inbox l b = [got]" "length got = ?n" "outbox l b = [m b]"
    unfolding exchange_at_def Let_def by blast
  then show ?thesis
  proof cases
    case s0
    then show ?thesis using stuck_thread(1) [OF s, of 0 b] hold(1) by simp
  next
    case s1
    then show ?thesis using stuck_thread(2) [OF s, of 0 b] at0 hold(2) unsent_holder(1) [of l b 0 bs] partial_holder(2) [of l b]
      by (auto simp: end_stuck_def)
  next
    case s2
    then show ?thesis using stuck_thread(3) [OF s, of 0 b] hold(2) by simp
  next
    case s3
    then show ?thesis using stuck_thread(4) [OF s, of 0 b] at0 hold(1) unsent_holder(2) [of l b] partial_holder(1) [of l b 0 k got]
      by (auto simp: end_stuck_def)
  next
    case s4
    then show ?thesis using hold unsent_holder(2) [of l b] partial_holder(2) [of l b] by (auto simp: end_stuck_def)
  qed
qed

text \<open>When both ends are stuck, both have finished, or both are in a send that does not fit.\<close>

lemma both_stuck:
  assumes r: "reaches cap P l" and "0 < cap" and "\<And>b. end_stuck cap m l b"
  shows "(\<forall>b. cap < length (m b)) \<or> finished_link l \<and> (\<forall>b. inbox l b = [m (other b)])"
proof -
  have len: "length (m b) = length (concat (inbox l (other b))) + length (partial_msg l (other b)) + length (wire l b) + length (unsent l b)" for b
    using arg_cong [OF streamD(1) [OF r, of b], of length] assms(3) [of b] by (simp add: end_stuck_def)
  note ends = assms(3) [unfolded end_stuck_def]
  show ?thesis
  proof (cases "\<forall>b. unsent l b \<noteq> []")
    case True
    have "cap < length (m b)" for b using spec [OF True, of b] ends [of b] len [of b] by (auto simp flip: length_greater_0_conv)
    then show ?thesis by simp
  next
    case False
    then obtain b where b: "unsent l b = []" by blast
    have "unsent l (other b) = []"
      using b ends [of b] ends [of "other b"] len [of "other b"] assms(2) by fastforce
    with b have none: "unsent l c = []" for c by (metis other_simps(4))
    have fin: "(\<forall>t \<in> set (side l c). t = \<lparr>cur = Idle, calls = []\<rparr>) \<and> (\<exists>got. inbox l c = [got] \<and> length got = length (m (other c)))" for c
      using ends [of c] none len [of "other c"] by auto
    have "inbox l c = [m (other c)]" for c
      using fin [of c] streamD(1) [OF r, of "other c"] ends [of "other c"] none [of "other c"] by auto
    with fin show ?thesis by (auto simp: finished_link_def)
  qed
qed

text \<open>
  Send-then-receive completes when it fits: if the message of one of the two ends fits into the socket buffers, no run of the two threads gets stuck, every run is bounded,
  and the end of a run has delivered both messages.
\<close>

theorem exchange_completes:
  assumes "0 < cap" and "length (m b) \<le> cap" and "(link_step cap ^^ n) (new_link (send_then_recv m)) l"
  shows "n \<le> link_work (new_link (send_then_recv m)) \<and>
    (finished_link l \<and> inbox l Lower = [m Higher] \<and> inbox l Higher = [m Lower] \<or> (\<exists>l'. link_step cap l l'))"
proof -
  have r: "reaches cap (send_then_recv m) l" unfolding reaches_def using assms(3) by (rule relpowp_imp_rtranclp)
  have "finished_link l \<and> (\<forall>b. inbox l b = [m (other b)])" if "\<not> (\<exists>l'. link_step cap l l')"
    using both_stuck [OF r assms(1) exchange_end_stuck [OF r]] that assms(2) by (meson leD)
  then show ?thesis using link_run_bounded [OF assms(3)] by auto
qed

theorem exchange_completes_witness:
  "\<exists>n l. (link_step 1 ^^ n) (new_link (send_then_recv (\<lambda>_. [7]))) l \<and> n \<le> link_work (new_link (send_then_recv (\<lambda>_. [7]))) \<and>
     finished_link l \<and> inbox l Lower = [[7]] \<and> inbox l Higher = [[7]]"
proof -
  obtain n l where nl: "(link_step 1 ^^ n) (new_link (send_then_recv (\<lambda>_. [7]))) l" "\<forall>l'. \<not> link_step 1 l l'"
    using link_run_ends by (metis rtranclp_imp_relpowp)
  from exchange_completes [of 1 "\<lambda>_. [7]" Lower, OF _ _ nl(1)] nl show ?thesis by auto
qed

text \<open>While neither message fits, both ends stay in their send: nothing has been read.\<close>

definition both_sending :: "(rank_end \<Rightarrow> u8 list) \<Rightarrow> link \<Rightarrow> bool" where
  "both_sending m l \<longleftrightarrow> (\<forall>b. inbox l b = [] \<and>
     (side l b = [\<lparr>cur = Idle, calls = [Send (m b), Recv (length (m (other b)))]\<rparr>] \<and> wire l b = [] \<or>
      (\<exists>bs. side l b = [\<lparr>cur = Sending bs, calls = [Recv (length (m (other b)))]\<rparr>] \<and> wire l b @ bs = m b)))"

lemma both_sending_local:
  assumes "both_sending m l" and "inbox l' = inbox l" and "side l' (other b) = side l (other b)" and "wire l' (other b) = wire l (other b)"
    and "side l' b = [\<lparr>cur = Sending bs, calls = [Recv (length (m (other b)))]\<rparr>]" and "wire l' b @ bs = m b"
  shows "both_sending m l'"
  using assms unfolding both_sending_def all_ends [of _ b] by simp

lemma both_sending_step:
  assumes "link_step cap l l'" and "both_sending m l" and "\<And>b. cap < length (m b)" and "\<And>b. length (wire l b) \<le> cap"
  shows "both_sending m l'"
  using assms
proof (induction rule: link_step.induct)
  case (send_lock i l b x cs)
  from spec [OF send_lock(4) [unfolded both_sending_def], of b] send_lock(1, 2)
  have "side l b = [\<lparr>cur = Idle, calls = [Send x, Recv (length (m (other b)))]\<rparr>]" "x = m b" "wire l b = []" "cs = [Recv (length (m (other b)))]" "i = 0"
    by auto
  then show ?case by (intro both_sending_local [OF send_lock(4), where b = b]) (auto simp: set_thread_def)
next
  case (send_some i l b bs cs k)
  from spec [OF send_some(6) [unfolded both_sending_def], of b] send_some(1, 2)
  have "side l b = [\<lparr>cur = Sending bs, calls = cs\<rparr>]" "cs = [Recv (length (m (other b)))]" "wire l b @ bs = m b" "i = 0" by auto
  then show ?case by (intro both_sending_local [OF send_some(6), where b = b]) (auto simp: set_thread_def)
next
  case (send_return i l b cs)
  from spec [OF send_return(3) [unfolded both_sending_def], of b] send_return(1, 2) have "wire l b = m b" by auto
  with send_return(4) [of b] send_return(5) [of b] show ?case by simp
next
  case (recv_lock i l b n cs)
  from spec [OF recv_lock(4) [unfolded both_sending_def], of b] recv_lock(1, 2) show ?case by auto
next
  case (recv_some i l b n got cs k)
  from spec [OF recv_some(6) [unfolded both_sending_def], of b] recv_some(1, 2) show ?case by auto
next
  case (recv_return i l b got cs)
  from spec [OF recv_return(3) [unfolded both_sending_def], of b] recv_return(1, 2) show ?case by auto
qed

lemma both_sending_new: "both_sending m (new_link (send_then_recv m))"
  by (simp add: both_sending_def new_link_def send_then_recv_def)

text \<open>
  Send-then-receive deadlocks when it does not fit: if both messages are larger than the socket buffers, nothing is ever received in any run, no run finishes, and every
  run ends, after boundedly many steps, in a state in which both threads wait for ever. \<open>_allgather_base\<close> and the others that use a thread per peer behave so for large chunks.
\<close>

theorem large_exchange_deadlocks:
  assumes "cap < length (m Lower)" and "cap < length (m Higher)" and "reaches cap (send_then_recv m) l"
  shows "inbox l b = [] \<and> \<not> finished_link l \<and> (\<exists>l'. (link_step cap)\<^sup>*\<^sup>* l l' \<and> (\<forall>l''. \<not> link_step cap l' l'') \<and> \<not> finished_link l')"
proof -
  have large: "cap < length (m c)" for c using assms(1, 2) by (cases c) auto
  have sending: "both_sending m l" if "reaches cap (send_then_recv m) l" for l
    using that [unfolded reaches_def]
  proof (induction rule: rtranclp_induct)
    case (step y z)
    then have "length (wire y c) \<le> cap" for c using streamD(2) reaches_def by blast
    with step large show ?case by (blast intro: both_sending_step)
  qed (rule both_sending_new)
  have unfinished: "\<not> finished_link l" if "reaches cap (send_then_recv m) l" for l
    using spec [OF sending [OF that, unfolded both_sending_def], of Lower] by (auto simp: finished_link_def intro!: exI [of _ Lower])
  obtain l' where l': "(link_step cap)\<^sup>*\<^sup>* l l'" "\<forall>l''. \<not> link_step cap l' l''" using link_run_ends by blast
  moreover have "reaches cap (send_then_recv m) l'" using assms(3) l'(1) unfolding reaches_def by (rule rtranclp_trans)
  moreover have "inbox l b = []" using sending [OF assms(3)] unfolding both_sending_def by blast
  ultimately show ?thesis using unfinished assms(3) by blast
qed

theorem large_exchange_deadlocks_witness:
  "\<not> finished_link (new_link (send_then_recv (\<lambda>_. [7, 7]))) \<and>
   (\<exists>l'. (link_step 1)\<^sup>*\<^sup>* (new_link (send_then_recv (\<lambda>_. [7, 7]))) l' \<and> (\<forall>l''. \<not> link_step 1 l' l'') \<and> \<not> finished_link l')"
proof -
  have "reaches 1 (send_then_recv (\<lambda>_. [7, 7])) (new_link (send_then_recv (\<lambda>_. [7, 7])))" by (simp add: reaches_def)
  from large_exchange_deadlocks [OF _ _ this, of Lower] show ?thesis by simp
qed

section \<open>Send on a helper thread while receiving\<close>

text \<open>A round of the ring or the butterfly on one link: \<open>std::thread st([&]{ mesh->send(...) })\<close> beside \<open>mesh->recv\<close>. A link that is used in one direction only has an empty
  message in the other.\<close>

definition send_while_recv :: "(rank_end \<Rightarrow> u8 list) \<Rightarrow> rank_end \<Rightarrow> mesh_call list list" where
  "send_while_recv m b = [[Send (m b)], [Recv (length (m (other b)))]]"

fun sender_at :: "u8 list \<Rightarrow> thread \<Rightarrow> u8 list list \<Rightarrow> bool" where
  "sender_at x \<lparr>cur = Idle, calls = cs\<rparr> out \<longleftrightarrow> cs = [Send x] \<and> out = [] \<or> cs = [] \<and> out = [x]"
| "sender_at x \<lparr>cur = Sending bs, calls = cs\<rparr> out \<longleftrightarrow> cs = [] \<and> out = [x]"
| "sender_at x \<lparr>cur = Receiving k got, calls = cs\<rparr> out \<longleftrightarrow> False"

fun receiver_at :: "nat \<Rightarrow> thread \<Rightarrow> u8 list list \<Rightarrow> bool" where
  "receiver_at n \<lparr>cur = Idle, calls = cs\<rparr> inb \<longleftrightarrow> cs = [Recv n] \<and> inb = [] \<or> cs = [] \<and> (\<exists>got. inb = [got] \<and> length got = n)"
| "receiver_at n \<lparr>cur = Receiving k got, calls = cs\<rparr> inb \<longleftrightarrow> cs = [] \<and> inb = [] \<and> length got + k = n"
| "receiver_at n \<lparr>cur = Sending bs, calls = cs\<rparr> inb \<longleftrightarrow> False"

definition duplex_at :: "(rank_end \<Rightarrow> u8 list) \<Rightarrow> link \<Rightarrow> rank_end \<Rightarrow> bool" where
  "duplex_at m l b \<longleftrightarrow> (\<exists>t u. side l b = [t, u] \<and> sender_at (m b) t (outbox l b) \<and> receiver_at (length (m (other b))) u (inbox l b))"

interpretation duplex: end_description "duplex_at m" for m
  by unfold_locales (simp add: duplex_at_def)

lemma duplex_at_step:
  assumes "link_step cap l l'" and "\<forall>b. duplex_at m l b"
  shows "\<forall>b. duplex_at m l' b"
  using assms
proof (induction rule: link_step.induct)
  case (send_lock i l b x cs)
  show ?case by (rule duplex.local_step [OF send_lock(4), where b = b]) (use send_lock(1-3) in \<open>auto simp: duplex_at_def set_thread_def less_Suc_eq\<close>)
next
  case (send_some i l b bs cs k)
  show ?case by (rule duplex.local_step [OF send_some(6), where b = b]) (use send_some(1-5) in \<open>auto simp: duplex_at_def set_thread_def less_Suc_eq\<close>)
next
  case (send_return i l b cs)
  show ?case by (rule duplex.local_step [OF send_return(3), where b = b]) (use send_return(1-2) in \<open>auto simp: duplex_at_def set_thread_def less_Suc_eq\<close>)
next
  case (recv_lock i l b n cs)
  show ?case by (rule duplex.local_step [OF recv_lock(4), where b = b]) (use recv_lock(1-3) in \<open>auto simp: duplex_at_def set_thread_def less_Suc_eq\<close>)
next
  case (recv_some i l b n got cs k)
  show ?case by (rule duplex.local_step [OF recv_some(6), where b = b]) (use recv_some(1-5) in \<open>auto simp: duplex_at_def set_thread_def less_Suc_eq\<close>)
next
  case (recv_return i l b got cs)
  show ?case by (rule duplex.local_step [OF recv_return(3), where b = b]) (use recv_return(1-2) in \<open>auto simp: duplex_at_def set_thread_def less_Suc_eq\<close>)
qed

lemma duplex_at_new: "duplex_at m (new_link (send_while_recv m)) b"
  by (simp add: duplex_at_def new_link_def send_while_recv_def)

lemma duplex_at_reaches: "reaches cap (send_while_recv m) l \<Longrightarrow> duplex_at m l b"
  by (rule duplex.in_reachable [OF _ duplex_at_new duplex_at_step])

lemma duplex_sender:
  assumes r: "reaches cap (send_while_recv m) l" and s: "\<forall>l'. \<not> link_step cap l l'"
  shows "concat (outbox l b) = m b \<and>
    (unsent l b \<noteq> [] \<and> cap \<le> length (wire l b) \<or> unsent l b = [] \<and> side l b ! 0 = \<lparr>cur = Idle, calls = []\<rparr>)"
proof -
  note locks = reaches_ok(1) [OF r]
  obtain t u where tu: "side l b = [t, u]" "sender_at (m b) t (outbox l b)" "receiver_at (length (m (other b))) u (inbox l b)"
    using duplex_at_reaches [OF r, of b] unfolding duplex_at_def by blast
  have u: "\<not> is_sending (cur u)" using tu(3) by (cases "(length (m (other b)), u, inbox l b)" rule: receiver_at.cases) auto
  have free: "send_mu l b = None" if "\<not> is_sending (cur t)"
  proof (rule ccontr)
    assume "send_mu l b \<noteq> None"
    from mutex_holder(1) [OF locks this] u that tu(1) show False by (auto simp: less_Suc_eq)
  qed
  show ?thesis
  proof (cases "cur t")
    case Idle
    with tu(2) have "t = \<lparr>cur = Idle, calls = [Send (m b)]\<rparr> \<or> t = \<lparr>cur = Idle, calls = []\<rparr> \<and> outbox l b = [m b]"
      by (cases t) auto
    then show ?thesis using free Idle stuck_thread(1) [OF s, of 0 b t] unsent_holder(2) tu(1) by auto
  next
    case (Sending bs)
    with tu(2) have t: "t = \<lparr>cur = Sending bs, calls = []\<rparr>" "outbox l b = [m b]" by (cases t; auto)+
    then show ?thesis
      using stuck_thread(2) [OF s, of 0 b t bs "[]"] locks_okD(1) [OF locks, of 0 b] unsent_holder(1) [of l b 0 bs] tu(1) by simp
  next
    case (Receiving k got)
    with tu(2) show ?thesis by (cases t) auto
  qed
qed

lemma duplex_receiver:
  assumes r: "reaches cap (send_while_recv m) l" and s: "\<forall>l'. \<not> link_step cap l l'"
  shows "wire l (other b) = [] \<and> inbox l b = [] \<and> length (partial_msg l b) < length (m (other b)) \<or>
    side l b ! 1 = \<lparr>cur = Idle, calls = []\<rparr> \<and> partial_msg l b = [] \<and> (\<exists>got. inbox l b = [got] \<and> length got = length (m (other b)))"
proof -
  note locks = reaches_ok(1) [OF r]
  let ?n = "length (m (other b))"
  obtain t u where tu: "side l b = [t, u]" "sender_at (m b) t (outbox l b)" "receiver_at ?n u (inbox l b)"
    using duplex_at_reaches [OF r, of b] unfolding duplex_at_def by blast
  have t: "\<not> is_receiving (cur t)" using tu(2) by (cases "(m b, t, outbox l b)" rule: sender_at.cases) auto
  have free: "recv_mu l b = None" if "\<not> is_receiving (cur u)"
  proof (rule ccontr)
    assume "recv_mu l b \<noteq> None"
    from mutex_holder(2) [OF locks this] t that tu(1) show False by (auto simp: less_Suc_eq)
  qed
  show ?thesis
  proof (cases "cur u")
    case Idle
    with tu(3) have "u = \<lparr>cur = Idle, calls = [Recv ?n]\<rparr> \<or> u = \<lparr>cur = Idle, calls = []\<rparr> \<and> (\<exists>got. inbox l b = [got] \<and> length got = ?n)"
      by (cases u) auto
    then show ?thesis using free Idle stuck_thread(3) [OF s, of 1 b u] partial_holder(2) tu(1) by auto
  next
    case (Receiving k got)
    with tu(3) have u: "u = \<lparr>cur = Receiving k got, calls = []\<rparr>" "inbox l b = []" "length got + k = ?n" by (cases u; auto)+
    then show ?thesis
      using stuck_thread(4) [OF s, of 1 b u k got "[]"] locks_okD(2) [OF locks, of 1 b] partial_holder(1) [of l b 1 k got] tu(1) by simp
  next
    case (Sending bs)
    with tu(3) show ?thesis by (cases u) auto
  qed
qed

lemma duplex_stuck_finished:
  assumes r: "reaches cap (send_while_recv m) l" and s: "\<forall>l'. \<not> link_step cap l l'" and "0 < cap"
  shows "finished_link l \<and> (\<forall>b. inbox l b = [m (other b)])"
proof -
  note snd = duplex_sender [OF r s] note rcv = duplex_receiver [OF r s]
  have len: "length (m b) = length (concat (inbox l (other b))) + length (partial_msg l (other b)) + length (wire l b) + length (unsent l b)" for b
    using arg_cong [OF streamD(1) [OF r, of b], of length] snd [of b] by simp
  have none: "unsent l b = []" for b
    using snd [of b] rcv [of "other b"] len [of b] assms(3) by fastforce
  have got: "side l b ! 1 = \<lparr>cur = Idle, calls = []\<rparr> \<and> partial_msg l b = [] \<and> (\<exists>got. inbox l b = [got] \<and> length got = length (m (other b)))" for b
    using rcv [of b] none [of "other b"] len [of "other b"] by auto
  have "inbox l b = [m (other b)]" for b
    using got [of b] streamD(1) [OF r, of "other b"] snd [of "other b"] none [of "other b"] by auto
  moreover have "\<forall>t \<in> set (side l b). t = \<lparr>cur = Idle, calls = []\<rparr>" for b
    using duplex_at_reaches [OF r, of b] snd [of b] none [of b] got [of b] by (auto simp: duplex_at_def)
  ultimately show ?thesis by (simp add: finished_link_def)
qed

text \<open>
  A helper thread makes the exchange safe: with one thread that sends and one that receives at each end, no run gets stuck whatever the sizes of the messages and of the
  socket buffers, every run is bounded, and its end has delivered both messages.
\<close>

theorem duplex_completes:
  assumes "0 < cap" and "(link_step cap ^^ n) (new_link (send_while_recv m)) l"
  shows "n \<le> link_work (new_link (send_while_recv m)) \<and>
    (finished_link l \<and> inbox l Lower = [m Higher] \<and> inbox l Higher = [m Lower] \<or> (\<exists>l'. link_step cap l l'))"
proof -
  have r: "reaches cap (send_while_recv m) l" unfolding reaches_def using assms(2) by (rule relpowp_imp_rtranclp)
  from duplex_stuck_finished [OF r _ assms(1)] have "finished_link l \<and> (\<forall>b. inbox l b = [m (other b)])" if "\<not> (\<exists>l'. link_step cap l l')"
    using that by blast
  then show ?thesis using link_run_bounded [OF assms(2)] by auto
qed

theorem duplex_completes_witness:
  "\<exists>n l. (link_step 1 ^^ n) (new_link (send_while_recv (\<lambda>_. [7, 7]))) l \<and> n \<le> link_work (new_link (send_while_recv (\<lambda>_. [7, 7]))) \<and>
     finished_link l \<and> inbox l Lower = [[7, 7]] \<and> inbox l Higher = [[7, 7]]"
proof -
  obtain n l where nl: "(link_step 1 ^^ n) (new_link (send_while_recv (\<lambda>_. [7, 7]))) l" "\<forall>l'. \<not> link_step 1 l l'"
    using link_run_ends by (metis rtranclp_imp_relpowp)
  from duplex_completes [OF _ nl(1)] nl show ?thesis by auto
qed

section \<open>Delivery\<close>

text \<open>
  C15. The mesh delivers messages: however the kernel cuts the bytes and however many threads of a rank use the connection, what one end has received is a prefix of what the
  other end has sent, in the order in which the senders obtained the mutex, without mixing the bytes of two messages, provided the receives ask for the lengths that are sent.
\<close>

theorem link_delivers:
  assumes "reaches cap P l" and "prefix (map length (inbox l (other b))) (map length (outbox l b))"
  shows "prefix (inbox l (other b)) (outbox l b)"
  using prefix_of_lengths [OF _ assms(2)] streamD(1) [OF assms(1), of b] by simp

theorem link_delivers_witness:
  "\<exists>l. reaches 1 (send_while_recv (\<lambda>_. [7, 8])) l \<and> inbox l Higher = [[7, 8]] \<and> prefix (inbox l Higher) (outbox l Lower)"
proof -
  let ?P = "send_while_recv (\<lambda>_. [7, 8])"
  obtain l where l: "reaches 1 ?P l" "\<forall>l'. \<not> link_step 1 l l'" using link_run_ends reaches_def by blast
  from duplex_stuck_finished [OF l] have i: "inbox l Higher = [[7, 8]]" by simp
  moreover have "outbox l Lower = [[7, 8]]"
    using duplex_at_reaches [OF l(1), of Lower] duplex_sender [OF l, of Lower]
    by (auto simp: duplex_at_def elim!: sender_at.elims)
  ultimately show ?thesis using link_delivers [OF l(1), of Lower] l(1) by auto
qed

section \<open>Two threads of a rank without an order between them\<close>

text \<open>
  \<open>allreduce\<close> runs on the thread that calls it, the other collectives on the engine thread. When a broadcast from the lower end has been submitted and the caller goes on with a ring allreduce, the engine
  threads and the callers of both ranks use the connection side by side: the thread of the broadcast, and the helper and the caller of the first round of the ring.
\<close>

definition broadcast_beside_ring :: "u8 list \<Rightarrow> (rank_end \<Rightarrow> u8 list) \<Rightarrow> rank_end \<Rightarrow> mesh_call list list" where
  "broadcast_beside_ring x y b =
     (if b = Lower then [[Send x], [Send (y Lower)], [Recv (length (y Higher))]]
      else [[Recv (length x)], [Send (y Higher)], [Recv (length (y Lower))]])"

text \<open>A message that fits is handed over in three steps by a thread of either end.\<close>

lemma hand_over:
  assumes "i < length (side l b)" and "side l b ! i = \<lparr>cur = Idle, calls = [Send m]\<rparr>" and "send_mu l b = None" and "wire l b = []" and "m \<noteq> []" and "length m \<le> cap"
  shows "\<exists>l'. (link_step cap)\<^sup>*\<^sup>* l l' \<and> side l' = (side l)(b := (side l b)[i := \<lparr>cur = Idle, calls = []\<rparr>]) \<and> wire l' b = m \<and>
    recv_mu l' = recv_mu l \<and> inbox l' = inbox l"
proof -
  let ?l1 = "(set_thread b i \<lparr>cur = Sending m, calls = []\<rparr> l)\<lparr>send_mu := (send_mu l)(b := Some i), outbox := (outbox l)(b := outbox l b @ [m])\<rparr>"
  let ?l2 = "(set_thread b i \<lparr>cur = Sending [], calls = []\<rparr> ?l1)\<lparr>wire := (wire l)(b := m)\<rparr>"
  let ?l3 = "(set_thread b i \<lparr>cur = Idle, calls = []\<rparr> ?l2)\<lparr>send_mu := (send_mu ?l2)(b := None)\<rparr>"
  have "link_step cap l ?l1" by (rule link_step.send_lock [OF assms(1-3)])
  moreover have "link_step cap ?l1 ?l2"
    using link_step.send_some [of i ?l1 b m "[]" "length m" cap] assms by (simp add: set_thread_def)
  moreover have "link_step cap ?l2 ?l3" by (rule link_step.send_return) (use assms(1) in \<open>simp_all add: set_thread_def\<close>)
  ultimately have "(link_step cap)\<^sup>*\<^sup>* l ?l3" by (meson rtranclp.rtrancl_refl rtranclp.rtrancl_into_rtrancl)
  then show ?thesis by (intro exI [of _ ?l3]) (simp add: set_thread_def)
qed

lemma take_over:
  assumes "i < length (side l b)" and "side l b ! i = \<lparr>cur = Idle, calls = [Recv (length m)]\<rparr>" and "recv_mu l b = None" and "wire l (other b) = m" and "m \<noteq> []"
  shows "\<exists>l'. (link_step cap)\<^sup>*\<^sup>* l l' \<and> side l' = (side l)(b := (side l b)[i := \<lparr>cur = Idle, calls = []\<rparr>]) \<and> inbox l' b = inbox l b @ [m]"
proof -
  let ?l1 = "(set_thread b i \<lparr>cur = Receiving (length m) [], calls = []\<rparr> l)\<lparr>recv_mu := (recv_mu l)(b := Some i)\<rparr>"
  let ?l2 = "(set_thread b i \<lparr>cur = Receiving 0 m, calls = []\<rparr> ?l1)\<lparr>wire := (wire l)(other b := [])\<rparr>"
  let ?l3 = "(set_thread b i \<lparr>cur = Idle, calls = []\<rparr> ?l2)\<lparr>recv_mu := (recv_mu ?l2)(b := None), inbox := (inbox ?l2)(b := inbox ?l2 b @ [m])\<rparr>"
  have "link_step cap l ?l1" by (rule link_step.recv_lock [OF assms(1-3)])
  moreover have "link_step cap ?l1 ?l2"
    using link_step.recv_some [of i ?l1 b "length m" "[]" "[]" "length m" cap] assms by (simp add: set_thread_def)
  moreover have "link_step cap ?l2 ?l3" by (rule link_step.recv_return) (use assms(1) in \<open>simp_all add: set_thread_def\<close>)
  ultimately have "(link_step cap)\<^sup>*\<^sup>* l ?l3" by (meson rtranclp.rtrancl_refl rtranclp.rtrancl_into_rtrancl)
  then show ?thesis by (intro exI [of _ ?l3]) (simp add: set_thread_def)
qed

text \<open>
  C16. An allreduce can overtake a broadcast: when a submitted broadcast has not started and the caller begins a ring allreduce with chunks of the same size, there is a run in which the broadcast of the
  receiving rank returns with the bytes of the allreduce in its tensor. Nothing on the stream says which collective a message belongs to.
\<close>

theorem allreduce_overtakes_broadcast:
  assumes "length x = length (y Lower)" and "x \<noteq> []" and "length x \<le> cap"
  shows "\<exists>l. reaches cap (broadcast_beside_ring x y) l \<and> side l Higher ! 0 = \<lparr>cur = Idle, calls = []\<rparr> \<and> inbox l Higher = [y Lower]"
proof -
  let ?l0 = "new_link (broadcast_beside_ring x y)"
  have y: "y Lower \<noteq> []" "length (y Lower) \<le> cap" using assms by auto
  obtain l1 where l1: "(link_step cap)\<^sup>*\<^sup>* ?l0 l1" "side l1 = (side ?l0)(Lower := (side ?l0 Lower)[1 := \<lparr>cur = Idle, calls = []\<rparr>])" "wire l1 Lower = y Lower"
      "recv_mu l1 = recv_mu ?l0" "inbox l1 = inbox ?l0"
    using hand_over [of 1 ?l0 Lower "y Lower" cap] y by (auto simp: new_link_def broadcast_beside_ring_def)
  obtain l where l: "(link_step cap)\<^sup>*\<^sup>* l1 l" "side l = (side l1)(Higher := (side l1 Higher)[0 := \<lparr>cur = Idle, calls = []\<rparr>])"
      "inbox l Higher = inbox l1 Higher @ [y Lower]"
    using take_over [of 0 l1 Higher "y Lower" cap] y assms(1) l1(2-4) by (auto simp: new_link_def broadcast_beside_ring_def)
  have "reaches cap (broadcast_beside_ring x y) l" unfolding reaches_def using l1(1) l(1) by (rule rtranclp_trans)
  then show ?thesis using l(2, 3) l1(2, 5) by (intro exI [of _ l]) (simp add: new_link_def broadcast_beside_ring_def)
qed

theorem allreduce_overtakes_broadcast_witness:
  "\<exists>l. reaches 16 (broadcast_beside_ring [1, 1] (\<lambda>b. [7, 7])) l \<and> side l Higher ! 0 = \<lparr>cur = Idle, calls = []\<rparr> \<and> inbox l Higher = [[7, 7]]"
  using allreduce_overtakes_broadcast [of "[1, 1]" "\<lambda>_. [7, 7]" 16] by simp

end
