(* ===== verification/Logging.thy ===== *)
theory Logging
  imports Errors
begin

text \<open>
  The logger of \<open>csrc/common/Logging.hpp\<close>: the severity levels with their order, the level read from the environment on the first use and on \<open>refresh_log_level\<close>, and
  \<open>log_impl\<close>, which writes one line under a process-wide mutex. The environment variable is a field of the state because a test or the Python side may change it while the
  program runs; the text that \<open>vfprintf\<close> produces from the format and its arguments is an argument. Also the version constants of \<open>csrc/common/Version.hpp\<close>.
\<close>

section \<open>Levels\<close>

datatype LogLevel = TRACE | DEBUG | INFO | WARN | ERROR | FATAL | OFF

fun level_value :: "LogLevel \<Rightarrow> int" where
  "level_value TRACE = 0"
| "level_value DEBUG = 1"
| "level_value INFO = 2"
| "level_value WARN = 3"
| "level_value ERROR = 4"
| "level_value FATAL = 5"
| "level_value OFF = 6"

lemma level_value_inj: "level_value a = level_value b \<longleftrightarrow> a = b"
  by (cases a; cases b; simp)

instantiation LogLevel :: linorder
begin

definition less_eq_LogLevel :: "LogLevel \<Rightarrow> LogLevel \<Rightarrow> bool" where
  "less_eq_LogLevel a b \<longleftrightarrow> level_value a \<le> level_value b"

definition less_LogLevel :: "LogLevel \<Rightarrow> LogLevel \<Rightarrow> bool" where
  "less_LogLevel a b \<longleftrightarrow> level_value a < level_value b"

instance
  by standard (auto simp: less_eq_LogLevel_def less_LogLevel_def level_value_inj)

end

lemmas level_order = less_eq_LogLevel_def less_LogLevel_def

definition log_level_from_env :: "string option \<Rightarrow> LogLevel" where
  "log_level_from_env env =
     (case env of
        None \<Rightarrow> WARN
      | Some s \<Rightarrow>
          if s \<in> {''TRACE'', ''trace'', ''0''} then TRACE
          else if s \<in> {''DEBUG'', ''debug'', ''1''} then DEBUG
          else if s \<in> {''INFO'', ''info'', ''2''} then INFO
          else if s \<in> {''WARN'', ''warn'', ''3''} then WARN
          else if s \<in> {''ERROR'', ''error'', ''4''} then ERROR
          else if s \<in> {''FATAL'', ''fatal'', ''5''} then FATAL
          else if s \<in> {''OFF'', ''off'', ''6''} then OFF
          else WARN)"

fun level_str :: "LogLevel \<Rightarrow> string" where
  "level_str TRACE = ''TRACE''"
| "level_str DEBUG = ''DEBUG''"
| "level_str INFO = ''INFO ''"
| "level_str WARN = ''WARN ''"
| "level_str ERROR = ''ERROR''"
| "level_str FATAL = ''FATAL''"
| "level_str OFF = ''?????''"

section \<open>The logger\<close>

text \<open>\<open>log_level\<close> is the function-local static: unset until the first call of \<open>global_log_level\<close>.\<close>

record logger =
  log_env :: "string option"
  log_level :: "LogLevel option"
  stderr_out :: string

definition global_log_level :: "logger \<Rightarrow> LogLevel \<times> logger" where
  "global_log_level s =
     (case log_level s of
        Some l \<Rightarrow> (l, s)
      | None \<Rightarrow> let l = log_level_from_env (log_env s) in (l, s\<lparr>log_level := Some l\<rparr>))"

definition refresh_log_level :: "logger \<Rightarrow> logger" where
  "refresh_log_level s = (let s1 = snd (global_log_level s) in s1\<lparr>log_level := Some (log_level_from_env (log_env s1))\<rparr>)"

record log_call =
  lc_level :: LogLevel
  lc_file :: string
  lc_line :: nat
  lc_epoch_ms :: nat
  lc_text :: string

definition log_prefix :: "log_call \<Rightarrow> string" where
  "log_prefix c = ''[MCCL '' @ level_str (lc_level c) @ '' '' @ to_string (lc_epoch_ms c) @ '' '' @ lc_file c @ '':'' @ to_string (lc_line c) @ ''] ''"

text \<open>The three writes of a call that passes the filter, in the critical section.\<close>

definition log_pieces :: "log_call \<Rightarrow> string list" where
  "log_pieces c = [log_prefix c, lc_text c, [CHR 0x0A]]"

definition log_impl :: "log_call \<Rightarrow> logger \<Rightarrow> logger" where
  "log_impl c s =
     (let (g, s1) = global_log_level s in
      if lc_level c < g then s1 else s1\<lparr>stderr_out := stderr_out s1 @ concat (log_pieces c)\<rparr>)"

text \<open>\<open>DISTRO_FATAL\<close> only logs; \<open>DISTRO_ABORT\<close> also terminates the process (\<^term>\<open>True\<close>).\<close>

definition distro_fatal :: "log_call \<Rightarrow> logger \<Rightarrow> bool \<times> logger" where
  "distro_fatal c s = (False, log_impl (c\<lparr>lc_level := FATAL\<rparr>) s)"

definition distro_abort :: "log_call \<Rightarrow> logger \<Rightarrow> bool \<times> logger" where
  "distro_abort c s = (True, log_impl (c\<lparr>lc_level := FATAL\<rparr>) s)"

section \<open>Interleaved writers\<close>

text \<open>
  Several threads log at once. A thread is its program, the calls still to be made, and, while it holds the mutex, the writes of the current call that remain.
  The level test comes before the lock, so a filtered call never takes it.
\<close>

record log_thread =
  to_log :: "log_call list"
  writing :: "string list"

record log_system =
  ls_level :: LogLevel
  holder :: "nat option"
  threads :: "log_thread list"
  log_output :: string
  written :: "log_call list"

text \<open>One step of thread \<open>i\<close>: filter a call, or take the mutex and start a line, or write a piece, or release the mutex.\<close>

inductive log_step :: "log_system \<Rightarrow> log_system \<Rightarrow> bool" where
  filtered: "\<lbrakk>i < length (threads s); threads s ! i = t; writing t = []; holder s \<noteq> Some i; to_log t = c # cs; lc_level c < ls_level s\<rbrakk>
     \<Longrightarrow> log_step s (s\<lparr>threads := (threads s)[i := t\<lparr>to_log := cs\<rparr>]\<rparr>)"
| acquire: "\<lbrakk>i < length (threads s); threads s ! i = t; writing t = []; holder s = None; to_log t = c # cs; \<not> lc_level c < ls_level s\<rbrakk>
     \<Longrightarrow> log_step s (s\<lparr>holder := Some i, threads := (threads s)[i := t\<lparr>to_log := cs, writing := log_pieces c\<rparr>], written := written s @ [c]\<rparr>)"
| piece: "\<lbrakk>i < length (threads s); threads s ! i = t; holder s = Some i; writing t = p # ps\<rbrakk>
     \<Longrightarrow> log_step s (s\<lparr>threads := (threads s)[i := t\<lparr>writing := ps\<rparr>], log_output := log_output s @ p\<rparr>)"
| release: "\<lbrakk>i < length (threads s); threads s ! i = t; holder s = Some i; writing t = []\<rbrakk>
     \<Longrightarrow> log_step s (s\<lparr>holder := None\<rparr>)"

inductive_cases log_stepE: "log_step s s'"

definition log_start :: "LogLevel \<Rightarrow> log_call list list \<Rightarrow> log_system" where
  "log_start l progs = \<lparr>ls_level = l, holder = None, threads = map (\<lambda>p. \<lparr>to_log = p, writing = []\<rparr>) progs, log_output = [], written = []\<rparr>"

definition log_line :: "log_call \<Rightarrow> string" where
  "log_line c = concat (log_pieces c)"

text \<open>What the holder has still to write completes the output to the lines of the calls that took the mutex, in that order.\<close>

definition pending_output :: "log_system \<Rightarrow> string" where
  "pending_output s = (case holder s of None \<Rightarrow> [] | Some i \<Rightarrow> concat (writing (threads s ! i)))"

definition log_inv :: "log_system \<Rightarrow> bool" where
  "log_inv s \<longleftrightarrow>
     log_output s @ pending_output s = concat (map log_line (written s)) \<and>
     (\<forall>i < length (threads s). holder s \<noteq> Some i \<longrightarrow> writing (threads s ! i) = []) \<and>
     (\<forall>c \<in> set (written s). ls_level s \<le> lc_level c)"

lemma log_inv_start: "log_inv (log_start l progs)"
  by (simp add: log_inv_def log_start_def pending_output_def)

lemma log_inv_step: "log_step s s' \<Longrightarrow> log_inv s \<Longrightarrow> log_inv s'"
proof (induction rule: log_step.induct)
  case (filtered i s t c cs)
  then show ?case by (auto simp: log_inv_def pending_output_def nth_list_update split: option.splits)
next
  case (acquire i s t c cs)
  then show ?case by (auto simp: log_inv_def pending_output_def nth_list_update log_line_def)
next
  case (piece i s t p ps)
  then show ?case by (auto simp: log_inv_def pending_output_def nth_list_update)
next
  case (release i s t)
  then show ?case by (auto simp: log_inv_def pending_output_def)
qed

lemma log_inv_reachable: "log_step\<^sup>*\<^sup>* s s' \<Longrightarrow> log_inv s \<Longrightarrow> log_inv s'"
  by (induction rule: rtranclp_induct) (auto intro: log_inv_step)

text \<open>
  Log lines do not mix: however the threads interleave, whenever no thread is inside \<open>log_impl\<close> the output is the concatenation of whole lines, one for
  each call that took the mutex, in that order, and none of them is below the level.
\<close>

theorem log_lines_whole:
  assumes "log_step\<^sup>*\<^sup>* (log_start l progs) s" and "holder s = None"
  shows "log_output s = concat (map log_line (written s)) \<and> (\<forall>c \<in> set (written s). ls_level s \<le> lc_level c)"
  using log_inv_reachable [OF assms(1) log_inv_start] assms(2) by (simp add: log_inv_def pending_output_def)

definition demo_call :: log_call where
  "demo_call = \<lparr>lc_level = ERROR, lc_file = ''a'', lc_line = 1, lc_epoch_ms = 2, lc_text = ''x''\<rparr>"

lemma demo_run:
  "log_step\<^sup>*\<^sup>* (log_start WARN [[demo_call]]) \<lparr>ls_level = WARN, holder = None, threads = [\<lparr>to_log = [], writing = []\<rparr>],
     log_output = log_line demo_call, written = [demo_call]\<rparr>"
proof -
  let ?s = "\<lambda>h w out. \<lparr>ls_level = WARN, holder = h, threads = [\<lparr>to_log = [], writing = w\<rparr>], log_output = out, written = [demo_call]\<rparr>"
  have start: "log_step (log_start WARN [[demo_call]]) (?s (Some 0) (log_pieces demo_call) [])"
    using log_step.acquire [of 0 "log_start WARN [[demo_call]]" "\<lparr>to_log = [demo_call], writing = []\<rparr>" demo_call "[]"]
    by (simp add: log_start_def demo_call_def level_order)
  have piece: "log_step (?s (Some 0) (p # ps) out) (?s (Some 0) ps (out @ p))" for p ps out
    using log_step.piece [of 0 "?s (Some 0) (p # ps) out" "\<lparr>to_log = [], writing = p # ps\<rparr>" p ps] by simp
  have finish: "log_step (?s (Some 0) [] out) (?s None [] out)" for out
    using log_step.release [of 0 "?s (Some 0) [] out" "\<lparr>to_log = [], writing = []\<rparr>"] by simp
  have pieces: "log_step\<^sup>*\<^sup>* (?s (Some 0) ps out) (?s (Some 0) [] (out @ concat ps))" for ps out
  proof (induction ps arbitrary: out)
    case (Cons p ps)
    from converse_rtranclp_into_rtranclp [OF piece Cons.IH] show ?case by simp
  qed simp
  have "log_step\<^sup>*\<^sup>* (log_start WARN [[demo_call]]) (?s (Some 0) [] (log_line demo_call))"
    using converse_rtranclp_into_rtranclp [OF start pieces] by (simp add: log_line_def)
  then show ?thesis using finish by (rule rtranclp.rtrancl_into_rtrancl)
qed

theorem log_lines_whole_witness:
  "concat (map log_line [demo_call]) = ''[MCCL ERROR 2 a:1] x'' @ [CHR 0x0A] \<and> WARN \<le> lc_level demo_call"
proof -
  have "log_line demo_call = ''[MCCL ERROR 2 a:1] x'' @ [CHR 0x0A]" by code_simp
  with log_lines_whole [OF demo_run] show ?thesis by simp
qed

section \<open>Filtering\<close>

text \<open>The level is read from the environment once: later changes have no effect without \<open>refresh_log_level\<close>.\<close>

lemma level_sticks: "fst (global_log_level ((snd (global_log_level s))\<lparr>log_env := e\<rparr>)) = fst (global_log_level s)"
  by (simp add: global_log_level_def Let_def split: option.split)

lemma refresh_rereads: "fst (global_log_level (refresh_log_level (s\<lparr>log_env := e\<rparr>))) = log_level_from_env e"
  by (simp add: global_log_level_def refresh_log_level_def Let_def split: option.split)

text \<open>No macro logs at level \<open>OFF\<close>, so \<open>OFF\<close> silences everything, and a level name that is not recognised counts as \<open>WARN\<close>.\<close>

lemma off_silences: "log_level s = Some OFF \<Longrightarrow> lc_level c \<noteq> OFF \<Longrightarrow> log_impl c s = s"
  by (cases "lc_level c") (simp_all add: log_impl_def global_log_level_def level_order)

lemma unrecognised_level: "log_level_from_env (Some ''Debug'') = WARN" "log_level_from_env (Some (level_str INFO)) = WARN"
  by (simp_all add: log_level_from_env_def)

section \<open>Version\<close>

record Version =
  major :: nat
  minor :: nat
  patch :: nat
  protocol :: nat

definition mccl_version :: Version where
  "mccl_version = \<lparr>major = 0, minor = 4, patch = 0, protocol = 1\<rparr>"

definition version_string :: string where
  "version_string = ''0.4.0''"

lemma version_consistent:
  "version_string = to_string (major mccl_version) @ ''.'' @ to_string (minor mccl_version) @ ''.'' @ to_string (patch mccl_version)"
  by code_simp

end
