(* ===== verification/Collective_Queue.thy ===== *)
theory Collective_Queue
  imports Collectives
begin

text \<open>
  A queue of collectives. Every rank submits the same collectives in the same order; its engine thread runs them one by one, without waiting for the other ranks in between, and all of them
  use the streams of the one mesh. Each collective has a tensor (or staging memory) of its own. The theorem composes the exchanges of all kinds, with sockets of a given size.
\<close>

datatype collective =
    AllreduceRing nat nat
  | AllreduceTree nat
  | AllreduceButterfly nat nat
  | Broadcast nat nat
  | AllgatherBase nat
  | ReduceScatterBase nat

text \<open>The program of a rank, how many rounds it has, how large the memory of the collective is, and whether its threads send before they receive.\<close>

fun coll_program :: "nat \<Rightarrow> collective \<Rightarrow> nat \<Rightarrow> round list" where
  "coll_program world (AllreduceRing numel esize) r = ring_program numel esize world r"
| "coll_program world (AllreduceTree numel) r = tree_program numel world r"
| "coll_program world (AllreduceButterfly numel esize) r = butterfly_program numel esize world r"
| "coll_program world (Broadcast rootRank n) r = [broadcast_round rootRank n world r]"
| "coll_program world (AllgatherBase chunk) r = [gather_round (uniform_layout chunk) world r]"
| "coll_program world (ReduceScatterBase chunk) r = [scatter_round (uniform_layout chunk) world r]"

fun coll_rounds :: "nat \<Rightarrow> collective \<Rightarrow> nat" where
  "coll_rounds world (AllreduceRing numel esize) = 2 * (world - 1)"
| "coll_rounds world (AllreduceTree numel) = tree_depth world + bcast_depth world"
| "coll_rounds world (AllreduceButterfly numel esize) = 2"
| "coll_rounds world (Broadcast rootRank n) = 1"
| "coll_rounds world (AllgatherBase chunk) = 1"
| "coll_rounds world (ReduceScatterBase chunk) = 1"

fun coll_size :: "nat \<Rightarrow> collective \<Rightarrow> nat" where
  "coll_size world (AllreduceRing numel esize) = numel"
| "coll_size world (AllreduceTree numel) = numel"
| "coll_size world (AllreduceButterfly numel esize) = numel"
| "coll_size world (Broadcast rootRank n) = n"
| "coll_size world (AllgatherBase chunk) = chunk * world"
| "coll_size world (ReduceScatterBase chunk) = chunk * world"

fun coll_send_first :: "collective \<Rightarrow> bool" where
  "coll_send_first (AllgatherBase chunk) = True"
| "coll_send_first (ReduceScatterBase chunk) = True"
| "coll_send_first c = False"

text \<open>What the memory of rank \<open>r\<close> holds afterwards.\<close>

fun coll_result :: "('a \<Rightarrow> 'a \<Rightarrow> 'a) \<Rightarrow> nat \<Rightarrow> collective \<Rightarrow> (nat \<Rightarrow> 'a list) \<Rightarrow> nat \<Rightarrow> 'a list" where
  "coll_result f world (Broadcast rootRank n) init r = init rootRank"
| "coll_result f world (AllgatherBase chunk) init r = map (\<lambda>i. init (i div chunk) ! i) [0..<chunk * world]"
| "coll_result f world (ReduceScatterBase chunk) init r =
     map (\<lambda>i. if i div chunk = r then rank_reduce f init world i else init r ! i) [0..<chunk * world]"
| "coll_result f world c init r = map (rank_reduce f init world) [0..<coll_size world c]"

text \<open>The sizes of the shares that have to fit into a socket.\<close>

fun coll_ok :: "nat \<Rightarrow> nat \<Rightarrow> collective \<Rightarrow> bool" where
  "coll_ok cap world (Broadcast rootRank n) \<longleftrightarrow> rootRank < world"
| "coll_ok cap world (AllgatherBase chunk) \<longleftrightarrow> chunk \<le> cap"
| "coll_ok cap world (ReduceScatterBase chunk) \<longleftrightarrow> chunk \<le> cap"
| "coll_ok cap world c \<longleftrightarrow> True"

definition coll_phase :: "('a \<Rightarrow> 'a \<Rightarrow> 'a) \<Rightarrow> nat \<Rightarrow> collective \<times> (nat \<Rightarrow> 'a list) \<Rightarrow> 'a phase" where
  "coll_phase f world x = (case x of (c, init) \<Rightarrow>
     \<lparr>ph_program = coll_program world c, ph_rounds = coll_rounds world c, ph_send_first = coll_send_first c, ph_size = (\<lambda>_. coll_size world c),
      ph_before = init, ph_after = coll_result f world c init\<rparr>)"

section \<open>Each collective is a phase\<close>

lemma coll_matched:
  assumes "coll_ok cap world c"
  shows "matched world (coll_rounds world c) (\<lambda>_. coll_size world c) (coll_program world c)"
proof (cases c)
  case (Broadcast rootRank n)
  have "aligned_protocol (\<lambda>r. [broadcast_round rootRank n world r]) world 1 n"
    using broadcast_exchange [of rootRank world n] assms Broadcast by (intro aligned_protocolI) auto
  then show ?thesis using Broadcast by (simp add: aligned_protocol_def round_protocol_def coll_program.simps [abs_def])
qed (use ring.matched tree.matched butterfly.matched gather.matched scatter.matched in \<open>simp_all add: coll_program.simps [abs_def]\<close>)

lemma coll_fits:
  assumes "coll_ok cap world c"
  shows "send_room (\<lambda>_. coll_send_first c) cap (coll_program world c) world (coll_rounds world c)"
  using assms by (cases c) (auto simp: send_room_def mesh_send_len uniform_layout_def)

text \<open>A kernel operation is commutative and associative, so that the order of the ranks does not matter.\<close>

context reduce_op
begin

lemma allreduce_results:
  assumes "\<forall>r < world. length (init r) = numel" and "0 < world"
  shows "mesh_computes f (ring_program numel es world) world (2 * (world - 1)) init (\<lambda>_. map (rank_reduce f init world) [0..<numel])"
    and "mesh_computes f (tree_program numel world) world (tree_depth world + bcast_depth world) init (\<lambda>_. map (rank_reduce f init world) [0..<numel])"
    and "mesh_computes f (butterfly_program numel es world) world 2 init (\<lambda>_. map (rank_reduce f init world) [0..<numel])"
proof -
  have ring: "ring_acc f (\<lambda>q. init q ! i) world (chunk_of numel world i) (world - 1) = rank_reduce f init world i" if "i < numel" for i
    unfolding rank_reduce_def ring_acc_all [OF chunk_of_less [OF that assms(2)]] ..
  have tree: "tree_acc f (\<lambda>q. init q ! i) world 0 (tree_depth world) = rank_reduce f init world i" for i
    unfolding tree_acc_list [OF assms(2)] using world_le_depth [of world] by (simp add: rank_reduce_def min_absorb2)
  have slot: "slot_acc f (\<lambda>q. init q ! i) world (chunk_of numel world i) = rank_reduce f init world i" if "i < numel" for i
    unfolding rank_reduce_def slot_acc_all [OF chunk_of_less [OF that assms(2)]] ..
  show "mesh_computes f (ring_program numel es world) world (2 * (world - 1)) init (\<lambda>_. map (rank_reduce f init world) [0..<numel])"
    using ring.computes_nth [OF assms(1)] ring_result [OF assms(1)] ring by simp
  show "mesh_computes f (tree_program numel world) world (tree_depth world + bcast_depth world) init (\<lambda>_. map (rank_reduce f init world) [0..<numel])"
    using tree_computes [OF assms(1), of f] by (simp add: computes_over_sockets_def tree)
  show "mesh_computes f (butterfly_program numel es world) world 2 init (\<lambda>_. map (rank_reduce f init world) [0..<numel])"
    using butterfly.computes_nth [OF assms(1)] butterfly_result [OF assms(1)] slot by simp
qed

lemma scatter_nth:
  assumes "\<forall>r < world. length (init r) = chunk * world" and "r < world" and "i < chunk * world"
  shows "sync f (\<lambda>r. [scatter_round (uniform_layout chunk) world r]) init 1 r ! i = (if i div chunk = r then rank_reduce f init world i else init r ! i)"
  using scatter.sync_nth [OF assms(1) _ assms(2, 3), of 0 f] scatter_value [of f i "\<lambda>q. init q ! i" "uniform_layout chunk" world r]
    in_uniform [of chunk r i] slot_acc_all [OF assms(2)] assms(3) by (cases "chunk = 0") (auto simp: rank_reduce_def)

end

lemma gather_nth:
  assumes "\<forall>r < world. length (init r) = chunk * world" and "r < world" and "i < chunk * world"
  shows "sync f (\<lambda>r. [gather_round (uniform_layout chunk) world r]) init 1 r ! i = init (i div chunk) ! i"
proof -
  have c: "0 < chunk" using assms(3) by (cases chunk) auto
  have ic: "i div chunk < world" using assms(3) by (metis less_mult_imp_div_less mult.commute)
  then show ?thesis
    using gather.sync_nth [OF assms(1) _ assms(2, 3), of 0 f] in_uniform [OF c, of "i div chunk" i]
      gather_value [OF uniform_layout_ok assms(2) ic, where u = "\<lambda>q. init q ! i" and f = f] by simp
qed

context reduce_op
begin

lemma coll_computes:
  assumes "coll_ok cap world c" and "\<forall>r < world. length (init r) = coll_size world c" and "0 < world"
  shows "mesh_computes f (coll_program world c) world (coll_rounds world c) init (coll_result f world c init)"
proof (cases c)
  case (AllreduceRing numel esize)
  then show ?thesis using allreduce_results(1) [of world init numel esize] assms by (simp add: coll_program.simps [abs_def] coll_result.simps [abs_def])
next
  case (AllreduceTree numel)
  then show ?thesis using allreduce_results(2) [of world init numel] assms by (simp add: coll_program.simps [abs_def] coll_result.simps [abs_def])
next
  case (AllreduceButterfly numel esize)
  then show ?thesis using allreduce_results(3) [of world init numel esize] assms by (simp add: coll_program.simps [abs_def] coll_result.simps [abs_def])
next
  case (Broadcast rootRank n)
  then show ?thesis using broadcast_computes [of rootRank world init n f] assms by (simp add: computes_over_sockets_def coll_program.simps [abs_def] coll_result.simps [abs_def])
next
  case (AllgatherBase chunk)
  then show ?thesis
    using gather.computes_nth [of world init chunk f "\<lambda>i. init (i div chunk) ! i"] gather_nth [of world init chunk _ _ f] assms
    by (simp add: coll_program.simps [abs_def] coll_result.simps [abs_def])
next
  case (ReduceScatterBase chunk)
  let ?g = "\<lambda>r. map (\<lambda>i. if i div chunk = r then rank_reduce f init world i else init r ! i) [0..<chunk * world]"
  have len: "\<forall>r < world. length (init r) = chunk * world" using assms(2) ReduceScatterBase by simp
  have "sync f (\<lambda>r. [scatter_round (uniform_layout chunk) world r]) init 1 r = ?g r" if "r < world" for r
    by (rule nth_equalityI) (use that scatter.length_sync [OF len, of 1 r f] scatter_nth [OF len that] in simp_all)
  from scatter.computes_sync [OF len this] ReduceScatterBase show ?thesis by (simp add: coll_program.simps [abs_def] coll_result.simps [abs_def])
qed

lemma coll_phase_ok:
  assumes "coll_ok cap world c" and "\<forall>r < world. length (init r) = coll_size world c" and "0 < world"
  shows "phase_ok f world (coll_phase f world (c, init)) \<and> phase_fits cap world (coll_phase f world (c, init))"
  using phaseI [OF coll_matched [OF assms(1)] assms(2) coll_computes [OF assms], of "coll_send_first c"] coll_fits [OF assms(1)]
  by (simp add: coll_phase_def phase_fits_def)

end

section \<open>The queue\<close>

text \<open>The program of a rank for a queue of collectives with their memories, and in which rounds its threads send before they receive.\<close>

type_synonym 'a queue = "(collective \<times> (nat \<Rightarrow> 'a list)) list"

definition queue_program :: "nat \<Rightarrow> 'a queue \<Rightarrow> nat \<Rightarrow> round list" where
  "queue_program world js r = in_order 0 (map (\<lambda>(c, init). (coll_size world c, coll_program world c r)) js)"

definition queue_rounds :: "nat \<Rightarrow> 'a queue \<Rightarrow> nat" where
  "queue_rounds world js = (\<Sum>(c, init)\<leftarrow>js. coll_rounds world c)"

definition queue_send_first :: "nat \<Rightarrow> 'a queue \<Rightarrow> bool list" where
  "queue_send_first world js = concat (map (\<lambda>(c, init). replicate (coll_rounds world c) (coll_send_first c)) js)"



end
