(* ===== verification/Element_Rounding.thy ===== *)
theory Element_Rounding
  imports Double Allreduce_Tree Allreduce_Butterfly
begin

text \<open>
  Sums in the arithmetic of the element types. An addition of a kernel is the exact one followed by rounding to the significand of the type, nearest, ties to even; the range of the exponent is not limited, so
  that overflow and subnormal numbers are outside. What the algorithms do with such an addition is stated exactly elsewhere (the order in which the ranks are combined); here is how far that can be from
  the exact sum. The locale \<open>rounded_sum\<close> has the standard model of rounding errors as its law and is interpreted on the additions of the three element types.
\<close>

section \<open>The addition of the kernels\<close>

text \<open>The significands, with the implicit bit, and the addition of the kernels.\<close>

fun significand :: "scalar_type \<Rightarrow> nat" where
  "significand kHalf = 11"
| "significand kBFloat16 = 8"
| "significand dt = 24"

definition kernel_add :: "scalar_type \<Rightarrow> rat \<Rightarrow> rat \<Rightarrow> rat" where
  "kernel_add dt a b = round_to (significand dt) (a + b)"

section \<open>Accumulated errors\<close>

text \<open>\<open>a\<close> is the value of a sum \<open>A\<close> of summands whose absolute values add up to \<open>S\<close>, after at most \<open>m\<close> roundings on each summand.\<close>

definition approximates :: "rat \<Rightarrow> nat \<Rightarrow> rat \<Rightarrow> rat \<Rightarrow> rat \<Rightarrow> bool" where
  "approximates u m a A S \<longleftrightarrow> \<bar>A\<bar> \<le> S \<and> \<bar>a - A\<bar> \<le> ((1 + u) ^ m - 1) * S"

lemma approximates_exact: "approximates u 0 x x \<bar>x\<bar>"
  by (simp add: approximates_def)

lemma approximates_mono:
  assumes "approximates u m a A S" and "m \<le> k" and "0 \<le> u"
  shows "approximates u k a A S"
proof -
  have "(1 + u) ^ m \<le> (1 + u) ^ k" using assms(2, 3) by (intro power_increasing) simp_all
  moreover have "0 \<le> S" using assms(1) by (auto simp: approximates_def)
  ultimately have "((1 + u) ^ m - 1) * S \<le> ((1 + u) ^ k - 1) * S" by (intro mult_right_mono) simp_all
  then show ?thesis using assms(1) unfolding approximates_def by linarith
qed

locale rounded_sum =
  fixes add :: "rat \<Rightarrow> rat \<Rightarrow> rat" and u :: rat
  assumes u_nonneg: "0 \<le> u" and add_error: "\<bar>add a b - (a + b)\<bar> \<le> u * \<bar>a + b\<bar>"
begin

lemma approximates_add:
  assumes "approximates u m a A S" and "approximates u m b B T"
  shows "approximates u (Suc m) (add a b) (A + B) (S + T)"
proof -
  let ?q = "(1 + u) ^ m"
  have ab: "\<bar>a + b\<bar> \<le> ?q * (S + T)" using assms unfolding approximates_def by (simp add: algebra_simps) linarith
  have "\<bar>add a b - (A + B)\<bar> \<le> \<bar>add a b - (a + b)\<bar> + \<bar>a - A\<bar> + \<bar>b - B\<bar>" by linarith
  also have "\<dots> \<le> u * (?q * (S + T)) + (?q - 1) * S + (?q - 1) * T"
    using add_error [of a b] mult_left_mono [OF ab u_nonneg] assms unfolding approximates_def by linarith
  also have "\<dots> = ((1 + u) ^ Suc m - 1) * (S + T)" by (simp add: algebra_simps)
  finally show ?thesis using assms by (auto simp: approximates_def)
qed

lemma ring_approximates: "approximates u d (ring_acc add x w c d) (ring_acc (+) x w c d) (ring_acc (+) (\<lambda>q. \<bar>x q\<bar>) w c d)"
proof (induction d)
  case (Suc d)
  then show ?case using approximates_add [OF approximates_mono [OF approximates_exact _ u_nonneg] Suc] by simp
qed (simp add: approximates_exact)

lemma tree_approximates: "approximates u j (tree_acc add x w r j) (tree_acc (+) x w r j) (tree_acc (+) (\<lambda>q. \<bar>x q\<bar>) w r j)"
proof (induction j arbitrary: r)
  case (Suc j)
  then show ?case using approximates_add [OF Suc Suc, of r "r + 2 ^ j"] approximates_mono [OF Suc [of r] _ u_nonneg, of "Suc j"] by simp
qed (simp add: approximates_exact)

lemma foldl_approximates:
  "approximates u m a A S \<Longrightarrow> approximates u (m + length xs) (foldl add a xs) (foldl (+) A xs) (foldl (+) S (map abs xs))"
proof (induction xs arbitrary: a A S m)
  case (Cons y xs)
  from Cons.IH [OF approximates_add [OF Cons.prems approximates_mono [OF approximates_exact _ u_nonneg]], of y] show ?case by simp
qed simp

lemma slot_approximates:
  "approximates u (length (peers w c)) (slot_acc add x w c) (slot_acc (+) x w c) (slot_acc (+) (\<lambda>q. \<bar>x q\<bar>) w c)"
  using foldl_approximates [OF approximates_exact [of u "x c"], of "map x (peers w c)"] by (simp add: slot_acc_def o_def)

end

interpretation element: rounded_sum "kernel_add dt" "1 / 2 ^ significand dt" for dt
  by unfold_locales (use round_to_error in \<open>simp_all add: kernel_add_def\<close>)

section \<open>Sums over the ranks\<close>

lemma reduce_list_sum: "0 < w \<Longrightarrow> reduce_list (+) (map x [0..<w]) = (\<Sum>r < w. x r :: rat)"
  using rank_reduce_fold [of w "\<lambda>w. \<Sum>r < w. x r" "\<lambda>r. [x r]" 0 "(+)"] by (simp add: rank_reduce_def)

lemma exact_sums:
  fixes x :: "nat \<Rightarrow> rat"
  shows "c < w \<Longrightarrow> ring_acc (+) x w c (w - 1) = (\<Sum>r < w. x r)" and "c < w \<Longrightarrow> slot_acc (+) x w c = (\<Sum>r < w. x r)"
    and "0 < w \<Longrightarrow> tree_acc (+) x w 0 (tree_depth w) = (\<Sum>r < w. x r)"
proof -
  show "c < w \<Longrightarrow> ring_acc (+) x w c (w - 1) = (\<Sum>r < w. x r)" using kernel.ring_acc_all [of c w RedSUM x] reduce_list_sum [of w x] by simp
  show "c < w \<Longrightarrow> slot_acc (+) x w c = (\<Sum>r < w. x r)" using kernel.slot_acc_all [of c w RedSUM x] reduce_list_sum [of w x] by simp
  show "0 < w \<Longrightarrow> tree_acc (+) x w 0 (tree_depth w) = (\<Sum>r < w. x r)"
    using kernel.tree_acc_list [of 0 w RedSUM x "tree_depth w"] reduce_list_sum [of w x] world_le_depth [of w] by (simp add: min_absorb2)
qed

text \<open>An allreduce that leaves on every rank the same buffer, each element of it within a relative error of the sum of absolute values that \<open>m\<close> roundings explain.\<close>

definition sum_within :: "scalar_type \<Rightarrow> nat \<Rightarrow> (nat \<Rightarrow> round list) \<Rightarrow> nat \<Rightarrow> nat \<Rightarrow> nat \<Rightarrow> (nat \<Rightarrow> rat list) \<Rightarrow> bool" where
  "sum_within dt m P world N numel init \<longleftrightarrow>
     (\<exists>result. computes_over_sockets (kernel_add dt) P world N init (\<lambda>_. result) \<and> length result = numel \<and>
        (\<forall>i < numel. \<bar>result ! i - allreduce_spec RedSUM init world i\<bar> \<le> ((1 + 1 / 2 ^ significand dt) ^ m - 1) * (\<Sum>r < world. \<bar>init r ! i\<bar>)))"

lemma sum_withinI:
  assumes "computes_over_sockets (kernel_add dt) P world N init (\<lambda>_. map g [0..<numel])"
    and "\<And>i. i < numel \<Longrightarrow> approximates (1 / 2 ^ significand dt) m (g i) (\<Sum>r < world. init r ! i) (\<Sum>r < world. \<bar>init r ! i\<bar>)"
  shows "sum_within dt m P world N numel init"
  unfolding sum_within_def using assms by (intro exI [of _ "map g [0..<numel]"]) (simp add: approximates_def)

lemma length_peers: "c < w \<Longrightarrow> length (peers w c) = w - 1"
proof -
  assume "c < w"
  have "set (peers w c) = {..<w} - {c}" by auto
  then have "length (peers w c) = card ({..<w} - {c})" using distinct_card [OF distinct_peers, of w c] by simp
  with \<open>c < w\<close> show ?thesis by simp
qed



end
