(* ===== verification/Spec2Isabelle.thy ===== *)
theory Spec2Isabelle
  imports Collectives_List Point_To_Point Registration Agent_Server Coherence_Protocol Memory_Pool Cluster_Manager
    Progress_Engine Tensor_Transfer Metrics Metal_Kernels Event_Sync Byte_Stream Logging Collective_Queue
    Element_Rounding
begin

text \<open>
  Verification of MCCL, a collective communication library for clusters of Apple machines (\<open>src/csrc\<close>).

  \<^bold>\<open>The program.\<close> A process group (\<open>backend/ProcessGroupMCCL.cpp\<close>) turns each collective into a task for one engine thread
  (\<open>backend/Progress.cpp\<close>) and hands out a work handle (\<open>backend/WorkMCCL.cpp\<close>); the task waits for the GPU work that produces its tensors
  (\<open>metal/EventSync.mm\<close>), stages them (\<open>metal/MPSInterop.mm\<close>) and runs an algorithm (\<open>backend/AllreduceAlgos.cpp\<close>) over TCP streams to the other ranks
  (\<open>backend/PeerMesh.cpp\<close>), which found each other through a key-value store (\<open>runtime/Rendezvous.cpp\<close>), with Metal kernels for the arithmetic
  (\<open>metal/MetalKernels.mm\<close>, \<open>metal/shaders.metal\<close>). PyTorch reaches the group through \<open>backend/Registration.cpp\<close> and \<open>backend/MPSFallback.cpp\<close>. Beside it stands a cluster runtime: a partitioned global address space (\<open>dmem\<close>)
  over RDMA (\<open>transport/rdma\<close>) with a page directory protocol (\<open>coherence\<close>), a cluster manager with failure detection and a job scheduler
  (\<open>runtime/ClusterManager.cpp\<close>, \<open>Scheduler.cpp\<close>), agents that serve a control protocol (\<open>agent\<close>), the head's runtime that
  dispatches shaders to them (\<open>runtime/DistributedMetalRuntime.cpp\<close>), a buffer pool, a second engine and metrics.

  \<^bold>\<open>Theories.\<close>
  \<^item> \<open>Prelude\<close>: words, a state-and-exception monad, byte slices, the contract of a key-value table (locale \<open>kv_table\<close>), decimal
    strings, loops that stop at an error. \<open>Wire\<close>: little-endian encodings and the contract of a fixed-width structure (locale
    \<open>wire_codec\<close>). \<open>Errors\<close>: exceptions, checks and tensor checks (\<open>common/Errors.hpp\<close>, \<open>TensorChecks.hpp\<close>). \<open>Double\<close>: rounding to double
    precision, monotone and exact on small integers.
  \<^item> \<open>Rounds\<close>, \<open>Reduction\<close>: programs of ranks that exchange messages in rounds and their execution over FIFO streams; element-wise
    reduction. \<open>Bounded_Mesh\<close>: the same programs over sockets of bounded size, with a thread for every send and receive of a round, or one per peer
    that sends first; when no run blocks, that the results are the same, and when every run does. \<open>Sequencing\<close>: programs one after the other over the same streams. \<open>Allreduce_Ring\<close>, \<open>Allreduce_Tree\<close>, \<open>Allreduce_Butterfly\<close>: the three algorithms as such programs; each returns, over exact
    arithmetic, the reduction of all inputs on every rank; ring and tree end with the same buffer on every rank for any element operation.
    \<open>Element_Rounding\<close>: sums in the arithmetic of the element types, with their errors.
  \<^item> \<open>Process_Group\<close>, \<open>Collectives\<close>, \<open>Collectives_List\<close>, \<open>Point_To_Point\<close>: the operations of the process group with their checks, staging, choice of
    algorithm and error branches. \<open>Collective_Queue\<close>: any mixture of collectives in the same order on every rank.
  \<^item> \<open>Peer_Mesh\<close>, \<open>Mesh_Construction\<close>, \<open>Group_Construction\<close>, \<open>Rendezvous\<close>: complete reads and writes, interface priorities, endpoint strings, acceptor; the
    constructor of the mesh with the handshakes of both sides, and that of the group; endpoint exchange and the barrier as a step relation over the
    store.
  \<^item> \<open>Byte_Stream\<close>: one connection of the mesh while a collective uses it, down to single system calls, mutexes and socket buffers of a given size; the two
    ways in which the collectives use a connection, with the messages they deliver and the sizes at which they deadlock; and the threads of two collectives side by side. \<open>Registration\<close>: options, factory,
    re-dispatch of operators.
  \<^item> \<open>Metal_Shaders\<close>, \<open>Metal_Kernels\<close>: the compute kernels thread by thread with 32-bit indices, and the host side that chooses, launches and batches them; a launch
    is the reduction step of \<open>Rounds\<close>. \<open>Mps_Interop\<close>: buffer views, the staging pool and the copies between private and shared storage. \<open>Event_Sync\<close>: recorded
    events, and that a collective's body runs after the producers of its tensors.
  \<^item> \<open>Fifo_Engine\<close> (the contract of a single-threaded engine, a locale), interpreted by \<open>Work_MCCL\<close> (work handles and \<open>Progress\<close>) and
    \<open>Progress_Engine\<close>: order, completion exactly once, bounds, draining at shutdown.
  \<^item> \<open>Global_Address\<close>, \<open>Memory_Catalog\<close>, \<open>Rdma\<close>, \<open>Dmem\<close>, \<open>Dmem_Properties\<close>: addresses, the replicated directory, queue pairs and registered
    buffers, the memory manager with its memory as a function of the address and the requests handed to the card.
  \<^item> \<open>Coherence_Directory\<close>, \<open>Coherence_Protocol\<close>: directory entries and sharer masks, all message handlers and operations of head and agents.
  \<^item> \<open>Scheduler\<close>, \<open>Cluster_Manager\<close>, \<open>Memory_Pool\<close>, \<open>Metrics\<close>: one theory per class. \<open>Logging\<close>: the logger, with several threads
    writing at once, and the version constants.
  \<^item> \<open>Agent\<close>, \<open>Shader_Dispatch\<close>, \<open>Metal_Runtime\<close>: the agent's command loop over a byte stream, the partition of a grid, and the head's operations as the
    actions they perform; the two ends of the control connection are composed. \<open>Tensor_Transfer\<close>: its asynchronous
    operations on the memory manager. \<open>Agent_Server\<close>: the agent's start and accept loop, the head's connect.

  \<^bold>\<open>How code becomes definitions.\<close> A class is a record of its members, a method a function on it; a method that can throw returns an error or a value together with the
  state it leaves (an exception keeps the changes made before it), and undefined behaviour and self-deadlock are failure values of their own. Methods
  that hold their mutex for the whole body are one step; where the code releases it in between, the halves are separate steps of a step
  relation. Integers keep their width as words where wrap-around or truncation matters. Hash maps are mappings; a loop over one takes
  the visiting order as an argument. Code outside the repository (the store, sockets, the verbs library, the network card, Metal, the
  clock) enters as arguments: outcomes of calls, or functions with the hypotheses stated in the theorems that need them.

  \<^bold>\<open>Loops and bounds.\<close> Loops are structural recursion or functions with a termination proof (chunks of a transfer, the agent's command loop, complete reads); no
  theorem depends on fuel; the re-dispatch of an operator, which could loop, is an optional value that is proved to exist. Draining the progress queue is given with the exact number of iterations it takes. Element counts are
  natural numbers; where the code narrows them the theorems say so.

  \<^bold>\<open>What the theorems show.\<close> Collectives compute what they promise on every rank, under every interleaving of the ranks, and allreduce and broadcast over socket buffers of any size (over an ordered field; for sums in
  \<open>float\<close>, \<open>half\<close> and \<open>bfloat16\<close> there is a bound on the error, and the ring leaves the same bits everywhere whatever the element operation), and queues of collectives do not disturb each other; engines are FIFO
  and settle every handle once; collectives start after the GPU work they read; the kernels compute the reduction
  step for up to \<open>2 ^ 32 - 8\<close> elements and match the element type; staging and unstaging is the identity; a connection delivers messages whole and in order, and an exchange with a
  helper thread always ends; barriers separate; the scheduler never over-commits a node; failure detection evicts exactly the silent
  nodes; a mesh that is constructed connects exactly the ranks it claims, and it is constructed when
  the peers cooperate; catalog, endpoints, addresses and messages survive their encodings; transfers move exactly the bytes asked for; the agent
  answers every request once and in order; partitions tile the grid. Other theorems state where the code departs from what it
  means to do (remote transfers that can never succeed, a staging buffer reused in flight, two ends that disagree on a size, a
  schedule that waits for answers to commands never sent, an owner that is never recorded, exchanges of
  large chunks that deadlock, an allreduce that overtakes a broadcast, a failed batch of kernels that blocks the later ones).

  \<^bold>\<open>Not modelled.\<close> Overflow, subnormal numbers and the rounding of products and averages in the element types. The Metal framework, PyTorch's stream and dispatcher: their answers are arguments. The module definition
  (\<open>python/bindings.cpp\<close>) and the Python package: glue. The device mutex, which nothing uses, and socket options. Thread creation failure. The theorems on allgather, reduce-scatter and all-to-all are for chunks that fit the socket buffers
  (larger ones deadlock). In \<open>Bounded_Mesh\<close> streams carry whole elements and a slice does not change while it is being sent. In the theorems on whole collectives tensors are in shared storage, so that staging returns the tensor's own memory.
  \<open>std::sort\<close> is stable in the model. Overlapping ranges of \<open>memcpy\<close> are outside it.
\<close>

section \<open>The agent and the memory manager\<close>

text \<open>The agent's environment when its calls go to a memory manager in state \<open>s\<close> whose card gives registrations with the keys \<open>mr\<close>.\<close>

definition agent_over_dmem :: "dmem \<Rightarrow> (u32 \<times> u32) option \<Rightarrow> agent_env" where
  "agent_over_dmem s mr =
     \<lparr>dmem_present = True,
      register_outcome = (\<lambda>base len flags. case fst (register_region mr base len flags s) of Inr rid \<Rightarrow> Some rid | Inl _ \<Rightarrow> None),
      unregister_returns = (\<lambda>_. True), metal_sync_returns = True,
      dm_stats = (put_bytes (dmem_counters s), get_bytes (dmem_counters s), put_ops (dmem_counters s), get_ops (dmem_counters s)),
      stats_pad = [0, 0, 0, 0]\<rparr>"

text \<open>
  C37. A buffer registered through the agent is usable: the agent answers a register request for a non-empty buffer with the region number that the
  memory manager assigned, and in the manager's new state every address of that region resolves to the corresponding byte of the buffer.
\<close>

theorem agent_registers_region:
  assumes "buffer_addr r \<noteq> 0" and "reg_length r \<noteq> 0" and "unat (next_region_id s) < 2 ^ 32 - 1"
  shows "\<exists>rid s'. register_region (Some (rkey, lkey)) (buffer_addr r) (reg_length r) (reg_flags r) s = (Inr rid, s') \<and>
     handle_connection (agent_over_dmem s (Some (rkey, lkey))) (request_bytes (RRegister r)) agent_running =
       Inr \<lparr>g_running = True,
            sent_bytes = header_bytes \<lparr>hdr_cmd = cmd_code REGISTER, hdr_status = status_code OK, payload_len = 8\<rparr> @
              register_response_bytes \<lparr>rr_region_id = rid, rr_rkey = 0\<rparr>,
            agent_calls = [Register (buffer_addr r) (reg_length r) (reg_flags r)]\<rparr> \<and>
     (\<forall>off < reg_length r. is_local (resolve \<lparr>ga_node_id = dm_node_id s, ga_region_id = rid, ga_offset = off\<rparr> s') \<and>
        local_ptr (resolve \<lparr>ga_node_id = dm_node_id s, ga_region_id = rid, ga_offset = off\<rparr> s') = buffer_addr r + off)"
proof -
  let ?rid = "next_region_id s" and ?env = "agent_over_dmem s (Some (rkey, lkey))"
  obtain s' where reg: "register_region (Some (rkey, lkey)) (buffer_addr r) (reg_length r) (reg_flags r) s = (Inr ?rid, s')"
    "dm_node_id s' = dm_node_id s" "unat ?rid < length (dm_regions s')"
    "mr_local_addr (dm_regions s' ! unat ?rid) = buffer_addr r" "mr_length (dm_regions s' ! unat ?rid) = reg_length r"
    using register_success [OF assms, of rkey lkey "reg_flags r"] by auto
  have "handle_connection ?env (concat (map request_bytes [RRegister r]) @ []) agent_running =
      handle_connection ?env [] (agent_running\<lparr>sent_bytes := sent_bytes agent_running @ concat (map (answer_bytes ?env) [RRegister r]),
        agent_calls := agent_calls agent_running @ concat (map request_calls [RRegister r])\<rparr>)"
    by (rule handle_connection_requests) (simp_all add: agent_over_dmem_def agent_running_def)
  moreover have "answer ?env (RRegister r) = (OK, register_response_bytes \<lparr>rr_region_id = ?rid, rr_rkey = 0\<rparr>)"
    using assms(1,2) reg(1) by (simp add: agent_over_dmem_def)
  ultimately have "handle_connection ?env (request_bytes (RRegister r)) agent_running =
      Inr \<lparr>g_running = True,
            sent_bytes = header_bytes \<lparr>hdr_cmd = cmd_code REGISTER, hdr_status = status_code OK, payload_len = 8\<rparr> @
              register_response_bytes \<lparr>rr_region_id = ?rid, rr_rkey = 0\<rparr>,
            agent_calls = [Register (buffer_addr r) (reg_length r) (reg_flags r)]\<rparr>"
    using assms(1,2) by (simp add: handle_connection_command(1) agent_running_def answer_bytes_def register_response.enc_length REGISTER_RESPONSE_WIRE_SIZE_def)
  moreover have "is_local (resolve \<lparr>ga_node_id = dm_node_id s, ga_region_id = ?rid, ga_offset = off\<rparr> s') \<and>
      local_ptr (resolve \<lparr>ga_node_id = dm_node_id s, ga_region_id = ?rid, ga_offset = off\<rparr> s') = buffer_addr r + off" if "off < reg_length r" for off
    using resolve_registered [OF reg(3) refl, of off] that reg(2,4,5) by simp
  ultimately show ?thesis using reg(1) by blast
qed

theorem agent_registers_region_witness:
  "\<exists>rid s'. register_region (Some (7, 8)) 4096 64 3 (fresh_dmem 2) = (Inr rid, s') \<and>
     local_ptr (resolve \<lparr>ga_node_id = 2, ga_region_id = rid, ga_offset = 10\<rparr> s') = 4106"
proof -
  obtain rid s' where "register_region (Some (7, 8)) 4096 64 3 (fresh_dmem 2) = (Inr rid, s')"
    "\<forall>off < 64. local_ptr (resolve \<lparr>ga_node_id = dm_node_id (fresh_dmem 2), ga_region_id = rid, ga_offset = off\<rparr> s') = 4096 + off"
    using agent_registers_region [of example_register "fresh_dmem 2" 7 8] by (auto simp: example_register_def fresh_dmem_facts(1))
  moreover have "(10 :: u64) < 64" by simp
  ultimately show ?thesis unfolding fresh_dmem_facts(2) by fastforce
qed

end
